(* ===== verification/Prelude.thy ===== *)
theory Prelude
  imports Complex_Main "HOL-Library.AList" "HOL-Library.List_Lexorder" "HOL-Library.Char_ord"
    "HOL-Library.Product_Lexorder"
begin

text \<open>
  The vocabulary every other theory of the development shares: Python exceptions as a
  datatype, JSON values, ordered dictionaries as association lists, the state and exception
  monad in which the stateful code is written, its Hoare triples, and the two sources of
  nondeterminism of the program (\<open>uuid4\<close> and \<open>time.time\<close>) as explicit supplies.

  Strings are \<^typ>\<open>string\<close>, read as text over single-byte characters. Python floats are
  rationals: comparisons and sums are exact, rounding and the non-finite values are not
  modelled. Python integers are \<^typ>\<open>int\<close>.
\<close>

named_theorems py_simps \<open>unfolding of the monad on concrete outcomes\<close>
named_theorems wp \<open>Hoare triples of the monad and of the operations\<close>
named_theorems wp_ext \<open>triples about the state outside the process\<close>

type_synonym pyfloat = rat

section \<open>Exceptions\<close>

text \<open>
  One constructor per exception class the sources raise or catch. \<open>External\<close> is an
  exception that a capability or a model raises: its class and its message.
\<close>

datatype exc =
    ValueError string
  | KeyError string
  | TypeError string
  | AttributeError string
  | PermissionError string
  | RuntimeError string
  | UnknownObject string
  | EntityVersionConflict string
  | StaleWorld string
  | InvalidAction string
  | BudgetExceeded string
  | LeaseLost string
  | IntegrityError string
  | BridgeTransportError string
  | BridgeProtocolError string
  | BridgeUnavailable string
  | StaleBridgeGeneration string
  | BridgeRemoteError string string
  | OverflowError string
  | OSError string
  | JSONDecodeError string
  | UnicodeDecodeError string
  | RecursionError string
  | External string string

section \<open>Text\<close>

definition digit_char :: "nat \<Rightarrow> char" where
  "digit_char n = char_of (48 + n)"

fun nat_str :: "nat \<Rightarrow> string" where
  "nat_str n = (if n < 10 then [digit_char n] else nat_str (n div 10) @ [digit_char (n mod 10)])"

declare nat_str.simps [simp del]

definition int_str :: "int \<Rightarrow> string" where
  "int_str i = (if i < 0 then CHR ''-'' # nat_str (nat (- i)) else nat_str (nat i))"

text \<open>\<^verbatim>\<open>str.lower\<close> on single-byte text: the letters A to Z.\<close>

definition lower_char :: "char \<Rightarrow> char" where
  "lower_char c =
     (let n = (of_char c :: nat) in if 65 \<le> n \<and> n \<le> 90 then char_of (n + 32) else c)"

definition lower :: "string \<Rightarrow> string" where
  "lower s = map lower_char s"

lemma nat_str_nonempty [simp]: "nat_str n \<noteq> []"
  by (subst nat_str.simps) simp

text \<open>Python's \<open>repr\<close> of a string without quotes, and of a list of such strings.\<close>

definition quoted :: "string \<Rightarrow> string" where
  "quoted s = CHR 0x27 # s @ [CHR 0x27]"

fun joined :: "string \<Rightarrow> string list \<Rightarrow> string" where
  "joined sep [] = []"
| "joined sep [x] = x"
| "joined sep (x # y # xs) = x @ sep @ joined sep (y # xs)"

definition repr_list :: "string list \<Rightarrow> string" where
  "repr_list xs = ''['' @ joined '', '' (map quoted xs) @ '']''"

fun exc_repr :: "exc \<Rightarrow> string" where
  "exc_repr (ValueError m) = ''ValueError('' @ quoted m @ '')''"
| "exc_repr (KeyError m) = ''KeyError('' @ quoted m @ '')''"
| "exc_repr (TypeError m) = ''TypeError('' @ quoted m @ '')''"
| "exc_repr (AttributeError m) = ''AttributeError('' @ quoted m @ '')''"
| "exc_repr (PermissionError m) = ''PermissionError('' @ quoted m @ '')''"
| "exc_repr (RuntimeError m) = ''RuntimeError('' @ quoted m @ '')''"
| "exc_repr (UnknownObject m) = ''UnknownObject('' @ quoted m @ '')''"
| "exc_repr (EntityVersionConflict m) = ''EntityVersionConflict('' @ quoted m @ '')''"
| "exc_repr (StaleWorld m) = ''StaleWorld('' @ quoted m @ '')''"
| "exc_repr (InvalidAction m) = ''InvalidAction('' @ quoted m @ '')''"
| "exc_repr (BudgetExceeded m) = ''BudgetExceeded('' @ quoted m @ '')''"
| "exc_repr (LeaseLost m) = ''LeaseLost('' @ quoted m @ '')''"
| "exc_repr (IntegrityError m) = ''IntegrityError('' @ quoted m @ '')''"
| "exc_repr (BridgeTransportError m) = ''BridgeTransportError('' @ quoted m @ '')''"
| "exc_repr (BridgeProtocolError m) = ''BridgeProtocolError('' @ quoted m @ '')''"
| "exc_repr (BridgeUnavailable m) = ''BridgeUnavailable('' @ quoted m @ '')''"
| "exc_repr (StaleBridgeGeneration m) = ''StaleBridgeGeneration('' @ quoted m @ '')''"
| "exc_repr (BridgeRemoteError c m) = ''BridgeRemoteError('' @ quoted (c @ '': '' @ m) @ '')''"
| "exc_repr (OverflowError m) = ''OverflowError('' @ quoted m @ '')''"
| "exc_repr (OSError m) = ''OSError('' @ quoted m @ '')''"
| "exc_repr (JSONDecodeError m) = ''JSONDecodeError('' @ quoted m @ '')''"
| "exc_repr (UnicodeDecodeError m) = ''UnicodeDecodeError('' @ quoted m @ '')''"
| "exc_repr (RecursionError m) = ''RecursionError('' @ quoted m @ '')''"
| "exc_repr (External c m) = c @ ''('' @ quoted m @ '')''"

section \<open>JSON values and dictionaries\<close>

datatype json =
    JNull
  | JBool bool
  | JInt int
  | JFloat pyfloat
  | JStr string
  | JList "json list"
  | JDict "(string \<times> json) list"

type_synonym dict = "(string \<times> json) list"

text \<open>Python's truth value of a JSON value.\<close>

fun truthy :: "json \<Rightarrow> bool" where
  "truthy JNull = False"
| "truthy (JBool b) = b"
| "truthy (JInt i) = (i \<noteq> 0)"
| "truthy (JFloat q) = (q \<noteq> 0)"
| "truthy (JStr s) = (s \<noteq> [])"
| "truthy (JList xs) = (xs \<noteq> [])"
| "truthy (JDict d) = (d \<noteq> [])"

text \<open>
  Python's \<open>==\<close> between a JSON value and a string or an integer: \<open>True == 1\<close> and
  \<open>1.0 == 1\<close> hold in Python, so an integer equals the booleans and floats of its value.
\<close>

fun eq_str :: "json \<Rightarrow> string \<Rightarrow> bool" where
  "eq_str (JStr s) t = (s = t)"
| "eq_str _ t = False"

fun eq_int :: "json \<Rightarrow> int \<Rightarrow> bool" where
  "eq_int (JInt i) n = (i = n)"
| "eq_int (JBool b) n = ((if b then 1 else 0) = n)"
| "eq_int (JFloat q) n = (q = of_int n)"
| "eq_int _ n = False"

text \<open>\<open>int\<close> of a JSON value: a number is cut towards zero; the callers meet numbers only.\<close>

fun py_int :: "json \<Rightarrow> exc + int" where
  "py_int (JInt i) = Inr i"
| "py_int (JBool b) = Inr (if b then 1 else 0)"
| "py_int (JFloat q) = Inr (if q < 0 then \<lceil>q\<rceil> else \<lfloor>q\<rfloor>)"
| "py_int (JStr s) = Inl (ValueError ''invalid literal for int()'')"
| "py_int _ = Inl (TypeError ''int() argument must be a string or a real number'')"

lemma eq_int_py_int: "eq_int x n \<Longrightarrow> py_int x = Inr n"
  by (cases x) auto

lemma eq_str_iff: "eq_str x t \<longleftrightarrow> x = JStr t"
  by (cases x) auto

text \<open>\<open>d.get(k)\<close>: a missing key and an explicit null are the same value.\<close>

definition dict_get :: "dict \<Rightarrow> string \<Rightarrow> json" where
  "dict_get d k = (case map_of d k of None \<Rightarrow> JNull | Some v \<Rightarrow> v)"

definition dict_get_or :: "dict \<Rightarrow> string \<Rightarrow> json \<Rightarrow> json" where
  "dict_get_or d k v0 = (case map_of d k of None \<Rightarrow> v0 | Some v \<Rightarrow> v)"

text \<open>
  A Python dictionary, and a SQLite table with a text primary key, is an association list in
  insertion order: \<^const>\<open>AList.update\<close> overwrites in place or appends.
\<close>

lemma map_of_update [simp]: "map_of (AList.update k v d) = (map_of d)(k \<mapsto> v)"
  by (simp add: update_conv')

lemma map_of_update_apply: "map_of (AList.update k v d) k' = (if k' = k then Some v else map_of d k')"
  by simp

lemma keys_update: "map fst (AList.update k v d) =
    (if k \<in> fst ` set d then map fst d else map fst d @ [k])"
  by (simp add: update_keys)

lemma distinct_keys_update [simp]:
  "distinct (map fst d) \<Longrightarrow> distinct (map fst (AList.update k v d))"
  by (rule distinct_update)

lemma update_same [simp]: "map_of d k = Some v \<Longrightarrow> distinct (map fst d) \<Longrightarrow> AList.update k v d = d"
proof (induction d)
  case (Cons p d)
  then show ?case by (cases p) (auto dest: map_of_SomeD)
qed simp

lemma update_twice [simp]: "AList.update k v (AList.update k w d) = AList.update k v d"
  by (induction d) auto

lemma map_of_None_update: "map_of d k = None \<Longrightarrow> AList.update k v d = d @ [(k, v)]"
  by (induction d) (auto split: if_splits)

lemma in_values_map_of:
  "distinct (map fst d) \<Longrightarrow> v \<in> set (map snd d) \<longleftrightarrow> (\<exists>k. map_of d k = Some v)"
  by (force simp: map_of_eq_Some_iff image_iff)

lemma set_values_update:
  "set (map snd (AList.update k v d)) \<subseteq> insert v (set (map snd d))"
  by (induction d) auto

text \<open>A dictionary stored row by row: \<open>f\<close> turns a value into its row.\<close>

definition map_values :: "('v \<Rightarrow> 'w) \<Rightarrow> ('k \<times> 'v) list \<Rightarrow> ('k \<times> 'w) list" where
  "map_values f d = map (\<lambda>(k, v). (k, f v)) d"

lemma map_values_simps [simp]:
  "map_values f [] = []" "map_values f ((k, v) # d) = (k, f v) # map_values f d"
  "map fst (map_values f d) = map fst d" "map snd (map_values f d) = map f (map snd d)"
  by (simp_all add: map_values_def split_def)

lemma map_of_map_values [simp]: "map_of (map_values f d) k = map_option f (map_of d k)"
  by (induction d) (auto simp: map_values_def)

lemma update_map_values: "AList.update k (f v) (map_values f d) = map_values f (AList.update k v d)"
  by (induction d) auto

text \<open>A query sorts rows; the model speaks of the values they represent.\<close>

lemma sort_key_map: "sort_key f (map g xs) = map g (sort_key (f \<circ> g) xs)"
proof (induction xs)
  case (Cons x xs)
  have "insort_key f (g x) (map g ys) = map g (insort_key (f \<circ> g) x ys)" for ys
    by (induction ys) simp_all
  with Cons show ?case by (simp add: comp_def)
qed simp

section \<open>Outcomes outside the state\<close>

text \<open>Sequencing and traversal of outcomes that need no state.\<close>

definition bindR :: "exc + 'a \<Rightarrow> ('a \<Rightarrow> exc + 'b) \<Rightarrow> exc + 'b" where
  "bindR r k = (case r of Inl e \<Rightarrow> Inl e | Inr x \<Rightarrow> k x)"

lemma bindR_simps [simp]: "bindR (Inl e) k = Inl e" "bindR (Inr x) k = k x"
  by (simp_all add: bindR_def)

lemma bindR_cong [fundef_cong]:
  "r = r' \<Longrightarrow> (\<And>x. r' = Inr x \<Longrightarrow> k x = k' x) \<Longrightarrow> bindR r k = bindR r' k'"
  by (cases r') simp_all

lemma bindR_Inr_iff: "bindR r k = Inr y \<longleftrightarrow> (\<exists>x. r = Inr x \<and> k x = Inr y)"
  by (cases r) simp_all

primrec foldR :: "('a \<Rightarrow> 'b \<Rightarrow> exc + 'b) \<Rightarrow> 'a list \<Rightarrow> 'b \<Rightarrow> exc + 'b" where
  "foldR f [] acc = Inr acc"
| "foldR f (x # xs) acc = bindR (f x acc) (foldR f xs)"

text \<open>\<^verbatim>\<open>[f(x) for x in xs]\<close>: the first exception ends it.\<close>

primrec mapR :: "('a \<Rightarrow> exc + 'b) \<Rightarrow> 'a list \<Rightarrow> exc + 'b list" where
  "mapR f [] = Inr []"
| "mapR f (x # xs) = bindR (f x) (\<lambda>y. bindR (mapR f xs) (\<lambda>ys. Inr (y # ys)))"

lemma mapR_Inr: "(\<And>x. x \<in> set xs \<Longrightarrow> f x = Inr (g x)) \<Longrightarrow> mapR f xs = Inr (map g xs)"
  by (induction xs) simp_all

lemma foldR_append: "foldR f (xs @ ys) acc = bindR (foldR f xs acc) (foldR f ys)"
  by (induction xs arbitrary: acc) (auto simp: bindR_def split: sum.splits)

section \<open>The state and exception monad\<close>

text \<open>
  A computation takes the state and returns an outcome and the state it leaves. The state
  survives an exception, as Python objects do: a statement that ran before a \<open>raise\<close> has
  had its effect.
\<close>

type_synonym ('s, 'a) py = "'s \<Rightarrow> (exc + 'a) \<times> 's"

definition ret :: "'a \<Rightarrow> ('s, 'a) py" where
  "ret x = (\<lambda>s. (Inr x, s))"

definition raise :: "exc \<Rightarrow> ('s, 'a) py" where
  "raise e = (\<lambda>s. (Inl e, s))"

definition bindE :: "('s, 'a) py \<Rightarrow> ('a \<Rightarrow> ('s, 'b) py) \<Rightarrow> ('s, 'b) py" where
  "bindE m k = (\<lambda>s. case m s of (Inl e, s') \<Rightarrow> (Inl e, s') | (Inr x, s') \<Rightarrow> k x s')"

definition thenE :: "('s, 'a) py \<Rightarrow> ('s, 'b) py \<Rightarrow> ('s, 'b) py" where
  "thenE m k = bindE m (\<lambda>_. k)"

definition gets :: "('s \<Rightarrow> 'a) \<Rightarrow> ('s, 'a) py" where
  "gets f = (\<lambda>s. (Inr (f s), s))"

definition modify :: "('s \<Rightarrow> 's) \<Rightarrow> ('s, unit) py" where
  "modify f = (\<lambda>s. (Inr (), f s))"

definition raise_if :: "bool \<Rightarrow> exc \<Rightarrow> ('s, unit) py" where
  "raise_if b e = (if b then raise e else ret ())"

definition whenE :: "bool \<Rightarrow> ('s, unit) py \<Rightarrow> ('s, unit) py" where
  "whenE b m = (if b then m else ret ())"

text \<open>An outcome computed outside the state: \<open>exc + 'a\<close> lifted into the monad.\<close>

definition of_result :: "exc + 'a \<Rightarrow> ('s, 'a) py" where
  "of_result r = (\<lambda>s. (r, s))"

text \<open>\<^verbatim>\<open>d[k]\<close> with its \<open>KeyError\<close>.\<close>

definition of_option :: "exc \<Rightarrow> 'a option \<Rightarrow> ('s, 'a) py" where
  "of_option e x = (case x of None \<Rightarrow> raise e | Some v \<Rightarrow> ret v)"

text \<open>\<^verbatim>\<open>try: m except e: h(e)\<close>, and \<^verbatim>\<open>try: m finally: f\<close> where \<open>f\<close> raises nothing.\<close>

definition tryE :: "('s, 'a) py \<Rightarrow> (exc \<Rightarrow> ('s, 'a) py) \<Rightarrow> ('s, 'a) py" where
  "tryE m h = (\<lambda>s. case m s of (Inl e, s') \<Rightarrow> h e s' | (Inr x, s') \<Rightarrow> (Inr x, s'))"

definition finallyE :: "('s, 'a) py \<Rightarrow> ('s, 'b) py \<Rightarrow> ('s, 'a) py" where
  "finallyE m f = (\<lambda>s. case m s of (r, s') \<Rightarrow>
     (case f s' of (Inl e, s'') \<Rightarrow> (Inl e, s'') | (Inr _, s'') \<Rightarrow> (r, s'')))"

text \<open>
  \<^verbatim>\<open>try: m except Exception\<close> where the code goes on differently after the two outcomes: the
  outcome itself is returned.
\<close>

definition attempt :: "('s, 'a) py \<Rightarrow> ('s, exc + 'a) py" where
  "attempt m = (\<lambda>s. case m s of (r, s') \<Rightarrow> (Inr r, s'))"

text \<open>\<^verbatim>\<open>for x in xs: body(x)\<close>, and the comprehension that collects the results.\<close>

primrec forE :: "'x list \<Rightarrow> ('x \<Rightarrow> ('s, unit) py) \<Rightarrow> ('s, unit) py" where
  "forE [] f = ret ()"
| "forE (x # xs) f = thenE (f x) (forE xs f)"

primrec mapE :: "('x \<Rightarrow> ('s, 'a) py) \<Rightarrow> 'x list \<Rightarrow> ('s, 'a list) py" where
  "mapE f [] = ret []"
| "mapE f (x # xs) = bindE (f x) (\<lambda>y. bindE (mapE f xs) (\<lambda>ys. ret (y # ys)))"

lemmas py_defs = ret_def raise_def bindE_def thenE_def gets_def modify_def raise_if_def
  whenE_def of_result_def of_option_def tryE_def finallyE_def

lemma ret_bindE [simp]: "bindE (ret x) k = k x"
  by (simp add: py_defs)

lemma raise_bindE [simp]: "bindE (raise e) k = raise e"
  by (simp add: py_defs)

lemma bindE_ret [simp]: "bindE m ret = m"
  by (auto simp: py_defs split: prod.splits sum.splits)

lemma bindE_assoc: "bindE (bindE m k) l = bindE m (\<lambda>x. bindE (k x) l)"
  by (auto simp: py_defs fun_eq_iff split: prod.splits sum.splits)

lemma bindE_thenE: "bindE (thenE m k) l = thenE m (bindE k l)"
  by (simp add: thenE_def bindE_assoc)

lemma run_ret [py_simps]: "ret x s = (Inr x, s)"
  by (simp add: ret_def)

lemma run_raise [py_simps]: "raise e s = (Inl e, s)"
  by (simp add: raise_def)

lemma run_gets [py_simps]: "gets f s = (Inr (f s), s)"
  by (simp add: gets_def)

lemma run_modify [py_simps]: "modify f s = (Inr (), f s)"
  by (simp add: modify_def)

lemma run_bindE [py_simps]:
  "bindE m k s = (case m s of (Inl e, s') \<Rightarrow> (Inl e, s') | (Inr x, s') \<Rightarrow> k x s')"
  by (simp add: bindE_def)

lemma run_thenE [py_simps]:
  "thenE m k s = (case m s of (Inl e, s') \<Rightarrow> (Inl e, s') | (Inr x, s') \<Rightarrow> k s')"
  by (simp add: thenE_def bindE_def)

lemma run_raise_if [py_simps]: "raise_if b e s = (if b then (Inl e, s) else (Inr (), s))"
  by (simp add: raise_if_def ret_def raise_def)

lemma run_whenE [py_simps]: "whenE b m s = (if b then m s else (Inr (), s))"
  by (simp add: whenE_def ret_def)

lemma run_of_result [py_simps]: "of_result r s = (r, s)"
  by (simp add: of_result_def)

lemma run_of_option [py_simps]:
  "of_option e x s = (case x of None \<Rightarrow> (Inl e, s) | Some v \<Rightarrow> (Inr v, s))"
  by (simp add: of_option_def ret_def raise_def split: option.splits)

lemma run_tryE [py_simps]:
  "tryE m h s = (case m s of (Inl e, s') \<Rightarrow> h e s' | (Inr x, s') \<Rightarrow> (Inr x, s'))"
  by (simp add: tryE_def)

lemma run_finallyE [py_simps]:
  "finallyE m f s = (case m s of (r, s') \<Rightarrow>
     (case f s' of (Inl e, s'') \<Rightarrow> (Inl e, s'') | (Inr _, s'') \<Rightarrow> (r, s'')))"
  by (simp add: finallyE_def)

lemma run_attempt [py_simps]: "attempt m s = (case m s of (r, s') \<Rightarrow> (Inr r, s'))"
  by (simp add: attempt_def)

lemma bindE_InrE:
  assumes "bindE m k s = (Inr y, s')"
  obtains x s1 where "m s = (Inr x, s1)" "k x s1 = (Inr y, s')"
  using assms by (auto simp: bindE_def split: prod.splits sum.splits)

lemma thenE_InrE:
  assumes "thenE m k s = (Inr y, s')"
  obtains x s1 where "m s = (Inr x, s1)" "k s1 = (Inr y, s')"
  using assms unfolding thenE_def by (rule bindE_InrE)

section \<open>Hoare triples\<close>

text \<open>
  \<open>hoare P m Q E\<close>: from a state with \<open>P\<close>, a normal return satisfies \<open>Q\<close> and an
  exception satisfies \<open>E\<close>. Every computation of the model is a total function, so a triple
  speaks about every run.
\<close>

definition hoare ::
  "('s \<Rightarrow> bool) \<Rightarrow> ('s, 'a) py \<Rightarrow> ('a \<Rightarrow> 's \<Rightarrow> bool) \<Rightarrow> (exc \<Rightarrow> 's \<Rightarrow> bool) \<Rightarrow> bool" where
  "hoare P m Q E \<longleftrightarrow>
     (\<forall>s. P s \<longrightarrow> (case m s of (Inl e, s') \<Rightarrow> E e s' | (Inr x, s') \<Rightarrow> Q x s'))"

text \<open>A predicate that holds afterwards, whatever the outcome: an invariant of \<open>m\<close>.\<close>

definition keeps :: "('s \<Rightarrow> bool) \<Rightarrow> ('s, 'a) py \<Rightarrow> bool" where
  "keeps P m \<longleftrightarrow> (\<forall>s. P s \<longrightarrow> P (snd (m s)))"

lemma hoareI:
  assumes "\<And>s e s'. P s \<Longrightarrow> m s = (Inl e, s') \<Longrightarrow> E e s'"
    and "\<And>s x s'. P s \<Longrightarrow> m s = (Inr x, s') \<Longrightarrow> Q x s'"
  shows "hoare P m Q E"
  using assms by (auto simp: hoare_def split: prod.splits sum.splits)

lemma hoare_InrD: "hoare P m Q E \<Longrightarrow> P s \<Longrightarrow> m s = (Inr x, s') \<Longrightarrow> Q x s'"
  unfolding hoare_def by (drule spec[where x = s]) simp

lemma hoare_InlD: "hoare P m Q E \<Longrightarrow> P s \<Longrightarrow> m s = (Inl e, s') \<Longrightarrow> E e s'"
  unfolding hoare_def by (drule spec[where x = s]) simp

lemma keeps_hoare: "keeps P m \<longleftrightarrow> hoare P m (\<lambda>_. P) (\<lambda>_. P)"
  by (auto simp: keeps_def hoare_def split: prod.splits sum.splits)
     (metis old.sum.exhaust snd_conv surj_pair)+

lemma keepsI: "(\<And>s. P s \<Longrightarrow> P (snd (m s))) \<Longrightarrow> keeps P m"
  by (simp add: keeps_def)

lemma keepsD: "keeps P m \<Longrightarrow> P s \<Longrightarrow> P (snd (m s))"
  by (simp add: keeps_def)

lemma keepsE: "keeps P m \<Longrightarrow> m s = (r, s') \<Longrightarrow> P s \<Longrightarrow> P s'"
  by (auto dest: keepsD)

lemma keeps_ret [wp]: "keeps P (ret x)"
  by (simp add: keeps_def py_simps)

lemma keeps_raise [wp]: "keeps P (raise e)"
  by (simp add: keeps_def py_simps)

lemma keeps_gets [wp]: "keeps P (gets f)"
  by (simp add: keeps_def py_simps)

lemma keeps_of_result [wp]: "keeps P (of_result r)"
  by (simp add: keeps_def py_simps)

lemma keeps_of_option [wp]: "keeps P (of_option e x)"
  by (simp add: keeps_def py_simps split: option.splits)

lemma keeps_raise_if [wp]: "keeps P (raise_if b e)"
  by (simp add: keeps_def py_simps)

lemma keeps_bindE [wp]: "keeps P m \<Longrightarrow> (\<And>x. keeps P (k x)) \<Longrightarrow> keeps P (bindE m k)"
  unfolding keeps_def bindE_def
  by (auto split: prod.splits sum.splits)

lemma keeps_thenE [wp]: "keeps P m \<Longrightarrow> keeps P k \<Longrightarrow> keeps P (thenE m k)"
  unfolding thenE_def by (rule keeps_bindE)

lemma keeps_whenE [wp]: "keeps P m \<Longrightarrow> keeps P (whenE b m)"
  by (simp add: keeps_def whenE_def ret_def)

lemma keeps_tryE [wp]: "keeps P m \<Longrightarrow> (\<And>e. keeps P (h e)) \<Longrightarrow> keeps P (tryE m h)"
  unfolding keeps_def tryE_def
  by (auto split: prod.splits sum.splits)

lemma keeps_finallyE [wp]: "keeps P m \<Longrightarrow> keeps P f \<Longrightarrow> keeps P (finallyE m f)"
  unfolding keeps_def finallyE_def
  by (auto split: prod.splits sum.splits)

lemma keeps_attempt [wp]: "keeps P m \<Longrightarrow> keeps P (attempt m)"
  unfolding keeps_def attempt_def by (auto split: prod.splits)

lemma keeps_sum [wp]:
  "(\<And>e. keeps P (h e)) \<Longrightarrow> (\<And>x. keeps P (k x)) \<Longrightarrow> keeps P (case r of Inl e \<Rightarrow> h e | Inr x \<Rightarrow> k x)"
  by (cases r) simp_all

lemma keeps_forE [wp]: "(\<And>x. keeps P (f x)) \<Longrightarrow> keeps P (forE xs f)"
  by (induction xs) (simp_all add: keeps_ret keeps_thenE)

lemma keeps_mapE [wp]: "(\<And>x. keeps P (f x)) \<Longrightarrow> keeps P (mapE f xs)"
  by (induction xs) (simp_all add: keeps_ret keeps_bindE)

lemma keeps_if [wp]: "keeps P m \<Longrightarrow> keeps P n \<Longrightarrow> keeps P (if b then m else n)"
  by simp

lemma keeps_option [wp]:
  "keeps P m \<Longrightarrow> (\<And>x. keeps P (k x)) \<Longrightarrow> keeps P (case v of None \<Rightarrow> m | Some x \<Rightarrow> k x)"
  by (cases v) simp_all

lemma keeps_prod [wp]: "(\<And>x y. keeps P (k x y)) \<Longrightarrow> keeps P (case v of (x, y) \<Rightarrow> k x y)"
  by (cases v) simp

section \<open>Identifiers and the clock\<close>

text \<open>
  \<open>new_id\<close> draws sixteen hexadecimal digits of a fresh \<open>uuid4\<close> and \<open>now\<close> reads the
  clock. The \<open>n\<close>-th draw and the \<open>n\<close>-th reading of a run are given by two supplies of
  the state, of which nothing is assumed here; a property that needs the draws to be distinct
  says so.
\<close>

record host_st =
  hex_supply :: "nat \<Rightarrow> string"
  clock_supply :: "nat \<Rightarrow> pyfloat"
  ids_drawn :: nat
  clock_reads :: nat

definition new_id :: "string \<Rightarrow> ('z host_st_scheme, string) py" where
  "new_id prefix = (\<lambda>s. (Inr (prefix @ ''_'' @ hex_supply s (ids_drawn s)),
     s\<lparr>ids_drawn := Suc (ids_drawn s)\<rparr>))"

definition now :: "('z host_st_scheme, pyfloat) py" where
  "now = (\<lambda>s. (Inr (clock_supply s (clock_reads s)), s\<lparr>clock_reads := Suc (clock_reads s)\<rparr>))"

text \<open>\<^verbatim>\<open>now() if now_ts is None else now_ts\<close>\<close>

definition resolve_ts :: "pyfloat option \<Rightarrow> ('z host_st_scheme, pyfloat) py" where
  "resolve_ts now_ts = (case now_ts of None \<Rightarrow> now | Some ts \<Rightarrow> ret ts)"

lemma run_new_id [py_simps]:
  "new_id p s = (Inr (p @ ''_'' @ hex_supply s (ids_drawn s)),
     s\<lparr>ids_drawn := Suc (ids_drawn s)\<rparr>)"
  by (simp add: new_id_def)

lemma run_now [py_simps]:
  "now s = (Inr (clock_supply s (clock_reads s)), s\<lparr>clock_reads := Suc (clock_reads s)\<rparr>)"
  by (simp add: now_def)

lemma run_resolve_ts_Some [py_simps]: "resolve_ts (Some ts) s = (Inr ts, s)"
  by (simp add: resolve_ts_def ret_def)

lemma run_resolve_ts_None [py_simps]: "resolve_ts None s = now s"
  by (simp add: resolve_ts_def)

end
