(* ===== verification/Models.thy ===== *)
theory Models
  imports Prelude "HOL-Library.FSet"
begin

text \<open>
  The data model, \<^verbatim>\<open>src/liandanlu_native/models.py\<close>: the enumerations with the text
  values they have in the database, the dataclasses as records and their methods. A prefix per
  class keeps the field names apart (\<open>tk_\<close> for Task, \<open>op_\<close> for Operation, \<open>ev_\<close>
  for Event, and so on); the rest of each name is the source's. A frozenset is an \<^verbatim>\<open>fset\<close>,
  a tuple of strings a \<^typ>\<open>string list\<close>.

  The lemmas show that every enumeration survives the trip through its text value, that
  \<open>bump\<close> moves one domain and the global revision by one and nothing else, and when a
  budget lets another operation start.
\<close>

section \<open>Enumerations\<close>

datatype task_state =
  TS_CREATED | TS_QUEUED | TS_RUNNING | TS_WAITING | TS_PAUSING | TS_PAUSED | TS_CANCELLING
| TS_BLOCKED | TS_COMPLETED | TS_FAILED | TS_CANCELLED

datatype task_phase =
  TP_OBSERVING | TP_THINKING | TP_AUTHORIZING | TP_EXECUTING | TP_VERIFYING | TP_REPLANNING

datatype operation_state =
  OS_PROPOSED | OS_AUTHORIZED | OS_PREPARED | OS_RUNNING | OS_OBSERVED | OS_VERIFYING
| OS_VERIFIED | OS_FAILED | OS_UNKNOWN | OS_RECONCILING | OS_BLOCKED | OS_CANCELLED

datatype risk_class = RC_READ | RC_REVERSIBLE | RC_MUTATING | RC_EXTERNAL | RC_DESTRUCTIVE

fun task_state_value :: "task_state \<Rightarrow> string" where
  "task_state_value TS_CREATED = ''CREATED''"
| "task_state_value TS_QUEUED = ''QUEUED''"
| "task_state_value TS_RUNNING = ''RUNNING''"
| "task_state_value TS_WAITING = ''WAITING''"
| "task_state_value TS_PAUSING = ''PAUSING''"
| "task_state_value TS_PAUSED = ''PAUSED''"
| "task_state_value TS_CANCELLING = ''CANCELLING''"
| "task_state_value TS_BLOCKED = ''BLOCKED''"
| "task_state_value TS_COMPLETED = ''COMPLETED''"
| "task_state_value TS_FAILED = ''FAILED''"
| "task_state_value TS_CANCELLED = ''CANCELLED''"

fun task_phase_value :: "task_phase \<Rightarrow> string" where
  "task_phase_value TP_OBSERVING = ''OBSERVING''"
| "task_phase_value TP_THINKING = ''THINKING''"
| "task_phase_value TP_AUTHORIZING = ''AUTHORIZING''"
| "task_phase_value TP_EXECUTING = ''EXECUTING''"
| "task_phase_value TP_VERIFYING = ''VERIFYING''"
| "task_phase_value TP_REPLANNING = ''REPLANNING''"

fun operation_state_value :: "operation_state \<Rightarrow> string" where
  "operation_state_value OS_PROPOSED = ''PROPOSED''"
| "operation_state_value OS_AUTHORIZED = ''AUTHORIZED''"
| "operation_state_value OS_PREPARED = ''PREPARED''"
| "operation_state_value OS_RUNNING = ''RUNNING''"
| "operation_state_value OS_OBSERVED = ''OBSERVED''"
| "operation_state_value OS_VERIFYING = ''VERIFYING''"
| "operation_state_value OS_VERIFIED = ''VERIFIED''"
| "operation_state_value OS_FAILED = ''FAILED''"
| "operation_state_value OS_UNKNOWN = ''UNKNOWN''"
| "operation_state_value OS_RECONCILING = ''RECONCILING''"
| "operation_state_value OS_BLOCKED = ''BLOCKED''"
| "operation_state_value OS_CANCELLED = ''CANCELLED''"

fun risk_class_value :: "risk_class \<Rightarrow> string" where
  "risk_class_value RC_READ = ''READ''"
| "risk_class_value RC_REVERSIBLE = ''REVERSIBLE''"
| "risk_class_value RC_MUTATING = ''MUTATING''"
| "risk_class_value RC_EXTERNAL = ''EXTERNAL''"
| "risk_class_value RC_DESTRUCTIVE = ''DESTRUCTIVE''"

definition task_states :: "task_state list" where
  "task_states = [TS_CREATED, TS_QUEUED, TS_RUNNING, TS_WAITING, TS_PAUSING, TS_PAUSED,
     TS_CANCELLING, TS_BLOCKED, TS_COMPLETED, TS_FAILED, TS_CANCELLED]"

definition task_phases :: "task_phase list" where
  "task_phases = [TP_OBSERVING, TP_THINKING, TP_AUTHORIZING, TP_EXECUTING, TP_VERIFYING,
     TP_REPLANNING]"

definition operation_states :: "operation_state list" where
  "operation_states = [OS_PROPOSED, OS_AUTHORIZED, OS_PREPARED, OS_RUNNING, OS_OBSERVED,
     OS_VERIFYING, OS_VERIFIED, OS_FAILED, OS_UNKNOWN, OS_RECONCILING, OS_BLOCKED, OS_CANCELLED]"

definition risk_classes :: "risk_class list" where
  "risk_classes = [RC_READ, RC_REVERSIBLE, RC_MUTATING, RC_EXTERNAL, RC_DESTRUCTIVE]"

text \<open>Calling an enumeration class on a value: the member with that value, or \<open>ValueError\<close>.\<close>

definition enum_of :: "string \<Rightarrow> ('a \<Rightarrow> string) \<Rightarrow> 'a list \<Rightarrow> string \<Rightarrow> exc + 'a" where
  "enum_of cls val members t =
     (case find (\<lambda>x. val x = t) members of
        None \<Rightarrow> Inl (ValueError (quoted t @ '' is not a valid '' @ cls))
      | Some x \<Rightarrow> Inr x)"

definition task_state_of :: "string \<Rightarrow> exc + task_state" where
  "task_state_of = enum_of ''TaskState'' task_state_value task_states"

definition task_phase_of :: "string \<Rightarrow> exc + task_phase" where
  "task_phase_of = enum_of ''TaskPhase'' task_phase_value task_phases"

definition operation_state_of :: "string \<Rightarrow> exc + operation_state" where
  "operation_state_of = enum_of ''OperationState'' operation_state_value operation_states"

definition risk_class_of :: "string \<Rightarrow> exc + risk_class" where
  "risk_class_of = enum_of ''RiskClass'' risk_class_value risk_classes"

lemma enum_of_Inr: "enum_of cls val members t = Inr x \<Longrightarrow> x \<in> set members \<and> val x = t"
  by (auto simp: enum_of_def find_Some_iff split: option.splits)

lemma task_state_roundtrip [simp]: "task_state_of (task_state_value x) = Inr x"
  by (cases x) (simp_all add: task_state_of_def enum_of_def task_states_def)

lemma task_phase_roundtrip [simp]: "task_phase_of (task_phase_value x) = Inr x"
  by (cases x) (simp_all add: task_phase_of_def enum_of_def task_phases_def)

lemma operation_state_roundtrip [simp]: "operation_state_of (operation_state_value x) = Inr x"
  by (cases x) (simp_all add: operation_state_of_def enum_of_def operation_states_def)

lemma risk_class_roundtrip [simp]: "risk_class_of (risk_class_value x) = Inr x"
  by (cases x) (simp_all add: risk_class_of_def enum_of_def risk_classes_def)

section \<open>World revisions\<close>

record world_revisions =
  global_revision :: int
  desktop :: int
  rev_workspace :: int
  browser :: int
  media :: int
  rev_tasks :: int

definition initial_revisions :: world_revisions where
  "initial_revisions = \<lparr>global_revision = 0, desktop = 0, rev_workspace = 0, browser = 0,
     media = 0, rev_tasks = 0\<rparr>"

text \<open>
  \<open>hasattr\<close> and \<open>getattr\<close> by field name: \<open>None\<close> is \<open>hasattr\<close> false. The class's
  methods are attributes too; a domain is taken to be a field name or no attribute.
\<close>

definition rev_attr :: "world_revisions \<Rightarrow> string \<Rightarrow> int option" where
  "rev_attr r domain =
     (if domain = ''global_revision'' then Some (global_revision r)
      else if domain = ''desktop'' then Some (desktop r)
      else if domain = ''workspace'' then Some (rev_workspace r)
      else if domain = ''browser'' then Some (browser r)
      else if domain = ''media'' then Some (media r)
      else if domain = ''tasks'' then Some (rev_tasks r)
      else None)"

definition rev_setattr :: "world_revisions \<Rightarrow> string \<Rightarrow> int \<Rightarrow> world_revisions" where
  "rev_setattr r domain v =
     (if domain = ''global_revision'' then r\<lparr>global_revision := v\<rparr>
      else if domain = ''desktop'' then r\<lparr>desktop := v\<rparr>
      else if domain = ''workspace'' then r\<lparr>rev_workspace := v\<rparr>
      else if domain = ''browser'' then r\<lparr>browser := v\<rparr>
      else if domain = ''media'' then r\<lparr>media := v\<rparr>
      else if domain = ''tasks'' then r\<lparr>rev_tasks := v\<rparr>
      else r)"

definition bump :: "world_revisions \<Rightarrow> string \<Rightarrow> exc + world_revisions" where
  "bump r domain =
     (if domain = ''global_revision'' then Inl (KeyError domain)
      else case rev_attr r domain of
        None \<Rightarrow> Inl (KeyError domain)
      | Some v \<Rightarrow>
          (let r' = rev_setattr r domain (v + 1)
           in Inr (r'\<lparr>global_revision := global_revision r' + 1\<rparr>)))"

lemma rev_attr_setattr [simp]:
  "rev_attr r domain \<noteq> None \<Longrightarrow>
   rev_attr (rev_setattr r domain v) d = (if d = domain then Some v else rev_attr r d)"
  by (auto simp: rev_attr_def rev_setattr_def split: if_splits)

lemma rev_attr_global: "rev_attr r ''global_revision'' = Some (global_revision r)"
  by (simp add: rev_attr_def)

lemma rev_attr_global_upd:
  "rev_attr (r\<lparr>global_revision := g\<rparr>) d =
     (if d = ''global_revision'' then Some g else rev_attr r d)"
  by (simp add: rev_attr_def)

lemma global_setattr: "domain \<noteq> ''global_revision'' \<Longrightarrow>
    global_revision (rev_setattr r domain v) = global_revision r"
  by (simp add: rev_setattr_def)

lemma bump_attr:
  "bump r domain = Inr r' \<Longrightarrow>
   rev_attr r' d =
     (if d = domain \<or> d = ''global_revision'' then map_option (\<lambda>v. v + 1) (rev_attr r d)
      else rev_attr r d)"
  by (auto simp: bump_def Let_def rev_attr_global_upd rev_attr_global global_setattr
      split: if_splits option.splits)

lemma bump_tasks: "bump r ''tasks'' =
    Inr (r\<lparr>rev_tasks := rev_tasks r + 1, global_revision := global_revision r + 1\<rparr>)"
  by (simp add: bump_def rev_attr_def rev_setattr_def)

lemma bump_error: "bump r domain = Inl e \<longleftrightarrow>
    e = KeyError domain \<and> (domain = ''global_revision'' \<or> rev_attr r domain = None)"
  by (auto simp: bump_def Let_def split: option.splits)

section \<open>Budgets and leases\<close>

record task_budget =
  max_operations :: int
  operations_started :: int
  deadline_at :: "pyfloat option"

definition default_budget :: task_budget where
  "default_budget = \<lparr>max_operations = 64, operations_started = 0, deadline_at = None\<rparr>"

definition block_reason :: "task_budget \<Rightarrow> pyfloat \<Rightarrow> string option" where
  "block_reason b at_ts =
     (if max_operations b \<ge> 0 \<and> operations_started b \<ge> max_operations b
      then Some ''max_operations''
      else case deadline_at b of
        None \<Rightarrow> None
      | Some dl \<Rightarrow> if at_ts \<ge> dl then Some ''deadline'' else None)"

record task_lease =
  tl_task_id :: string
  tl_owner_id :: string
  tl_generation :: int
  tl_claimed_at :: pyfloat
  tl_lease_until :: pyfloat

record resource_request =
  rq_cpu_units :: int
  rq_memory_mb :: int
  rq_gpu_units :: int
  rq_exclusive_labels :: "string list"

text \<open>The constructors check their fields in \<open>__post_init__\<close>.\<close>

definition resource_request_init ::
  "int \<Rightarrow> int \<Rightarrow> int \<Rightarrow> string list \<Rightarrow> exc + resource_request" where
  "resource_request_init cpu mem gpu labels =
     (if cpu < 0 \<or> mem < 0 \<or> gpu < 0
      then Inl (ValueError ''resource requests cannot be negative'')
      else Inr \<lparr>rq_cpu_units = cpu, rq_memory_mb = mem, rq_gpu_units = gpu,
                rq_exclusive_labels = labels\<rparr>)"

definition request_ok :: "resource_request \<Rightarrow> bool" where
  "request_ok r \<longleftrightarrow> 0 \<le> rq_cpu_units r \<and> 0 \<le> rq_memory_mb r \<and> 0 \<le> rq_gpu_units r"

definition request_empty :: "resource_request \<Rightarrow> bool" where
  "request_empty r \<longleftrightarrow> rq_cpu_units r = 0 \<and> rq_memory_mb r = 0 \<and> rq_gpu_units r = 0
     \<and> rq_exclusive_labels r = []"

definition empty_request :: resource_request where
  "empty_request = \<lparr>rq_cpu_units = 0, rq_memory_mb = 0, rq_gpu_units = 0,
     rq_exclusive_labels = []\<rparr>"

record resource_capacity =
  rc_cpu_units :: int
  rc_memory_mb :: int
  rc_gpu_units :: int

definition resource_capacity_init :: "int \<Rightarrow> int \<Rightarrow> int \<Rightarrow> exc + resource_capacity" where
  "resource_capacity_init cpu mem gpu =
     (if cpu < 0 \<or> mem < 0 \<or> gpu < 0
      then Inl (ValueError ''resource capacity cannot be negative'')
      else Inr \<lparr>rc_cpu_units = cpu, rc_memory_mb = mem, rc_gpu_units = gpu\<rparr>)"

record resource_lease =
  rl_task_id :: string
  rl_owner_id :: string
  rl_generation :: int
  rl_request :: resource_request
  rl_claimed_at :: pyfloat
  rl_lease_until :: pyfloat

lemma resource_request_init_ok: "resource_request_init c m g ls = Inr r \<Longrightarrow> request_ok r"
  by (auto simp: resource_request_init_def request_ok_def split: if_splits)

lemma request_empty_iff: "request_empty r \<longleftrightarrow> r = empty_request"
  by (cases r) (auto simp: request_empty_def empty_request_def)

lemma block_reason_None_bound:
  "block_reason b at_ts = None \<Longrightarrow> 0 \<le> max_operations b \<Longrightarrow>
   operations_started b < max_operations b"
  by (auto simp: block_reason_def split: if_splits)

lemma block_reason_None_deadline:
  "block_reason b at_ts = None \<Longrightarrow> deadline_at b = Some dl \<Longrightarrow> at_ts < dl"
  by (auto simp: block_reason_def split: if_splits)

section \<open>Entities, tasks, operations, events\<close>

record entity =
  en_entity_id :: string
  en_entity_type :: string
  en_workspace_id :: string
  en_locator :: string
  en_version :: int
  en_status :: string
  en_metadata :: dict
  en_permissions :: "string fset"

record task =
  tk_task_id :: string
  tk_workspace_id :: string
  tk_goal :: string
  tk_success_criteria :: "string list"
  tk_constraints :: "string list"
  tk_state :: task_state
  tk_desired_state :: task_state
  tk_phase :: task_phase
  tk_priority :: int
  tk_lane :: string
  tk_queued_at :: "pyfloat option"
  tk_wait_reason :: "string option"
  tk_budget :: task_budget
  tk_revision :: int

record operation =
  op_operation_id :: string
  op_task_id :: string
  op_workspace_id :: string
  op_capability :: string
  op_action :: string
  op_object_refs :: "string list"
  op_arguments :: dict
  op_risk_class :: risk_class
  op_required_permission :: string
  op_idempotency_mode :: string
  op_state :: operation_state
  op_expected_revisions :: "(string \<times> int) list"
  op_evidence :: "dict list"
  op_result :: "dict option"
  op_error :: "string option"
  op_task_lease_owner_id :: "string option"
  op_task_lease_generation :: "int option"
  op_resource_lease_owner_id :: "string option"
  op_resource_lease_generation :: "int option"

record event =
  ev_sequence :: int
  ev_event_id :: string
  ev_workspace_id :: string
  ev_event_type :: string
  ev_actor :: string
  ev_task_id :: "string option"
  ev_operation_id :: "string option"
  ev_object_refs :: "string list"
  ev_payload :: dict
  ev_causation_id :: "string option"
  ev_correlation_id :: "string option"
  ev_occurred_at :: pyfloat
  ev_observed_at :: pyfloat
  ev_learning_allowed :: bool

record action_proposal =
  ap_proposal_id :: string
  ap_capability :: string
  ap_action :: string
  ap_object_refs :: "string list"
  ap_arguments :: dict
  ap_expected_outcome :: string
  ap_confidence :: pyfloat

record goal_claim =
  gc_criterion :: string
  gc_passed :: bool
  gc_evidence_refs :: "string list"

text \<open>The states from which \<open>queue\<close> and \<open>control\<close> refuse to move a task.\<close>

definition terminal :: "task_state \<Rightarrow> bool" where
  "terminal st \<longleftrightarrow> st \<in> {TS_COMPLETED, TS_FAILED, TS_CANCELLED}"

end
