(* ===== verification/Store_Tables.thy ===== *)
theory Store_Tables
  imports Models
begin

text \<open>
  The tables of the SQLite store (\<^verbatim>\<open>src/liandanlu_native/storage.py\<close>) and the row
  operations on tasks, operations and the world. A table with a text primary key is an
  association list in rowid order, so that \<open>INSERT \<dots> ON CONFLICT DO UPDATE\<close> is an update in
  place or an append and \<open>SELECT *\<close> reads in that order. A column of JSON text holds the
  value the text denotes; an enumeration column holds the text and is parsed when a row is
  read. Every method runs in one transaction on one connection, so a method is one atomic step
  and a failed one leaves the tables as they were.

  The lemmas show that loading gives back what was saved: tasks and operations as an
  interpretation of the interface \<open>row_store\<close>, the world as an equation on the loaded
  world.
\<close>

section \<open>Rows and tables\<close>

record task_row =
  tr_task_id :: string
  tr_workspace_id :: string
  tr_goal :: string
  tr_success_criteria_json :: "string list"
  tr_constraints_json :: "string list"
  tr_state :: string
  tr_desired_state :: string
  tr_phase :: string
  tr_priority :: int
  tr_lane :: string
  tr_queued_at :: "pyfloat option"
  tr_wait_reason :: "string option"
  tr_budget_json :: dict
  tr_revision :: int

record operation_row =
  or_operation_id :: string
  or_task_id :: string
  or_workspace_id :: string
  or_capability :: string
  or_action :: string
  or_object_refs_json :: "string list"
  or_arguments_json :: dict
  or_risk_class :: string
  or_required_permission :: string
  or_idempotency_mode :: string
  or_state :: string
  or_expected_revisions_json :: "(string \<times> int) list"
  or_evidence_json :: "dict list"
  or_result_json :: "dict option"
  or_error :: "string option"
  or_task_lease_owner_id :: "string option"
  or_task_lease_generation :: "int option"
  or_resource_lease_owner_id :: "string option"
  or_resource_lease_generation :: "int option"

record entity_row =
  wr_entity_id :: string
  wr_entity_type :: string
  wr_workspace_id :: string
  wr_locator :: string
  wr_version :: int
  wr_status :: string
  wr_metadata_json :: dict
  wr_permissions_json :: "string list"

record outbox_row =
  ob_outbox_id :: int
  ob_event_id :: "string option"
  ob_workspace_id :: string
  ob_event_type :: string
  ob_actor :: string
  ob_task_id :: "string option"
  ob_operation_id :: "string option"
  ob_object_refs_json :: "string list"
  ob_payload_json :: dict
  ob_causation_id :: "string option"
  ob_correlation_id :: "string option"
  ob_occurred_at :: pyfloat
  ob_learning_allowed :: int
  ob_dispatched :: int

record event_row =
  er_sequence :: int
  er_event_id :: string
  er_workspace_id :: string
  er_event_type :: string
  er_actor :: string
  er_task_id :: "string option"
  er_operation_id :: "string option"
  er_object_refs_json :: "string list"
  er_payload_json :: dict
  er_causation_id :: "string option"
  er_correlation_id :: "string option"
  er_occurred_at :: pyfloat
  er_observed_at :: pyfloat
  er_learning_allowed :: int

record receipt_row =
  rr_sequence :: int
  rr_status :: string
  rr_result_ref :: "string option"

record memory_row =
  mr_memory_id :: string
  mr_workspace_id :: string
  mr_kind :: string
  mr_key :: string
  mr_value_json :: json
  mr_scope :: string
  mr_source_event_ids_json :: "string list"
  mr_confidence :: pyfloat
  mr_revision :: int
  mr_supersedes :: "string option"
  mr_strategy_state :: "string option"
  mr_support_count :: int
  mr_support_event_ids_json :: "string list"

text \<open>
  The columns of \<open>task_leases\<close> and \<open>resource_leases\<close> are the fields of the lease
  classes, so the rows are the records themselves. \<open>outbox_seq\<close> and \<open>events_seq\<close> are
  the last values the two AUTOINCREMENT keys have used.
\<close>

record db =
  tasks_tbl :: "(string \<times> task_row) list"
  operations_tbl :: "(string \<times> operation_row) list"
  entities_tbl :: "(string \<times> entity_row) list"
  relations_tbl :: "(string \<times> string \<times> string) list"
  revisions_tbl :: "world_revisions option"
  workspace_revisions_tbl :: "(string \<times> int) list"
  task_leases_tbl :: "(string \<times> task_lease) list"
  resource_leases_tbl :: "(string \<times> resource_lease) list"
  outbox_tbl :: "outbox_row list"
  outbox_seq :: int
  events_tbl :: "event_row list"
  events_seq :: int
  cursors_tbl :: "(string \<times> int) list"
  receipts_tbl :: "((string \<times> string) \<times> receipt_row) list"
  memory_tbl :: "(string \<times> memory_row) list"

definition empty_db :: db where
  "empty_db = \<lparr>tasks_tbl = [], operations_tbl = [], entities_tbl = [], relations_tbl = [],
     revisions_tbl = None, workspace_revisions_tbl = [], task_leases_tbl = [],
     resource_leases_tbl = [], outbox_tbl = [], outbox_seq = 0, events_tbl = [], events_seq = 0,
     cursors_tbl = [], receipts_tbl = [], memory_tbl = []\<rparr>"

record store_st = host_st +
  db :: db

text \<open>One transaction that changes the tables.\<close>

definition commit_db :: "(db \<Rightarrow> db) \<Rightarrow> ('z store_st_scheme, unit) py" where
  "commit_db f = modify (\<lambda>s. s\<lparr>db := f (db s)\<rparr>)"

lemma run_commit_db [py_simps]: "commit_db f s = (Inr (), s\<lparr>db := f (db s)\<rparr>)"
  by (simp add: commit_db_def py_simps)

text \<open>One transaction that also returns a value.\<close>

definition transaction :: "(db \<Rightarrow> 'a \<times> db) \<Rightarrow> ('z store_st_scheme, 'a) py" where
  "transaction f = (\<lambda>s. case f (db s) of (r, d) \<Rightarrow> (Inr r, s\<lparr>db := d\<rparr>))"

lemma run_transaction [py_simps]:
  "transaction f s = (case f (db s) of (r, d) \<Rightarrow> (Inr r, s\<lparr>db := d\<rparr>))"
  by (simp add: transaction_def)

section \<open>Tasks\<close>

definition budget_to_json :: "task_budget \<Rightarrow> dict" where
  "budget_to_json b = [(''max_operations'', JInt (max_operations b)),
     (''operations_started'', JInt (operations_started b)),
     (''deadline_at'', case deadline_at b of None \<Rightarrow> JNull | Some q \<Rightarrow> JFloat q)]"

definition task_to_row :: "task \<Rightarrow> task_row" where
  "task_to_row t =
     \<lparr>tr_task_id = tk_task_id t, tr_workspace_id = tk_workspace_id t, tr_goal = tk_goal t,
      tr_success_criteria_json = tk_success_criteria t, tr_constraints_json = tk_constraints t,
      tr_state = task_state_value (tk_state t),
      tr_desired_state = task_state_value (tk_desired_state t),
      tr_phase = task_phase_value (tk_phase t), tr_priority = tk_priority t,
      tr_lane = tk_lane t, tr_queued_at = tk_queued_at t, tr_wait_reason = tk_wait_reason t,
      tr_budget_json = budget_to_json (tk_budget t), tr_revision = tk_revision t\<rparr>"

text \<open>Every column of an existing row is replaced.\<close>

definition upsert_task :: "task \<Rightarrow> db \<Rightarrow> db" where
  "upsert_task t d = d\<lparr>tasks_tbl := AList.update (tk_task_id t) (task_to_row t) (tasks_tbl d)\<rparr>"

fun json_float_opt :: "json \<Rightarrow> exc + pyfloat option" where
  "json_float_opt JNull = Inr None"
| "json_float_opt (JFloat q) = Inr (Some q)"
| "json_float_opt (JInt i) = Inr (Some (of_int i))"
| "json_float_opt _ = Inl (TypeError ''deadline_at is not a number'')"

definition budget_of_json :: "dict \<Rightarrow> exc + task_budget" where
  "budget_of_json d =
     bindR (py_int (dict_get_or d ''max_operations'' (JInt 64))) (\<lambda>m.
     bindR (py_int (dict_get_or d ''operations_started'' (JInt 0))) (\<lambda>n.
     bindR (json_float_opt (dict_get d ''deadline_at'')) (\<lambda>dl.
       Inr \<lparr>max_operations = m, operations_started = n, deadline_at = dl\<rparr>)))"

definition row_to_task :: "task_row \<Rightarrow> exc + task" where
  "row_to_task r =
     bindR (task_state_of (tr_state r)) (\<lambda>st.
     bindR (task_state_of (tr_desired_state r)) (\<lambda>ds.
     bindR (task_phase_of (tr_phase r)) (\<lambda>ph.
     bindR (budget_of_json (tr_budget_json r)) (\<lambda>bd.
       Inr \<lparr>tk_task_id = tr_task_id r, tk_workspace_id = tr_workspace_id r, tk_goal = tr_goal r,
         tk_success_criteria = tr_success_criteria_json r,
         tk_constraints = tr_constraints_json r, tk_state = st, tk_desired_state = ds,
         tk_phase = ph, tk_priority = tr_priority r, tk_lane = tr_lane r,
         tk_queued_at = tr_queued_at r, tk_wait_reason = tr_wait_reason r, tk_budget = bd,
         tk_revision = tr_revision r\<rparr>))))"

text \<open>\<^verbatim>\<open>for row in \<dots>: result[key] = value\<close>\<close>

definition load_dict :: "('r \<Rightarrow> exc + 'a) \<Rightarrow> ('a \<Rightarrow> string) \<Rightarrow> 'r list \<Rightarrow> exc + (string \<times> 'a) list" where
  "load_dict f key rows =
     foldR (\<lambda>r acc. bindR (f r) (\<lambda>x. Inr (AList.update (key x) x acc))) rows []"

definition load_tasks :: "db \<Rightarrow> exc + (string \<times> task) list" where
  "load_tasks d = load_dict row_to_task tk_task_id (map snd (tasks_tbl d))"

definition save_task :: "task \<Rightarrow> ('z store_st_scheme, unit) py" where
  "save_task t = commit_db (upsert_task t)"

lemma budget_roundtrip [simp]: "budget_of_json (budget_to_json b) = Inr b"
  by (cases b) (simp add: budget_of_json_def budget_to_json_def dict_get_or_def dict_get_def
      split: option.splits)

lemma row_to_task_to_row [simp]: "row_to_task (task_to_row t) = Inr t"
  by (simp add: row_to_task_def task_to_row_def)

section \<open>Operations\<close>

definition operation_to_row :: "operation \<Rightarrow> operation_row" where
  "operation_to_row p =
     \<lparr>or_operation_id = op_operation_id p, or_task_id = op_task_id p,
      or_workspace_id = op_workspace_id p, or_capability = op_capability p,
      or_action = op_action p, or_object_refs_json = op_object_refs p,
      or_arguments_json = op_arguments p, or_risk_class = risk_class_value (op_risk_class p),
      or_required_permission = op_required_permission p,
      or_idempotency_mode = op_idempotency_mode p,
      or_state = operation_state_value (op_state p),
      or_expected_revisions_json = op_expected_revisions p, or_evidence_json = op_evidence p,
      or_result_json = op_result p, or_error = op_error p,
      or_task_lease_owner_id = op_task_lease_owner_id p,
      or_task_lease_generation = op_task_lease_generation p,
      or_resource_lease_owner_id = op_resource_lease_owner_id p,
      or_resource_lease_generation = op_resource_lease_generation p\<rparr>"

text \<open>
  On conflict the task, the capability, the action, the object references, the arguments and
  the risk class of the first insert stay.
\<close>

definition operation_on_conflict :: "operation \<Rightarrow> operation_row \<Rightarrow> operation_row" where
  "operation_on_conflict p old = old\<lparr>
      or_workspace_id := op_workspace_id p,
      or_state := operation_state_value (op_state p),
      or_required_permission := op_required_permission p,
      or_idempotency_mode := op_idempotency_mode p,
      or_expected_revisions_json := op_expected_revisions p,
      or_evidence_json := op_evidence p,
      or_result_json := op_result p,
      or_error := op_error p,
      or_task_lease_owner_id := op_task_lease_owner_id p,
      or_task_lease_generation := op_task_lease_generation p,
      or_resource_lease_owner_id := op_resource_lease_owner_id p,
      or_resource_lease_generation := op_resource_lease_generation p\<rparr>"

definition upsert_operation :: "operation \<Rightarrow> db \<Rightarrow> db" where
  "upsert_operation p d = d\<lparr>operations_tbl :=
     AList.update (op_operation_id p)
       (case map_of (operations_tbl d) (op_operation_id p) of
          None \<Rightarrow> operation_to_row p
        | Some old \<Rightarrow> operation_on_conflict p old)
       (operations_tbl d)\<rparr>"

definition row_to_operation :: "operation_row \<Rightarrow> exc + operation" where
  "row_to_operation r =
     bindR (risk_class_of (or_risk_class r)) (\<lambda>rc.
     bindR (operation_state_of (or_state r)) (\<lambda>st.
       Inr \<lparr>op_operation_id = or_operation_id r, op_task_id = or_task_id r,
         op_workspace_id = or_workspace_id r, op_capability = or_capability r,
         op_action = or_action r, op_object_refs = or_object_refs_json r,
         op_arguments = or_arguments_json r, op_risk_class = rc,
         op_required_permission = or_required_permission r,
         op_idempotency_mode = or_idempotency_mode r, op_state = st,
         op_expected_revisions = or_expected_revisions_json r,
         op_evidence = or_evidence_json r, op_result = or_result_json r, op_error = or_error r,
         op_task_lease_owner_id = or_task_lease_owner_id r,
         op_task_lease_generation = or_task_lease_generation r,
         op_resource_lease_owner_id = or_resource_lease_owner_id r,
         op_resource_lease_generation = or_resource_lease_generation r\<rparr>))"

definition load_operations :: "db \<Rightarrow> exc + (string \<times> operation) list" where
  "load_operations d = load_dict row_to_operation op_operation_id (map snd (operations_tbl d))"

definition save_operation :: "operation \<Rightarrow> ('z store_st_scheme, unit) py" where
  "save_operation p = commit_db (upsert_operation p)"

text \<open>Two versions of one operation: they agree on the columns a conflict does not rewrite.\<close>

definition same_origin :: "operation \<Rightarrow> operation \<Rightarrow> bool" where
  "same_origin p q \<longleftrightarrow> op_operation_id p = op_operation_id q \<and> op_task_id p = op_task_id q
     \<and> op_capability p = op_capability q \<and> op_action p = op_action q
     \<and> op_object_refs p = op_object_refs q \<and> op_arguments p = op_arguments q
     \<and> op_risk_class p = op_risk_class q"

lemma row_to_operation_to_row [simp]: "row_to_operation (operation_to_row p) = Inr p"
  by (simp add: row_to_operation_def operation_to_row_def)

lemma operation_on_conflict_same_origin:
  "same_origin p q \<Longrightarrow> operation_on_conflict p (operation_to_row q) = operation_to_row p"
  by (simp add: operation_on_conflict_def operation_to_row_def same_origin_def)

section \<open>Saving and loading as an interface\<close>

text \<open>
  What the runtimes rely on when they keep objects in a dictionary and save each change: a
  table \<open>represents\<close> a dictionary, loading gives the dictionary back, and saving an object
  is storing it under its key. \<open>compat x y\<close> says that \<open>x\<close> may be saved over \<open>y\<close>.
\<close>

locale row_store =
  fixes represents :: "db \<Rightarrow> (string \<times> 'a) list \<Rightarrow> bool"
    and upsert :: "'a \<Rightarrow> db \<Rightarrow> db"
    and load :: "db \<Rightarrow> exc + (string \<times> 'a) list"
    and key :: "'a \<Rightarrow> string"
    and compat :: "'a \<Rightarrow> 'a \<Rightarrow> bool"
  assumes represents_empty: "represents empty_db []"
    and load_represents: "represents d m \<Longrightarrow> load d = Inr m"
    and upsert_represents:
      "represents d m \<Longrightarrow> (\<forall>y. map_of m (key x) = Some y \<longrightarrow> compat x y) \<Longrightarrow>
       represents (upsert x d) (AList.update (key x) x m)"
begin

lemma load_upsert:
  assumes "represents d m" and "\<And>y. map_of m (key x) = Some y \<Longrightarrow> compat x y"
  shows "load (upsert x d) = Inr (AList.update (key x) x m)"
  using assms by (intro load_represents upsert_represents) auto

lemma load_upserts:
  assumes "represents d m"
    and "\<And>x y. x \<in> set xs \<Longrightarrow> y \<in> set xs \<union> ran (map_of m) \<Longrightarrow> key x = key y \<Longrightarrow> compat x y"
    and "\<And>k y. map_of m k = Some y \<Longrightarrow> key y = k"
  shows "load (fold upsert xs d) = Inr (fold (\<lambda>x. AList.update (key x) x) xs m)"
  using assms
proof (induction xs arbitrary: d m)
  case Nil
  then show ?case by (simp add: load_represents)
next
  case (Cons x xs)
  have "compat x y" if "map_of m (key x) = Some y" for y
    using that Cons.prems(2)[of x y] Cons.prems(3)[OF that] by (auto simp: ran_def)
  then have "represents (upsert x d) (AList.update (key x) x m)"
    using Cons.prems(1) by (simp add: upsert_represents)
  moreover have "compat z y" if "z \<in> set xs"
    and "y \<in> set xs \<union> ran (map_of (AList.update (key x) x m))" and "key z = key y" for z y
  proof -
    have "y \<in> set (x # xs) \<union> ran (map_of m)"
      using that(2) by (auto simp: ran_def split: if_splits)
    with that show ?thesis by (intro Cons.prems(2)) simp_all
  qed
  moreover have "key y = k" if "map_of (AList.update (key x) x m) k = Some y" for k y
    using that Cons.prems(3)[of k y] by (cases "k = key x") simp_all
  ultimately have "load (fold upsert xs (upsert x d)) =
      Inr (fold (\<lambda>x. AList.update (key x) x) xs (AList.update (key x) x m))"
    by (rule Cons.IH)
  then show ?case by simp
qed

lemma load_upsert_lookup:
  assumes "represents d m" and "\<And>y. map_of m (key x) = Some y \<Longrightarrow> compat x y"
    and "load (upsert x d) = Inr m'"
  shows "map_of m' (key x) = Some x" and "k \<noteq> key x \<Longrightarrow> map_of m' k = map_of m k"
  using load_upsert[OF assms(1,2)] assms(3) by auto

end

text \<open>A dictionary whose keys are the identifiers of its values.\<close>

definition keyed :: "('a \<Rightarrow> string) \<Rightarrow> (string \<times> 'a) list \<Rightarrow> bool" where
  "keyed key m \<longleftrightarrow> distinct (map fst m) \<and> (\<forall>(k, x) \<in> set m. key x = k)"

lemma keyed_Nil [simp]: "keyed key []"
  by (simp add: keyed_def)

lemma keyed_lookup: "keyed key m \<Longrightarrow> map_of m k = Some x \<Longrightarrow> key x = k"
  by (auto simp: keyed_def dest: map_of_SomeD)

lemma keyed_iff:
  "keyed key m \<longleftrightarrow> distinct (map fst m) \<and> (\<forall>k x. map_of m k = Some x \<longrightarrow> key x = k)"
  by (auto simp: keyed_def dest: map_of_SomeD)

lemma keyed_update: "keyed key m \<Longrightarrow> keyed key (AList.update (key x) x m)"
  by (simp add: keyed_iff)

lemma load_dict_append:
  assumes "\<And>x. x \<in> set (map snd m) \<Longrightarrow> f (g x) = Inr x" and "keyed key (acc @ m)"
  shows "foldR (\<lambda>r acc. bindR (f r) (\<lambda>x. Inr (AList.update (key x) x acc)))
     (map g (map snd m)) acc = Inr (acc @ m)"
  using assms
proof (induction m arbitrary: acc)
  case (Cons p m)
  obtain k x where p: "p = (k, x)" by (cases p)
  with Cons.prems have "map_of acc k = None" and "key x = k"
    by (auto simp: keyed_def map_of_eq_None_iff)
  then have "AList.update (key x) x acc = acc @ [(k, x)]"
    by (simp add: map_of_None_update)
  moreover have "foldR (\<lambda>r acc. bindR (f r) (\<lambda>x. Inr (AList.update (key x) x acc)))
      (map g (map snd m)) (acc @ [(k, x)]) = Inr ((acc @ [(k, x)]) @ m)"
    using Cons.prems p by (intro Cons.IH) auto
  ultimately show ?case using Cons.prems(1) p by simp
qed simp

lemma load_dict_keyed:
  assumes "\<And>x. x \<in> set (map snd m) \<Longrightarrow> f (g x) = Inr x" and "keyed key m"
  shows "load_dict f key (map g (map snd m)) = Inr m"
  using load_dict_append[of m f g key "[]"] assms by (simp add: load_dict_def)

definition tasks_saved :: "db \<Rightarrow> (string \<times> task) list \<Rightarrow> bool" where
  "tasks_saved d m \<longleftrightarrow> keyed tk_task_id m \<and> tasks_tbl d = map_values task_to_row m"

definition operations_saved :: "db \<Rightarrow> (string \<times> operation) list \<Rightarrow> bool" where
  "operations_saved d m \<longleftrightarrow>
     keyed op_operation_id m \<and> operations_tbl d = map_values operation_to_row m"

interpretation task_rows: row_store tasks_saved upsert_task load_tasks tk_task_id "\<lambda>_ _. True"
proof (standard, goal_cases)
  case 1
  show ?case by (simp add: tasks_saved_def empty_db_def)
next
  case (2 d m)
  then show ?case
    unfolding tasks_saved_def load_tasks_def by (simp only: map_values_simps) (rule load_dict_keyed; simp)
next
  case (3 d m x)
  then show ?case
    by (simp add: tasks_saved_def upsert_task_def update_map_values keyed_update)
qed

interpretation operation_rows:
  row_store operations_saved upsert_operation load_operations op_operation_id same_origin
proof (standard, goal_cases)
  case 1
  show ?case by (simp add: operations_saved_def empty_db_def)
next
  case (2 d m)
  then show ?case
    unfolding operations_saved_def load_operations_def
    by (simp only: map_values_simps) (rule load_dict_keyed; simp)
next
  case (3 d m x)
  have "(case map_option operation_to_row (map_of m (op_operation_id x)) of
      None \<Rightarrow> operation_to_row x | Some old \<Rightarrow> operation_on_conflict x old) = operation_to_row x"
    using 3(2) by (auto simp: operation_on_conflict_same_origin split: option.splits)
  with 3 show ?case
    by (simp add: operations_saved_def upsert_operation_def update_map_values keyed_update)
qed

section \<open>The world\<close>

definition entity_to_row :: "entity \<Rightarrow> entity_row" where
  "entity_to_row e =
     \<lparr>wr_entity_id = en_entity_id e, wr_entity_type = en_entity_type e,
      wr_workspace_id = en_workspace_id e, wr_locator = en_locator e, wr_version = en_version e,
      wr_status = en_status e, wr_metadata_json = en_metadata e,
      wr_permissions_json = sorted_list_of_fset (en_permissions e)\<rparr>"

definition row_to_entity :: "entity_row \<Rightarrow> entity" where
  "row_to_entity r =
     \<lparr>en_entity_id = wr_entity_id r, en_entity_type = wr_entity_type r,
      en_workspace_id = wr_workspace_id r, en_locator = wr_locator r, en_version = wr_version r,
      en_status = wr_status r, en_metadata = wr_metadata_json r,
      en_permissions = fset_of_list (wr_permissions_json r)\<rparr>"

definition save_world_entity :: "entity \<Rightarrow> ('z store_st_scheme, unit) py" where
  "save_world_entity e = commit_db (\<lambda>d. d\<lparr>entities_tbl :=
     AList.update (en_entity_id e) (entity_to_row e) (entities_tbl d)\<rparr>)"

definition save_world_revisions :: "world_revisions \<Rightarrow> ('z store_st_scheme, unit) py" where
  "save_world_revisions r = commit_db (\<lambda>d. d\<lparr>revisions_tbl := Some r\<rparr>)"

definition save_workspace_revision :: "string \<Rightarrow> int \<Rightarrow> ('z store_st_scheme, unit) py" where
  "save_workspace_revision ws revision = commit_db (\<lambda>d. d\<lparr>workspace_revisions_tbl :=
     AList.update ws revision (workspace_revisions_tbl d)\<rparr>)"

text \<open>\<open>INSERT OR IGNORE\<close> on the three-column primary key.\<close>

definition save_world_relation :: "string \<Rightarrow> string \<Rightarrow> string \<Rightarrow> ('z store_st_scheme, unit) py" where
  "save_world_relation source relation target = commit_db (\<lambda>d. d\<lparr>relations_tbl :=
     (if (source, relation, target) \<in> set (relations_tbl d) then relations_tbl d
      else relations_tbl d @ [(source, relation, target)])\<rparr>)"

lemma entity_roundtrip [simp]: "row_to_entity (entity_to_row e) = e"
  by (cases e) (simp add: row_to_entity_def entity_to_row_def)

lemma run_save_world_revisions [py_simps]:
  "save_world_revisions r s = (Inr (), s\<lparr>db := (db s)\<lparr>revisions_tbl := Some r\<rparr>\<rparr>)"
  by (simp add: save_world_revisions_def py_simps)

section \<open>Properties\<close>

definition sample_operation :: "operation_state \<Rightarrow> operation" where
  "sample_operation st =
     \<lparr>op_operation_id = ''op_1'', op_task_id = ''task_1'', op_workspace_id = ''ws'',
      op_capability = ''files'', op_action = ''read'', op_object_refs = [''doc''], op_arguments = [],
      op_risk_class = RC_READ, op_required_permission = ''read'',
      op_idempotency_mode = ''SAFE_REPEAT'', op_state = st, op_expected_revisions = [],
      op_evidence = [], op_result = None, op_error = None, op_task_lease_owner_id = None,
      op_task_lease_generation = None, op_resource_lease_owner_id = None,
      op_resource_lease_generation = None\<rparr>"

text \<open>
  Saving any sequence of tasks and loading the table gives the dictionary in which each
  task stands under its identifier, in the order of the first saves and with the contents of
  the last: every field survives the trip through the columns.
\<close>

theorem tasks_round_trip:
  "load_tasks (fold upsert_task ts empty_db) = Inr (fold (\<lambda>t. AList.update (tk_task_id t) t) ts [])"
  by (rule task_rows.load_upserts) (simp_all add: task_rows.represents_empty)

text \<open>
  The same for operations, as long as two saves under one identifier are versions of one
  operation. (The conflict clause of the table keeps the task, the capability, the action, the
  objects, the arguments and the risk class of the first save.)
\<close>

theorem operations_round_trip:
  assumes "\<forall>p \<in> set ps. \<forall>q \<in> set ps. op_operation_id p = op_operation_id q \<longrightarrow> same_origin p q"
  shows "load_operations (fold upsert_operation ps empty_db) =
    Inr (fold (\<lambda>p. AList.update (op_operation_id p) p) ps [])"
  by (rule operation_rows.load_upserts) (use assms in \<open>auto simp: operation_rows.represents_empty\<close>)

theorem operations_round_trip_witness:
  "load_operations (fold upsert_operation [sample_operation OS_PREPARED, sample_operation OS_RUNNING] empty_db) =
   Inr [(''op_1'', sample_operation OS_RUNNING)]"
  using operations_round_trip[of "[sample_operation OS_PREPARED, sample_operation OS_RUNNING]"]
  by (simp add: sample_operation_def same_origin_def)

end
