(* ===== verification/Store_Events.thy ===== *)
theory Store_Events
  imports Store_Tables
begin

text \<open>
  The transactional outbox, the event log and the consumer cursors of the SQLite store. A
  change of a task or an operation is saved in the same transaction as the outbox row that
  announces it; dispatching moves pending rows, in order, into the append-only log.

  The lemmas carry one invariant of the store, \<open>log_inv\<close>: the log is the dispatched prefix
  of the outbox, event for event and in order, with the sequence numbers 1 to n. Every write
  keeps it, so no event is lost, duplicated or reordered. Consumers read exactly what lies
  beyond their cursor, and a cursor never runs backwards or ahead of the log.
\<close>

section \<open>Outbox\<close>

record event_args =
  ea_event_type :: string
  ea_actor :: string
  ea_workspace_id :: string
  ea_task_id :: "string option"
  ea_operation_id :: "string option"
  ea_object_refs :: "string list"
  ea_payload :: dict
  ea_causation_id :: "string option"
  ea_correlation_id :: "string option"
  ea_learning_allowed :: bool

text \<open>The keyword defaults of \<open>_insert_outbox\<close>.\<close>

definition event_kwargs :: "string \<Rightarrow> string \<Rightarrow> string \<Rightarrow> dict \<Rightarrow> event_args" where
  "event_kwargs event_type actor workspace_id payload =
     \<lparr>ea_event_type = event_type, ea_actor = actor, ea_workspace_id = workspace_id,
      ea_task_id = None, ea_operation_id = None, ea_object_refs = [], ea_payload = payload,
      ea_causation_id = None, ea_correlation_id = None, ea_learning_allowed = True\<rparr>"

definition outbox_entry :: "event_args \<Rightarrow> int \<Rightarrow> string \<Rightarrow> pyfloat \<Rightarrow> outbox_row" where
  "outbox_entry a oid eid ts =
     \<lparr>ob_outbox_id = oid, ob_event_id = Some eid, ob_workspace_id = ea_workspace_id a,
      ob_event_type = ea_event_type a, ob_actor = ea_actor a, ob_task_id = ea_task_id a,
      ob_operation_id = ea_operation_id a, ob_object_refs_json = ea_object_refs a,
      ob_payload_json = ea_payload a, ob_causation_id = ea_causation_id a,
      ob_correlation_id = ea_correlation_id a, ob_occurred_at = ts,
      ob_learning_allowed = (if ea_learning_allowed a then 1 else 0), ob_dispatched = 0\<rparr>"

definition insert_outbox :: "event_args \<Rightarrow> ('z store_st_scheme, string) py" where
  "insert_outbox a =
     bindE (new_id ''evt'') (\<lambda>event_id.
     bindE now (\<lambda>ts.
     thenE (commit_db (\<lambda>d. d\<lparr>outbox_seq := outbox_seq d + 1,
         outbox_tbl := outbox_tbl d @ [outbox_entry a (outbox_seq d + 1) event_id ts]\<rparr>))
       (ret event_id)))"

definition enqueue_event_outbox :: "event_args \<Rightarrow> ('z store_st_scheme, string) py" where
  "enqueue_event_outbox a = insert_outbox a"

definition save_task_with_outbox_event ::
  "task \<Rightarrow> event_args \<Rightarrow> ('z store_st_scheme, string) py" where
  "save_task_with_outbox_event t a =
     thenE (commit_db (upsert_task t)) (insert_outbox (a\<lparr>ea_task_id := Some (tk_task_id t)\<rparr>))"

definition operation_event :: "operation \<Rightarrow> event_args \<Rightarrow> event_args" where
  "operation_event p a = a\<lparr>ea_task_id := Some (op_task_id p),
     ea_operation_id := Some (op_operation_id p), ea_object_refs := op_object_refs p\<rparr>"

definition save_operation_with_outbox_event ::
  "operation \<Rightarrow> event_args \<Rightarrow> ('z store_st_scheme, string) py" where
  "save_operation_with_outbox_event p a =
     thenE (commit_db (upsert_operation p)) (insert_outbox (operation_event p a))"

definition save_task_and_operation_with_outbox_event ::
  "task \<Rightarrow> operation \<Rightarrow> event_args \<Rightarrow> ('z store_st_scheme, string) py" where
  "save_task_and_operation_with_outbox_event t p a =
     thenE (commit_db (upsert_task t)) (thenE (commit_db (upsert_operation p))
       (insert_outbox (a\<lparr>ea_task_id := Some (tk_task_id t),
          ea_operation_id := Some (op_operation_id p), ea_object_refs := op_object_refs p\<rparr>)))"

section \<open>Dispatch\<close>

definition row_to_event :: "event_row \<Rightarrow> event" where
  "row_to_event r =
     \<lparr>ev_sequence = er_sequence r, ev_event_id = er_event_id r,
      ev_workspace_id = er_workspace_id r, ev_event_type = er_event_type r,
      ev_actor = er_actor r, ev_task_id = er_task_id r, ev_operation_id = er_operation_id r,
      ev_object_refs = er_object_refs_json r, ev_payload = er_payload_json r,
      ev_causation_id = er_causation_id r, ev_correlation_id = er_correlation_id r,
      ev_occurred_at = er_occurred_at r, ev_observed_at = er_observed_at r,
      ev_learning_allowed = (er_learning_allowed r \<noteq> 0)\<rparr>"

definition log_entry :: "outbox_row \<Rightarrow> int \<Rightarrow> string \<Rightarrow> pyfloat \<Rightarrow> event_row" where
  "log_entry r sq eid observed_at =
     \<lparr>er_sequence = sq, er_event_id = eid, er_workspace_id = ob_workspace_id r,
      er_event_type = ob_event_type r, er_actor = ob_actor r, er_task_id = ob_task_id r,
      er_operation_id = ob_operation_id r, er_object_refs_json = ob_object_refs_json r,
      er_payload_json = ob_payload_json r, er_causation_id = ob_causation_id r,
      er_correlation_id = ob_correlation_id r,
      er_occurred_at = (if ob_occurred_at r = 0 then observed_at else ob_occurred_at r),
      er_observed_at = observed_at, er_learning_allowed = ob_learning_allowed r\<rparr>"

text \<open>\<open>UPDATE event_outbox SET \<dots> WHERE outbox_id=?\<close>\<close>

definition update_outbox :: "int \<Rightarrow> (outbox_row \<Rightarrow> outbox_row) \<Rightarrow> db \<Rightarrow> db" where
  "update_outbox oid f d =
     d\<lparr>outbox_tbl := map (\<lambda>r. if ob_outbox_id r = oid then f r else r) (outbox_tbl d)\<rparr>"

text \<open>
  \<open>INSERT OR IGNORE\<close> into the log: a row whose event identifier is already there is ignored,
  but the AUTOINCREMENT value it was offered is used up.
\<close>

definition insert_event :: "outbox_row \<Rightarrow> string \<Rightarrow> pyfloat \<Rightarrow> db \<Rightarrow> db" where
  "insert_event r eid observed_at d =
     d\<lparr>events_seq := events_seq d + 1,
       events_tbl := (if eid \<in> er_event_id ` set (events_tbl d) then events_tbl d
         else events_tbl d @ [log_entry r (events_seq d + 1) eid observed_at])\<rparr>"

definition dispatch_row :: "outbox_row \<Rightarrow> ('z store_st_scheme, event) py" where
  "dispatch_row r =
     bindE (case ob_event_id r of
         None \<Rightarrow> new_id ''evt''
       | Some e \<Rightarrow> if e = [] then new_id ''evt'' else ret e) (\<lambda>event_id.
     thenE (whenE (ob_event_id r = None)
         (commit_db (update_outbox (ob_outbox_id r) (\<lambda>x. x\<lparr>ob_event_id := Some event_id\<rparr>))))
     (bindE now (\<lambda>observed_at.
     thenE (commit_db (insert_event r event_id observed_at))
     (thenE (commit_db (update_outbox (ob_outbox_id r) (\<lambda>x. x\<lparr>ob_dispatched := 1\<rparr>)))
     (bindE (gets (\<lambda>s. find (\<lambda>e. er_event_id e = event_id) (events_tbl (db s)))) (\<lambda>evrow.
     bindE (of_option (TypeError ''NoneType object is not subscriptable'') evrow) (\<lambda>e.
       ret (row_to_event e))))))))"

definition pending_rows :: "db \<Rightarrow> outbox_row list" where
  "pending_rows d =
     sort_key ob_outbox_id (filter (\<lambda>r. ob_dispatched r = 0) (outbox_tbl d))"

text \<open>\<open>LIMIT ?\<close>: a negative limit is no limit.\<close>

definition limited :: "int \<Rightarrow> 'a list \<Rightarrow> 'a list" where
  "limited limit xs = (if limit < 0 then xs else take (nat limit) xs)"

definition dispatch_event_outbox :: "int \<Rightarrow> ('z store_st_scheme, event list) py" where
  "dispatch_event_outbox limit =
     bindE (gets (\<lambda>s. limited limit (pending_rows (db s)))) (\<lambda>rows. mapE dispatch_row rows)"

text \<open>The dictionaries of \<^verbatim>\<open>pending_outbox\<close>, an optional column as JSON null.\<close>

definition json_text_opt :: "string option \<Rightarrow> json" where
  "json_text_opt x = (case x of None \<Rightarrow> JNull | Some s \<Rightarrow> JStr s)"

definition pending_outbox :: "db \<Rightarrow> dict list" where
  "pending_outbox d = map (\<lambda>r.
     [(''outbox_id'', JInt (ob_outbox_id r)), (''event_id'', json_text_opt (ob_event_id r)),
      (''workspace_id'', JStr (ob_workspace_id r)), (''event_type'', JStr (ob_event_type r)),
      (''actor'', JStr (ob_actor r)), (''task_id'', json_text_opt (ob_task_id r)),
      (''operation_id'', json_text_opt (ob_operation_id r)), (''payload'', JDict (ob_payload_json r))])
     (pending_rows d)"

section \<open>Consumers\<close>

definition cursor_of :: "db \<Rightarrow> string \<Rightarrow> int" where
  "cursor_of d consumer_id = (case map_of (cursors_tbl d) consumer_id of None \<Rightarrow> 0 | Some n \<Rightarrow> n)"

definition read_events_after :: "string \<Rightarrow> db \<Rightarrow> event list" where
  "read_events_after consumer_id d =
     map row_to_event (sort_key er_sequence
       (filter (\<lambda>r. er_sequence r > cursor_of d consumer_id) (events_tbl d)))"

text \<open>\<^verbatim>\<open>SELECT MAX(sequence)\<close> over the log, or 0 when it is empty.\<close>

definition max_sequence :: "db \<Rightarrow> int" where
  "max_sequence d = (case events_tbl d of [] \<Rightarrow> 0
     | e # es \<Rightarrow> fold max (map er_sequence es) (er_sequence e))"

definition ack_event_consumer :: "string \<Rightarrow> int \<Rightarrow> ('z store_st_scheme, unit) py" where
  "ack_event_consumer consumer_id sequence =
     bindE (gets db) (\<lambda>d.
     if sequence < cursor_of d consumer_id then ret ()
     else if sequence > max_sequence d
       then raise (ValueError ''cannot ack beyond durable event log'')
     else commit_db (\<lambda>d. d\<lparr>cursors_tbl := AList.update consumer_id sequence (cursors_tbl d)\<rparr>))"

section \<open>The log is the dispatched prefix of the outbox\<close>

definition logged_as :: "outbox_row \<Rightarrow> event_row \<Rightarrow> bool" where
  "logged_as r e \<longleftrightarrow> ob_event_id r = Some (er_event_id e)
     \<and> e = log_entry r (er_sequence e) (er_event_id e) (er_observed_at e)"

text \<open>The identifiers of the outbox are draws the run has already made.\<close>

definition drawn_id :: "'z host_st_scheme \<Rightarrow> string option \<Rightarrow> bool" where
  "drawn_id s eid \<longleftrightarrow> (\<exists>i < ids_drawn s. eid = Some (''evt_'' @ hex_supply s i))"

definition log_split ::
  "'z store_st_scheme \<Rightarrow> outbox_row list \<Rightarrow> outbox_row list \<Rightarrow> bool" where
  "log_split s dn pd \<longleftrightarrow>
     outbox_tbl (db s) = dn @ pd
     \<and> (\<forall>r \<in> set dn. ob_dispatched r = 1) \<and> (\<forall>r \<in> set pd. ob_dispatched r = 0)
     \<and> list_all2 logged_as dn (events_tbl (db s))
     \<and> map er_sequence (events_tbl (db s)) = [1..events_seq (db s)]
     \<and> events_seq (db s) = int (length dn)
     \<and> map ob_outbox_id (dn @ pd) = [1..outbox_seq (db s)]
     \<and> outbox_seq (db s) = int (length (dn @ pd))
     \<and> distinct (map ob_event_id (dn @ pd))
     \<and> (\<forall>r \<in> set (dn @ pd). drawn_id s (ob_event_id r))"

definition log_inv :: "'z store_st_scheme \<Rightarrow> bool" where
  "log_inv s \<longleftrightarrow> log_split s (filter (\<lambda>r. ob_dispatched r \<noteq> 0) (outbox_tbl (db s)))
     (filter (\<lambda>r. ob_dispatched r = 0) (outbox_tbl (db s)))"

lemma log_split_inv: "log_split s dn pd \<Longrightarrow> log_inv s"
proof -
  assume sp: "log_split s dn pd"
  then have "outbox_tbl (db s) = dn @ pd" "filter (\<lambda>r. ob_dispatched r \<noteq> 0) dn = dn"
    "filter (\<lambda>r. ob_dispatched r \<noteq> 0) pd = []" "filter (\<lambda>r. ob_dispatched r = 0) dn = []"
    "filter (\<lambda>r. ob_dispatched r = 0) pd = pd"
    by (auto simp: log_split_def filter_empty_conv filter_id_conv)
  then show "log_inv s"
    using sp by (simp add: log_inv_def)
qed

lemma log_split_pending: "log_split s dn pd \<Longrightarrow> pending_rows (db s) = pd"
proof -
  assume sp: "log_split s dn pd"
  then have eq: "filter (\<lambda>r. ob_dispatched r = 0) (outbox_tbl (db s)) = pd"
    by (auto simp: log_split_def filter_empty_conv filter_id_conv)
  have "map ob_outbox_id (dn @ pd) = [1..outbox_seq (db s)]"
    using sp by (simp add: log_split_def)
  then have "sorted (map ob_outbox_id (dn @ pd))" by (simp only: sorted_upto)
  then have "sorted (map ob_outbox_id pd)" by (simp add: sorted_append)
  then show ?thesis by (simp add: pending_rows_def eq sort_key_id_if_sorted)
qed

lemma log_inv_split:
  assumes "log_inv s"
  obtains dn where "log_split s dn (pending_rows (db s))"
  using assms log_split_pending unfolding log_inv_def by metis

lemma logged_ids: "list_all2 logged_as dn es \<Longrightarrow> map ob_event_id dn = map (Some \<circ> er_event_id) es"
  by (induction rule: list_all2_induct) (auto simp: logged_as_def)

lemma log_entry_dispatched [simp]:
  "log_entry (r\<lparr>ob_dispatched := v\<rparr>) = log_entry r"
  by (simp add: log_entry_def fun_eq_iff)

lemma log_entry_sel [simp]:
  "er_sequence (log_entry r q e obs) = q" "er_event_id (log_entry r q e obs) = e"
  "er_observed_at (log_entry r q e obs) = obs"
  by (simp_all add: log_entry_def)

lemma update_outbox_mid:
  assumes "outbox_tbl d = dn @ r # pd" and "distinct (map ob_outbox_id (dn @ r # pd))"
  shows "update_outbox (ob_outbox_id r) f d = d\<lparr>outbox_tbl := dn @ f r # pd\<rparr>"
proof -
  have "map (\<lambda>x. if ob_outbox_id x = ob_outbox_id r then f x else x) dn = dn"
    and "map (\<lambda>x. if ob_outbox_id x = ob_outbox_id r then f x else x) pd = pd"
    using assms(2) by (auto intro!: map_idI simp: image_iff)
  then show ?thesis by (simp add: update_outbox_def assms(1))
qed

lemma find_append_last: "P y \<Longrightarrow> (\<forall>x \<in> set xs. \<not> P x) \<Longrightarrow> find P (xs @ [y]) = Some y"
  by (induction xs) auto

lemma dispatch_row_split:
  assumes "log_split s dn (r # pd)"
  obtains e s' where "dispatch_row r s = (Inr (row_to_event e), s')" "logged_as r e"
    "log_split s' (dn @ [r\<lparr>ob_dispatched := 1\<rparr>]) pd"
    "events_tbl (db s') = events_tbl (db s) @ [e]"
proof -
  let ?d = "db s" and ?r1 = "r\<lparr>ob_dispatched := 1\<rparr>"
  from assms obtain i where i: "i < ids_drawn s" "ob_event_id r = Some (''evt_'' @ hex_supply s i)"
    by (auto simp: log_split_def drawn_id_def)
  define eid where "eid = ''evt_'' @ hex_supply s i"
  define e where "e = log_entry r (events_seq ?d + 1) eid (clock_supply s (clock_reads s))"
  define s' where "s' = s\<lparr>clock_reads := Suc (clock_reads s),
    db := ?d\<lparr>events_seq := events_seq ?d + 1, events_tbl := events_tbl ?d @ [e],
      outbox_tbl := dn @ ?r1 # pd\<rparr>\<rparr>"
  have ids: "map ob_event_id dn = map (Some \<circ> er_event_id) (events_tbl ?d)"
    using assms by (auto simp: log_split_def intro: logged_ids)
  have fresh: "eid \<notin> er_event_id ` set (events_tbl ?d)"
  proof
    assume "eid \<in> er_event_id ` set (events_tbl ?d)"
    then have "Some eid \<in> set (map ob_event_id dn)" by (auto simp: ids)
    with assms i show False by (auto simp: log_split_def eid_def)
  qed
  have outbox: "outbox_tbl ?d = dn @ r # pd" "distinct (map ob_outbox_id (dn @ r # pd))"
    using assms by (simp_all add: log_split_def)
  have upd: "update_outbox (ob_outbox_id r) f (?d\<lparr>events_seq := a, events_tbl := b\<rparr>) =
      ?d\<lparr>events_seq := a, events_tbl := b, outbox_tbl := dn @ f r # pd\<rparr>" for f a b
    using update_outbox_mid[of "?d\<lparr>events_seq := a, events_tbl := b\<rparr>"] outbox by simp
  have "find (\<lambda>x. er_event_id x = eid) (events_tbl ?d @ [e]) = Some e"
    using fresh by (intro find_append_last) (auto simp: e_def)
  then have run: "dispatch_row r s = (Inr (row_to_event e), s')"
    using fresh i(2)
    by (simp add: dispatch_row_def py_simps insert_event_def upd s'_def e_def eid_def)
  have logged: "logged_as r e" using i(2) by (simp add: logged_as_def e_def eid_def)
  have "log_split s' (dn @ [?r1]) pd"
    using assms logged unfolding log_split_def s'_def
    by (auto simp: logged_as_def drawn_id_def e_def upto_rec2[of 1]
        intro!: list_all2_appendI)
  moreover have "events_tbl (db s') = events_tbl ?d @ [e]" by (simp add: s'_def)
  ultimately show thesis using that run logged by blast
qed

lemma dispatch_rows_split:
  assumes "log_split s dn (rs @ pd)"
  obtains es s' where "mapE dispatch_row rs s = (Inr (map row_to_event es), s')"
    "list_all2 logged_as rs es" "events_tbl (db s') = events_tbl (db s) @ es"
    "log_split s' (dn @ map (\<lambda>r. r\<lparr>ob_dispatched := 1\<rparr>) rs) pd"
  using assms
proof (induction rs arbitrary: s dn thesis)
  case Nil
  then show ?case by (simp add: py_simps)
next
  case (Cons r rs)
  from Cons.prems(2) have "log_split s dn (r # rs @ pd)" by simp
  then obtain e s1 where 1: "dispatch_row r s = (Inr (row_to_event e), s1)" "logged_as r e"
    "log_split s1 (dn @ [r\<lparr>ob_dispatched := 1\<rparr>]) (rs @ pd)"
    "events_tbl (db s1) = events_tbl (db s) @ [e]"
    by (rule dispatch_row_split)
  obtain es s2 where 2: "mapE dispatch_row rs s1 = (Inr (map row_to_event es), s2)"
    "list_all2 logged_as rs es" "events_tbl (db s2) = events_tbl (db s1) @ es"
    "log_split s2 ((dn @ [r\<lparr>ob_dispatched := 1\<rparr>]) @ map (\<lambda>r. r\<lparr>ob_dispatched := 1\<rparr>) rs) pd"
    using Cons.IH 1(3) by blast
  show ?case
    using Cons.prems(1)[of "e # es" s2] 1 2 by (simp add: py_simps)
qed

lemma limited_append: "\<exists>ys. xs = limited n xs @ ys \<and> (n < 0 \<longrightarrow> ys = []) \<and> (n \<ge> 0 \<longrightarrow> ys = drop (nat n) xs)"
  by (cases "n < 0") (auto simp: limited_def)

lemma dispatch_run:
  assumes "log_inv s"
  obtains es s' where "dispatch_event_outbox limit s = (Inr (map row_to_event es), s')"
    "list_all2 logged_as (limited limit (pending_rows (db s))) es"
    "events_tbl (db s') = events_tbl (db s) @ es" "log_inv s'"
    "pending_rows (db s) = limited limit (pending_rows (db s)) @ pending_rows (db s')"
proof -
  let ?pd = "pending_rows (db s)"
  obtain dn where sp: "log_split s dn ?pd" using assms by (rule log_inv_split)
  obtain ys where ys: "?pd = limited limit ?pd @ ys" using limited_append by blast
  with sp have "log_split s dn (limited limit ?pd @ ys)" by simp
  then obtain es s' where run:
    "mapE dispatch_row (limited limit ?pd) s = (Inr (map row_to_event es), s')"
    "list_all2 logged_as (limited limit ?pd) es" "events_tbl (db s') = events_tbl (db s) @ es"
    and sp': "log_split s' (dn @ map (\<lambda>r. r\<lparr>ob_dispatched := 1\<rparr>) (limited limit ?pd)) ys"
    by (rule dispatch_rows_split)
  have "dispatch_event_outbox limit s = (Inr (map row_to_event es), s')"
    by (simp add: dispatch_event_outbox_def py_simps run(1))
  moreover have "log_inv s'" using sp' by (rule log_split_inv)
  moreover have "?pd = limited limit ?pd @ pending_rows (db s')"
    using ys log_split_pending[OF sp'] by simp
  ultimately show thesis using that run(2,3) by blast
qed

lemma insert_outbox_run:
  assumes "log_split s dn pd" and "inj (hex_supply s)"
  shows "log_split (snd (insert_outbox a s)) dn
     (pd @ [outbox_entry a (outbox_seq (db s) + 1) (''evt_'' @ hex_supply s (ids_drawn s))
        (clock_supply s (clock_reads s))])"
proof -
  have "Some (''evt_'' @ hex_supply s (ids_drawn s)) \<notin> ob_event_id ` set (dn @ pd)"
    using assms unfolding log_split_def drawn_id_def
    by (fastforce dest: injD)
  then show ?thesis
    using assms unfolding log_split_def drawn_id_def
    by (auto simp: insert_outbox_def py_simps outbox_entry_def upto_rec2[of 1] less_Suc_eq)
qed

section \<open>The store invariant under every write\<close>

definition cursors_ok :: "db \<Rightarrow> bool" where
  "cursors_ok d \<longleftrightarrow> (\<forall>n \<in> ran (map_of (cursors_tbl d)). 0 \<le> n \<and> n \<le> events_seq d)"

definition store_ok :: "'z store_st_scheme \<Rightarrow> bool" where
  "store_ok s \<longleftrightarrow> inj (hex_supply s) \<and> log_inv s \<and> cursors_ok (db s)"

text \<open>The columns and counters that \<^const>\<open>store_ok\<close> looks at.\<close>

definition same_log :: "db \<Rightarrow> db \<Rightarrow> bool" where
  "same_log d d' \<longleftrightarrow> outbox_tbl d' = outbox_tbl d \<and> outbox_seq d' = outbox_seq d
     \<and> events_tbl d' = events_tbl d \<and> events_seq d' = events_seq d
     \<and> cursors_tbl d' = cursors_tbl d"

lemma drawn_id_mono:
  "drawn_id s eid \<Longrightarrow> hex_supply s' = hex_supply s \<Longrightarrow> ids_drawn s \<le> ids_drawn s' \<Longrightarrow> drawn_id s' eid"
  unfolding drawn_id_def by (metis order_less_le_trans)

lemma log_split_mono:
  assumes "log_split s dn pd" "same_log (db s) (db s')" "hex_supply s' = hex_supply s"
    "ids_drawn s \<le> ids_drawn s'"
  shows "log_split s' dn pd"
  using assms unfolding log_split_def same_log_def
  by (simp add: drawn_id_mono[of s _ s'])

lemma store_ok_mono:
  assumes "store_ok s" "same_log (db s) (db s')" "hex_supply s' = hex_supply s"
    "ids_drawn s \<le> ids_drawn s'"
  shows "store_ok s'"
proof -
  have "log_inv s'"
    using assms log_inv_split log_split_mono log_split_inv unfolding store_ok_def by metis
  then show ?thesis
    using assms by (simp add: store_ok_def cursors_ok_def same_log_def)
qed

lemma keeps_store_commit [wp]:
  "(\<And>d. same_log d (f d)) \<Longrightarrow> keeps store_ok (commit_db f)"
  by (rule keepsI) (auto simp: py_simps intro: store_ok_mono)

lemma keeps_store_transaction [wp]:
  assumes "\<And>d. same_log d (snd (f d))"
  shows "keeps store_ok (transaction f)"
proof (rule keepsI)
  fix s :: "'z store_st_scheme"
  assume "store_ok s"
  then show "store_ok (snd (transaction f s))"
    using assms[of "db s"] by (cases "f (db s)") (auto simp: py_simps intro: store_ok_mono)
qed

lemma keeps_store_modify [wp]:
  "(\<And>s. db (f s) = db s) \<Longrightarrow> (\<And>s. hex_supply (f s) = hex_supply s) \<Longrightarrow>
   (\<And>s. ids_drawn (f s) = ids_drawn s) \<Longrightarrow> keeps store_ok (modify f)"
  by (rule keepsI) (auto simp: py_simps same_log_def intro: store_ok_mono)

lemma keeps_store_new_id [wp]: "keeps store_ok (new_id p)"
  by (rule keepsI) (auto simp: py_simps same_log_def intro: store_ok_mono)

lemma keeps_store_now [wp]: "keeps store_ok now"
  by (rule keepsI) (auto simp: py_simps same_log_def intro: store_ok_mono)

lemma keeps_store_resolve_ts [wp]: "keeps store_ok (resolve_ts t)"
  by (auto simp: resolve_ts_def intro: wp split: option.splits)

lemma same_log_upserts [simp]:
  "same_log d (upsert_task t d)" "same_log d (upsert_operation p d)"
  by (simp_all add: same_log_def upsert_task_def upsert_operation_def)

lemma keeps_store_insert_outbox [wp]: "keeps store_ok (insert_outbox a)"
proof (rule keepsI)
  fix s :: "'z store_st_scheme"
  assume ok: "store_ok s"
  then obtain dn where "log_split s dn (pending_rows (db s))"
    by (auto simp: store_ok_def elim: log_inv_split)
  with ok have "log_inv (snd (insert_outbox a s))"
    by (auto simp: store_ok_def intro: log_split_inv insert_outbox_run)
  with ok show "store_ok (snd (insert_outbox a s))"
    by (simp add: store_ok_def cursors_ok_def insert_outbox_def py_simps)
qed

lemma update_outbox_cursors [simp]:
  "cursors_tbl (update_outbox oid f d) = cursors_tbl d"
  "events_seq (update_outbox oid f d) = events_seq d"
  "cursors_tbl (insert_event r e ts d) = cursors_tbl d"
  "events_seq (insert_event r e ts d) = events_seq d + 1"
  by (simp_all add: update_outbox_def insert_event_def)

definition cursors_kept :: "nat \<Rightarrow> (string \<times> int) list \<Rightarrow> (nat \<Rightarrow> string) \<Rightarrow> int \<Rightarrow> 'z store_st_scheme \<Rightarrow> bool" where
  "cursors_kept k cs h n s \<longleftrightarrow> cursors_tbl (db s) = cs \<and> n \<le> events_seq (db s)
     \<and> hex_supply s = h \<and> k \<le> ids_drawn s"

lemma keeps_cursors_dispatch: "keeps (cursors_kept k cs h n) (dispatch_event_outbox limit)"
proof -
  have "keeps (cursors_kept k cs h n) (dispatch_row r)" for r
    by (rule keepsI) (auto simp: dispatch_row_def cursors_kept_def py_simps
        split: option.splits if_splits)
  then show ?thesis unfolding dispatch_event_outbox_def by (intro wp)
qed

lemma keeps_store_dispatch [wp]: "keeps store_ok (dispatch_event_outbox limit)"
proof (rule keepsI)
  fix s :: "'z store_st_scheme"
  assume ok: "store_ok s"
  then have "log_inv (snd (dispatch_event_outbox limit s))"
    unfolding store_ok_def by (metis dispatch_run snd_conv)
  moreover have "cursors_kept (ids_drawn s) (cursors_tbl (db s)) (hex_supply s) (events_seq (db s))
      (snd (dispatch_event_outbox limit s))"
    by (rule keepsD[OF keeps_cursors_dispatch]) (simp add: cursors_kept_def)
  ultimately show "store_ok (snd (dispatch_event_outbox limit s))"
    using ok by (fastforce simp: store_ok_def cursors_ok_def cursors_kept_def)
qed

lemma max_sequence_log:
  assumes "log_inv s"
  shows "max_sequence (db s) = events_seq (db s)"
proof -
  obtain dn where "log_split s dn (pending_rows (db s))" using assms by (rule log_inv_split)
  then have seqs: "map er_sequence (events_tbl (db s)) = [1..events_seq (db s)]"
    and len: "events_seq (db s) = int (length (events_tbl (db s)))"
    by (auto simp: log_split_def dest: list_all2_lengthD)
  show ?thesis
  proof (cases "events_tbl (db s)")
    case Nil
    with len show ?thesis by (simp add: max_sequence_def)
  next
    case (Cons e es)
    then have "max_sequence (db s) = Max (set (map er_sequence (events_tbl (db s))))"
      by (simp add: max_sequence_def Max.set_eq_fold flip: list.set_map list.set(2))
    also have "\<dots> = events_seq (db s)"
      unfolding seqs set_upto using Cons len by (intro Max_eqI) auto
    finally show ?thesis .
  qed
qed

lemma keeps_store_ack [wp]: "keeps store_ok (ack_event_consumer c n)"
proof (rule keepsI)
  fix s :: "'z store_st_scheme"
  assume ok: "store_ok s"
  have cur: "0 \<le> cursor_of (db s) c"
    using ok by (auto simp: store_ok_def cursors_ok_def cursor_of_def ran_def split: option.splits)
  show "store_ok (snd (ack_event_consumer c n s))"
  proof (cases "n < cursor_of (db s) c \<or> max_sequence (db s) < n")
    case True
    with ok show ?thesis by (auto simp: ack_event_consumer_def py_simps)
  next
    case False
    let ?s = "s\<lparr>db := (db s)\<lparr>cursors_tbl := AList.update c n (cursors_tbl (db s))\<rparr>\<rparr>"
    have "log_split ?s dn pd \<longleftrightarrow> log_split s dn pd" for dn pd
      by (simp add: log_split_def drawn_id_def)
    then have "log_inv ?s" using ok by (simp add: store_ok_def log_inv_def)
    moreover have "cursors_ok (db ?s)"
      using ok False cur max_sequence_log[of s]
      by (auto simp: store_ok_def cursors_ok_def ran_def split: if_splits)
    ultimately show ?thesis
      using ok False by (simp add: ack_event_consumer_def py_simps store_ok_def)
  qed
qed

section \<open>Runs of the store\<close>

text \<open>
  Everything a process does with the outbox, the log and the cursors, one transaction at a
  time; \<open>draw\<close> and \<open>tick\<close> are identifiers and clock readings taken elsewhere.
\<close>

inductive event_step :: "'z store_st_scheme \<Rightarrow> 'z store_st_scheme \<Rightarrow> bool" where
  enqueue: "event_step s (snd (enqueue_event_outbox a s))"
| save_task_event: "event_step s (snd (save_task_with_outbox_event t a s))"
| save_operation_event: "event_step s (snd (save_operation_with_outbox_event p a s))"
| save_both_event: "event_step s (snd (save_task_and_operation_with_outbox_event t p a s))"
| dispatch: "event_step s (snd (dispatch_event_outbox limit s))"
| ack: "event_step s (snd (ack_event_consumer c n s))"
| draw: "event_step s (snd (new_id prefix s))"
| tick: "event_step s (snd (now s))"

definition fresh_store :: "(nat \<Rightarrow> string) \<Rightarrow> (nat \<Rightarrow> pyfloat) \<Rightarrow> store_st" where
  "fresh_store hex clk = \<lparr>hex_supply = hex, clock_supply = clk, ids_drawn = 0, clock_reads = 0,
     db = empty_db\<rparr>"

lemma keeps_store_saves [wp]:
  "keeps store_ok (enqueue_event_outbox a)"
  "keeps store_ok (save_task_with_outbox_event t a)"
  "keeps store_ok (save_operation_with_outbox_event p a)"
  "keeps store_ok (save_task_and_operation_with_outbox_event t p a)"
  unfolding enqueue_event_outbox_def save_task_with_outbox_event_def
    save_operation_with_outbox_event_def save_task_and_operation_with_outbox_event_def
  by (intro wp same_log_upserts)+

lemma event_step_store_ok: "event_step s s' \<Longrightarrow> store_ok s \<Longrightarrow> store_ok s'"
  by (induction rule: event_step.induct) (erule keepsD[rotated], rule wp)+

lemma store_ok_fresh: "inj hex \<Longrightarrow> store_ok (fresh_store hex clk)"
  by (simp add: store_ok_def fresh_store_def log_inv_def log_split_def empty_db_def cursors_ok_def)

lemma reachable_store_ok:
  assumes "inj hex" and "event_step\<^sup>*\<^sup>* (fresh_store hex clk) s"
  shows "store_ok s"
  using assms(2)
  by (induction rule: rtranclp_induct) (auto intro: store_ok_fresh[OF assms(1)] event_step_store_ok)

lemma log_prefix:
  assumes "store_ok s"
  obtains dn where "outbox_tbl (db s) = dn @ pending_rows (db s)"
    "list_all2 logged_as dn (events_tbl (db s))"
    "map er_sequence (events_tbl (db s)) = [1..int (length (events_tbl (db s)))]"
    "distinct (map er_event_id (events_tbl (db s)))"
    "events_seq (db s) = int (length (events_tbl (db s)))"
proof -
  obtain dn where sp: "log_split s dn (pending_rows (db s))"
    using assms by (auto simp: store_ok_def elim: log_inv_split)
  then have all2: "list_all2 logged_as dn (events_tbl (db s))" by (simp add: log_split_def)
  then have "map ob_event_id dn = map Some (map er_event_id (events_tbl (db s)))"
    using logged_ids by fastforce
  moreover have "distinct (map ob_event_id dn)" using sp by (simp add: log_split_def)
  ultimately have "distinct (map er_event_id (events_tbl (db s)))"
    by (metis distinct_map)
  with that sp all2 show thesis by (auto simp: log_split_def dest: list_all2_lengthD)
qed

lemma read_events_suffix:
  assumes "store_ok s"
  shows "read_events_after c (db s) =
    map row_to_event (drop (nat (cursor_of (db s) c)) (events_tbl (db s)))"
proof -
  let ?k = "cursor_of (db s) c" and ?es = "events_tbl (db s)"
  have k: "0 \<le> ?k" using assms
    by (auto simp: store_ok_def cursors_ok_def cursor_of_def ran_def split: option.splits)
  obtain dn where seqs: "map er_sequence ?es = [1..int (length ?es)]"
    using assms by (rule log_prefix)
  have nth: "er_sequence (?es ! i) = int i + 1" if "i < length ?es" for i
    using that arg_cong[OF seqs, of "\<lambda>xs. xs ! i"] by (simp add: nth_upto)
  have before: "er_sequence e \<le> ?k" if "e \<in> set (take (nat ?k) ?es)" for e
    using that nth k by (fastforce simp: in_set_conv_nth)
  have after: "?k < er_sequence e" if "e \<in> set (drop (nat ?k) ?es)" for e
    using that nth k by (fastforce simp: in_set_conv_nth)
  have "filter (\<lambda>e. ?k < er_sequence e) (take (nat ?k) ?es) = []"
    using before by (auto simp: filter_empty_conv not_less)
  moreover have "filter (\<lambda>e. ?k < er_sequence e) (drop (nat ?k) ?es) = drop (nat ?k) ?es"
    using after by (auto simp: filter_id_conv)
  ultimately have "filter (\<lambda>e. ?k < er_sequence e) ?es = drop (nat ?k) ?es"
    by (metis append_Nil append_take_drop_id filter_append)
  moreover have "sorted (map er_sequence (drop (nat ?k) ?es))"
    by (simp add: drop_map[symmetric] seqs sorted_wrt_drop)
  ultimately show ?thesis
    by (simp add: read_events_after_def sort_key_id_if_sorted)
qed

section \<open>Properties\<close>

text \<open>Identifiers for witnesses: the \<open>n\<close>-th draw is a word of length \<open>n\<close>.\<close>

definition sample_hex :: "nat \<Rightarrow> string" where
  "sample_hex n = replicate n (CHR ''a'')"

lemma inj_sample_hex: "inj sample_hex"
  by (rule injI) (metis length_replicate sample_hex_def)

definition sample_store :: store_st where
  "sample_store = fresh_store sample_hex (\<lambda>n. of_nat n + 1)"

definition sample_event :: event_args where
  "sample_event = event_kwargs ''task.created'' ''engine'' ''ws'' []"

text \<open>
  C4: in every state a store reaches from a fresh one, by any interleaving of saves with their
  events, dispatches, acknowledgements and draws, the event log is the dispatched prefix of the
  outbox: event for event, in order, numbered from 1 without gaps, no identifier twice. No
  event is lost, duplicated or reordered on its way from the outbox to the log. The draws of
  identifiers are taken to be distinct.
\<close>

theorem log_is_dispatched_outbox:
  assumes "inj hex" and "event_step\<^sup>*\<^sup>* (fresh_store hex clk) s"
  shows "\<exists>dn. outbox_tbl (db s) = dn @ pending_rows (db s)
    \<and> list_all2 logged_as dn (events_tbl (db s))
    \<and> map er_sequence (events_tbl (db s)) = [1..int (length (events_tbl (db s)))]
    \<and> distinct (map er_event_id (events_tbl (db s)))"
  by (rule log_prefix[OF reachable_store_ok[OF assms]]) blast

theorem log_is_dispatched_outbox_witness:
  "\<exists>dn. outbox_tbl (db (snd (dispatch_event_outbox 100 (snd (enqueue_event_outbox sample_event sample_store))))) =
     dn @ pending_rows (db (snd (dispatch_event_outbox 100 (snd (enqueue_event_outbox sample_event sample_store)))))
   \<and> list_all2 logged_as dn
      (events_tbl (db (snd (dispatch_event_outbox 100 (snd (enqueue_event_outbox sample_event sample_store))))))"
proof -
  have "event_step\<^sup>*\<^sup>* sample_store
      (snd (dispatch_event_outbox 100 (snd (enqueue_event_outbox sample_event sample_store))))"
    by (meson event_step.dispatch event_step.enqueue r_into_rtranclp rtranclp_trans)
  then show ?thesis
    using log_is_dispatched_outbox[OF inj_sample_hex, of "\<lambda>n. of_nat n + 1"]
    unfolding sample_store_def by blast
qed

text \<open>
  A dispatch never fails; it returns, in outbox order, exactly the events of the first
  \<open>limit\<close> pending rows (all of them for a negative limit), appends them to the log and
  leaves the remaining rows pending, still in order.
\<close>

theorem dispatch_in_order:
  assumes "store_ok s"
  shows "\<exists>es s'. dispatch_event_outbox limit s = (Inr (map row_to_event es), s')
    \<and> list_all2 logged_as (limited limit (pending_rows (db s))) es
    \<and> events_tbl (db s') = events_tbl (db s) @ es
    \<and> pending_rows (db s) = limited limit (pending_rows (db s)) @ pending_rows (db s')"
  using assms unfolding store_ok_def by (metis dispatch_run)

theorem dispatch_in_order_witness:
  "\<exists>es s'. dispatch_event_outbox 1 (snd (enqueue_event_outbox sample_event sample_store)) =
     (Inr (map row_to_event es), s') \<and> length es = 1"
proof -
  let ?s = "snd (enqueue_event_outbox sample_event sample_store)"
  have ok: "store_ok ?s"
    unfolding sample_store_def
    by (rule keepsD[OF keeps_store_saves(1)]) (rule store_ok_fresh[OF inj_sample_hex])
  have "length (limited 1 (pending_rows (db ?s))) = 1"
    by (simp add: sample_store_def fresh_store_def enqueue_event_outbox_def insert_outbox_def py_simps
        pending_rows_def empty_db_def outbox_entry_def limited_def)
  then show ?thesis using dispatch_in_order[OF ok, of 1] by (fastforce dest: list_all2_lengthD)
qed

text \<open>
  Acknowledging moves a consumer's cursor forward and never beyond the log: an older
  sequence is ignored, one beyond the log is refused with a \<open>ValueError\<close> and no change,
  and anything else becomes the consumer's cursor and leaves every other cursor alone.
\<close>

theorem ack_moves_forward:
  assumes "store_ok s"
  shows "ack_event_consumer c n s =
    (if n < cursor_of (db s) c then (Inr (), s)
     else if n > int (length (events_tbl (db s)))
     then (Inl (ValueError ''cannot ack beyond durable event log''), s)
     else (Inr (), s\<lparr>db := (db s)\<lparr>cursors_tbl := AList.update c n (cursors_tbl (db s))\<rparr>\<rparr>))"
proof -
  have "max_sequence (db s) = int (length (events_tbl (db s)))"
    using assms max_sequence_log[of s] log_prefix[OF assms] by (metis store_ok_def)
  then show ?thesis by (simp add: ack_event_consumer_def py_simps)
qed

theorem ack_moves_forward_witness:
  "ack_event_consumer ''brain'' 1 sample_store =
     (Inl (ValueError ''cannot ack beyond durable event log''), sample_store)"
proof -
  have ok: "store_ok sample_store"
    unfolding sample_store_def by (rule store_ok_fresh[OF inj_sample_hex])
  show ?thesis using ack_moves_forward[OF ok, of "''brain''" 1]
    by (simp add: sample_store_def fresh_store_def empty_db_def cursor_of_def)
qed

end
