(* ===== verification/Py_Text.thy ===== *)
theory Py_Text
  imports Prelude
begin

text \<open>
  Python's conversions between JSON values and text that the sources apply to event payloads
  and messages: \<^verbatim>\<open>str(x)\<close>, \<^verbatim>\<open>repr(x)\<close>, \<^verbatim>\<open>float(x)\<close> and the slice \<^verbatim>\<open>xs[:n]\<close>. Text is
  over single-byte characters. The shortest decimal text of a float is an argument
  \<open>float_repr\<close>, since floats are rationals here.
\<close>

section \<open>Slices\<close>

text \<open>\<^verbatim>\<open>xs[:n]\<close>: a negative bound counts from the end.\<close>

definition py_take :: "int \<Rightarrow> 'a list \<Rightarrow> 'a list" where
  "py_take n xs = (if n < 0 then take (length xs - nat (- n)) xs else take (nat n) xs)"

lemma py_take_prefix: "\<exists>k. py_take n xs = take k xs"
  by (auto simp: py_take_def)

lemma set_py_take: "set (py_take n xs) \<subseteq> set xs"
  by (auto simp: py_take_def dest: in_set_takeD)

section \<open>Text of a value\<close>

definition hex_digit :: "nat \<Rightarrow> char" where
  "hex_digit n = (if n < 10 then char_of (48 + n) else char_of (87 + n))"

text \<open>\<^verbatim>\<open>str.isprintable\<close> on the first 256 code points.\<close>

definition printable :: "nat \<Rightarrow> bool" where
  "printable n \<longleftrightarrow> 32 \<le> n \<and> n < 127 \<or> 160 < n \<and> n \<noteq> 173"

definition repr_char :: "char \<Rightarrow> char \<Rightarrow> string" where
  "repr_char q c = (let n = (of_char c :: nat) in
     if c = q \<or> n = 92 then [CHR 0x5C, c]
     else if n = 10 then [CHR 0x5C, CHR ''n'']
     else if n = 13 then [CHR 0x5C, CHR ''r'']
     else if n = 9 then [CHR 0x5C, CHR ''t'']
     else if printable n then [c]
     else [CHR 0x5C, CHR ''x'', hex_digit (n div 16), hex_digit (n mod 16)])"

text \<open>Single quotes, unless the text has a single quote and no double quote.\<close>

definition repr_str :: "string \<Rightarrow> string" where
  "repr_str s = (let q = (if CHR 0x27 \<in> set s \<and> CHR 0x22 \<notin> set s then CHR 0x22 else CHR 0x27)
     in q # concat (map (repr_char q) s) @ [q])"

text \<open>The decimal text of an integer has at most 4300 digits.\<close>

definition int_text_limit :: int where
  "int_text_limit = 10 ^ 4300"

definition repr_int :: "int \<Rightarrow> exc + string" where
  "repr_int i =
     (if \<bar>i\<bar> \<ge> int_text_limit
      then Inl (ValueError ''Exceeds the limit (4300 digits) for integer string conversion'')
      else Inr (int_str i))"

fun py_repr :: "(pyfloat \<Rightarrow> string) \<Rightarrow> json \<Rightarrow> exc + string"
  and py_reprs :: "(pyfloat \<Rightarrow> string) \<Rightarrow> json list \<Rightarrow> exc + string list"
  and py_repr_items :: "(pyfloat \<Rightarrow> string) \<Rightarrow> dict \<Rightarrow> exc + string list" where
  "py_repr float_repr JNull = Inr ''None''"
| "py_repr float_repr (JBool b) = Inr (if b then ''True'' else ''False'')"
| "py_repr float_repr (JInt i) = repr_int i"
| "py_repr float_repr (JFloat q) = Inr (float_repr q)"
| "py_repr float_repr (JStr s) = Inr (repr_str s)"
| "py_repr float_repr (JList xs) =
     bindR (py_reprs float_repr xs) (\<lambda>ts. Inr (''['' @ joined '', '' ts @ '']''))"
| "py_repr float_repr (JDict d) =
     bindR (py_repr_items float_repr d) (\<lambda>ts. Inr (''{'' @ joined '', '' ts @ ''}''))"
| "py_reprs float_repr [] = Inr []"
| "py_reprs float_repr (x # xs) =
     bindR (py_repr float_repr x) (\<lambda>t. bindR (py_reprs float_repr xs) (\<lambda>ts. Inr (t # ts)))"
| "py_repr_items float_repr [] = Inr []"
| "py_repr_items float_repr ((k, x) # d) =
     bindR (py_repr float_repr x) (\<lambda>t.
     bindR (py_repr_items float_repr d) (\<lambda>ts. Inr ((repr_str k @ '': '' @ t) # ts)))"

fun py_str :: "(pyfloat \<Rightarrow> string) \<Rightarrow> json \<Rightarrow> exc + string" where
  "py_str float_repr (JStr s) = Inr s"
| "py_str float_repr x = py_repr float_repr x"

lemma int_text_limit_big: "10 ^ 4 \<le> int_text_limit"
  unfolding int_text_limit_def by (rule power_increasing) simp_all

lemma repr_int_small: "\<bar>i\<bar> < 10000 \<Longrightarrow> repr_int i = Inr (int_str i)"
  using int_text_limit_big by (simp add: repr_int_def)

lemma repr_int_error: "repr_int i = Inl e \<Longrightarrow> \<exists>m. e = ValueError m"
  by (auto simp: repr_int_def split: if_splits)

lemma py_repr_error:
  "py_repr fr x = Inl e \<Longrightarrow> \<exists>m. e = ValueError m"
  "py_reprs fr xs = Inl e \<Longrightarrow> \<exists>m. e = ValueError m"
  "py_repr_items fr d = Inl e \<Longrightarrow> \<exists>m. e = ValueError m"
  by (induction fr x and fr xs and fr d arbitrary: e and e and e
      rule: py_repr_py_reprs_py_repr_items.induct)
    (auto simp: bindR_def repr_int_error split: sum.splits)

lemma py_str_error: "py_str fr x = Inl e \<Longrightarrow> \<exists>m. e = ValueError m"
proof (cases x)
  case (JStr s)
  then show "py_str fr x = Inl e \<Longrightarrow> ?thesis" by simp
qed (use py_repr_error(1)[of fr x e] in \<open>simp_all\<close>)

section \<open>Numbers\<close>

definition is_space :: "char \<Rightarrow> bool" where
  "is_space c = (let n = (of_char c :: nat) in 9 \<le> n \<and> n \<le> 13 \<or> 28 \<le> n \<and> n \<le> 32 \<or> n = 133 \<or> n = 160)"

definition strip :: "string \<Rightarrow> string" where
  "strip s = List.rev (dropWhile is_space (List.rev (dropWhile is_space s)))"

definition is_digit :: "char \<Rightarrow> bool" where
  "is_digit c = (let n = (of_char c :: nat) in 48 \<le> n \<and> n \<le> 57)"

fun digits_value :: "string \<Rightarrow> nat \<Rightarrow> nat" where
  "digits_value [] acc = acc"
| "digits_value (c # cs) acc = digits_value cs (acc * 10 + (of_char c - 48))"

text \<open>An underscore stands between two digits and is dropped; \<open>None\<close> when one does not.\<close>

fun drop_underscores :: "bool \<Rightarrow> string \<Rightarrow> string option" where
  "drop_underscores prev [] = Some []"
| "drop_underscores prev (c # cs) =
     (if c = CHR ''_''
      then (if prev \<and> cs \<noteq> [] \<and> is_digit (hd cs) then drop_underscores False cs else None)
      else map_option ((#) c) (drop_underscores (is_digit c) cs))"

definition split_sign :: "string \<Rightarrow> bool \<times> string" where
  "split_sign s = (case s of [] \<Rightarrow> (False, [])
     | c # cs \<Rightarrow> if c = CHR ''-'' then (True, cs) else if c = CHR ''+'' then (False, cs) else (False, s))"

text \<open>The exponent part: nothing, or \<^verbatim>\<open>e\<close>, a sign and digits up to the end.\<close>

definition parse_exponent :: "string \<Rightarrow> int option" where
  "parse_exponent s = (case s of [] \<Rightarrow> Some 0
     | c # cs \<Rightarrow>
        if c = CHR ''e'' \<or> c = CHR ''E'' then
          (case split_sign cs of (neg, ds) \<Rightarrow>
             if ds \<noteq> [] \<and> list_all is_digit ds
             then Some ((if neg then -1 else 1) * int (digits_value ds 0)) else None)
        else None)"

definition scaled :: "nat \<Rightarrow> int \<Rightarrow> pyfloat" where
  "scaled m e = (if e \<ge> 0 then of_nat m * 10 ^ nat e else of_nat m / 10 ^ nat (- e))"

definition parse_decimal :: "string \<Rightarrow> pyfloat option" where
  "parse_decimal s =
     (let whole = takeWhile is_digit s; rest = dropWhile is_digit s;
          point = (rest \<noteq> [] \<and> hd rest = CHR ''.'');
          frac = (if point then takeWhile is_digit (List.tl rest) else []);
          rest' = (if point then dropWhile is_digit (List.tl rest) else rest)
      in if whole = [] \<and> frac = [] then None
         else map_option (\<lambda>e. scaled (digits_value (whole @ frac) 0) (e - int (length frac)))
                (parse_exponent rest'))"

text \<open>
  \<^verbatim>\<open>float(text)\<close>. The texts of the infinities and of NaN are no rational numbers and are
  treated as no number at all.
\<close>

definition float_of_text :: "string \<Rightarrow> exc + pyfloat" where
  "float_of_text t =
     (case drop_underscores False (strip t) of
        None \<Rightarrow> Inl (ValueError (''could not convert string to float: '' @ repr_str t))
      | Some s \<Rightarrow> (case split_sign s of (neg, u) \<Rightarrow>
          (case parse_decimal u of
             None \<Rightarrow> Inl (ValueError (''could not convert string to float: '' @ repr_str t))
           | Some q \<Rightarrow> Inr (if neg then - q else q))))"

text \<open>An integer that rounds beyond the largest double has no float.\<close>

definition float_limit :: int where
  "float_limit = 2 ^ 1024 - 2 ^ 970"

fun py_float :: "json \<Rightarrow> exc + pyfloat" where
  "py_float (JFloat q) = Inr q"
| "py_float (JBool b) = Inr (if b then 1 else 0)"
| "py_float (JInt i) =
     (if \<bar>i\<bar> \<ge> float_limit then Inl (OverflowError ''int too large to convert to float'')
      else Inr (of_int i))"
| "py_float (JStr s) = float_of_text s"
| "py_float _ = Inl (TypeError ''float() argument must be a string or a real number'')"

lemma digit_char_digit: "n < 10 \<Longrightarrow> is_digit (digit_char n) \<and> of_char (digit_char n) = 48 + n"
  by (simp add: digit_char_def is_digit_def Let_def)

lemma digits_value_append: "digits_value (xs @ ys) acc = digits_value ys (digits_value xs acc)"
  by (induction xs arbitrary: acc) simp_all

lemma nat_str_digits: "list_all is_digit (nat_str n) \<and> digits_value (nat_str n) 0 = n"
proof (induction n rule: nat_str.induct)
  case (1 n)
  show ?case
    by (subst (1 2) nat_str.simps)
      (use 1 in \<open>auto simp: digits_value_append digit_char_digit\<close>)
qed

text \<open>Reading the decimal text of a natural number gives the number.\<close>

lemma parse_decimal_nat: "parse_decimal (nat_str n) = Some (of_nat n)"
proof -
  have d: "list_all is_digit (nat_str n)" "digits_value (nat_str n) 0 = n"
    using nat_str_digits by auto
  then have w: "takeWhile is_digit (nat_str n) = nat_str n" "dropWhile is_digit (nat_str n) = []"
    by (auto simp: list_all_iff takeWhile_eq_all_conv dropWhile_eq_Nil_conv)
  show ?thesis
    unfolding parse_decimal_def Let_def w by (simp add: parse_exponent_def scaled_def d(2))
qed

lemma digit_not_space: "is_digit c \<Longrightarrow> \<not> is_space c \<and> c \<noteq> CHR ''_'' \<and> c \<noteq> CHR ''-'' \<and> c \<noteq> CHR ''+''"
  by (auto simp: is_digit_def is_space_def Let_def)

lemma minus_not_space: "\<not> is_space CHR ''-''"
  by (simp add: is_space_def)

lemma drop_underscores_digits: "list_all is_digit s \<Longrightarrow> drop_underscores p s = Some s"
  by (induction s arbitrary: p) (auto simp: digit_not_space)

lemma strip_id: "s \<noteq> [] \<Longrightarrow> \<not> is_space (hd s) \<Longrightarrow> \<not> is_space (last s) \<Longrightarrow> strip s = s"
  by (cases s) (auto simp: strip_def dropWhile_eq_self_iff hd_rev[symmetric] simp del: hd_rev last_rev)

lemma float_of_int_str: "float_of_text (int_str i) = Inr (of_int i)"
proof -
  let ?n = "nat_str (nat \<bar>i\<bar>)"
  have d: "list_all is_digit ?n" using nat_str_digits by blast
  then have ends: "is_digit (hd ?n)" "is_digit (last ?n)"
    by (simp_all add: list_all_iff)
  have strip: "strip (int_str i) = int_str i"
    using ends by (intro strip_id) (auto simp: int_str_def digit_not_space abs_if minus_not_space)
  have under: "drop_underscores False (int_str i) = Some (int_str i)"
    using drop_underscores_digits[OF d] by (auto simp: int_str_def is_digit_def abs_if)
  have sign: "split_sign (int_str i) = (i < 0, ?n)"
    using ends(1) by (cases "nat_str (nat i)")
      (auto simp: int_str_def split_sign_def digit_not_space abs_if split: if_splits)
  have "of_nat (nat \<bar>i\<bar>) = (of_int \<bar>i\<bar> :: pyfloat)"
    by (simp add: of_nat_nat)
  then show ?thesis
    using strip under sign by (simp add: float_of_text_def parse_decimal_nat abs_if split: if_splits)
qed

end
