(* ===== verification/Py_Json.thy ===== *)
theory Py_Json
  imports Py_Text "HOL-Library.Word" "HOL-Library.Multiset"
begin

text \<open>
  \<^verbatim>\<open>json.dumps\<close> and \<^verbatim>\<open>json.loads\<close> as the sources call them, and strict UTF-8: the bridge
  sends compact text with sorted keys (\<^verbatim>\<open>src/liandanlu_native/desktop_bridge.py\<close>), the
  store writes the default style into its text columns
  (\<^verbatim>\<open>src/liandanlu_native/storage.py\<close>). The reader follows CPython's scanner: white space,
  the strict string syntax with its escapes, numbers, \<^verbatim>\<open>NaN\<close> and the infinities, the last of
  several equal keys, \<open>JSONDecodeError\<close> for text that is no JSON, \<open>ValueError\<close> for an
  integer of more than 4300 digits and \<open>RecursionError\<close> beyond the recursion limit.

  What cannot be computed on rationals is an argument: \<open>float_repr\<close> is the text of a float
  and \<open>jr_float\<close> the float of a text; the recursion limit of the interpreter is
  \<open>jr_depth\<close>. Text is over single-byte characters: a code point above 255 is valid JSON that
  this development has no string for, and reading it gives \<open>unmodelled_text\<close>.

  Shown here: reading what was written gives the value back, with the keys of its
  dictionaries in the order of the style, and the reader ends on every text.
\<close>

type_synonym byte = "8 word"

section \<open>Writing\<close>

record json_style =
  js_ascii :: bool
  js_item_sep :: string
  js_key_sep :: string
  js_sort :: bool

text \<open>\<^verbatim>\<open>ensure_ascii=False, separators=(",", ":"), sort_keys=True\<close> and the defaults\<close>

definition frame_style :: json_style where
  "frame_style = \<lparr>js_ascii = False, js_item_sep = '','', js_key_sep = '':'', js_sort = True\<rparr>"

definition column_style :: json_style where
  "column_style = \<lparr>js_ascii = True, js_item_sep = '', '', js_key_sep = '': '', js_sort = False\<rparr>"

definition hex_escape :: "nat \<Rightarrow> string" where
  "hex_escape n = [CHR 0x5C, CHR ''u'', CHR ''0'', CHR ''0'', hex_digit (n div 16), hex_digit (n mod 16)]"

definition json_escape :: "bool \<Rightarrow> char \<Rightarrow> string" where
  "json_escape ascii c = (let n = (of_char c :: nat) in
     if n = 34 \<or> n = 92 then [CHR 0x5C, c]
     else if n = 8 then [CHR 0x5C, CHR ''b'']
     else if n = 12 then [CHR 0x5C, CHR ''f'']
     else if n = 10 then [CHR 0x5C, CHR ''n'']
     else if n = 13 then [CHR 0x5C, CHR ''r'']
     else if n = 9 then [CHR 0x5C, CHR ''t'']
     else if n < 32 \<or> ascii \<and> n > 126 then hex_escape n
     else [c])"

definition json_string :: "bool \<Rightarrow> string \<Rightarrow> string" where
  "json_string ascii s = CHR 0x22 # concat (map (json_escape ascii) s) @ [CHR 0x22]"

definition key_order :: "json_style \<Rightarrow> (string \<times> 'a) list \<Rightarrow> (string \<times> 'a) list" where
  "key_order st d = (if js_sort st then sort_key fst d else d)"

fun json_dumps :: "json_style \<Rightarrow> (pyfloat \<Rightarrow> string) \<Rightarrow> json \<Rightarrow> exc + string"
  and json_dumps_list :: "json_style \<Rightarrow> (pyfloat \<Rightarrow> string) \<Rightarrow> json list \<Rightarrow> exc + string list"
  and json_dumps_items :: "json_style \<Rightarrow> (pyfloat \<Rightarrow> string) \<Rightarrow> dict \<Rightarrow> exc + (string \<times> string) list" where
  "json_dumps st float_repr JNull = Inr ''null''"
| "json_dumps st float_repr (JBool b) = Inr (if b then ''true'' else ''false'')"
| "json_dumps st float_repr (JInt i) = repr_int i"
| "json_dumps st float_repr (JFloat q) = Inr (float_repr q)"
| "json_dumps st float_repr (JStr s) = Inr (json_string (js_ascii st) s)"
| "json_dumps st float_repr (JList xs) =
     bindR (json_dumps_list st float_repr xs) (\<lambda>ts. Inr (''['' @ joined (js_item_sep st) ts @ '']''))"
| "json_dumps st float_repr (JDict d) =
     bindR (json_dumps_items st float_repr d) (\<lambda>ts.
       Inr (''{'' @ joined (js_item_sep st) (map snd (key_order st ts)) @ ''}''))"
| "json_dumps_list st float_repr [] = Inr []"
| "json_dumps_list st float_repr (x # xs) =
     bindR (json_dumps st float_repr x) (\<lambda>t.
     bindR (json_dumps_list st float_repr xs) (\<lambda>ts. Inr (t # ts)))"
| "json_dumps_items st float_repr [] = Inr []"
| "json_dumps_items st float_repr ((k, x) # d) =
     bindR (json_dumps st float_repr x) (\<lambda>t.
     bindR (json_dumps_items st float_repr d) (\<lambda>ts.
       Inr ((k, json_string (js_ascii st) k @ js_key_sep st @ t) # ts)))"

definition utf8_char :: "char \<Rightarrow> byte list" where
  "utf8_char c = (let n = (of_char c :: nat) in
     if n < 128 then [of_nat n] else [of_nat (192 + n div 64), of_nat (128 + n mod 64)])"

definition utf8 :: "string \<Rightarrow> byte list" where
  "utf8 s = concat (map utf8_char s)"

section \<open>Reading\<close>

record json_reader =
  jr_float :: "string \<Rightarrow> pyfloat"
  jr_depth :: nat

definition unmodelled_text :: exc where
  "unmodelled_text = External ''UnmodelledText'' ''code point above 255''"

definition is_json_space :: "char \<Rightarrow> bool" where
  "is_json_space c = (c \<in> set [CHR '' '', CHR 0x09, CHR 0x0A, CHR 0x0D])"

definition skip_space :: "string \<Rightarrow> string" where
  "skip_space s = dropWhile is_json_space s"

definition hex_value :: "char \<Rightarrow> nat option" where
  "hex_value c = (let n = (of_char c :: nat) in
     if 48 \<le> n \<and> n \<le> 57 then Some (n - 48)
     else if 97 \<le> n \<and> n \<le> 102 then Some (n - 87)
     else if 65 \<le> n \<and> n \<le> 70 then Some (n - 55)
     else None)"

definition hex4 :: "char \<Rightarrow> char \<Rightarrow> char \<Rightarrow> char \<Rightarrow> nat option" where
  "hex4 a b c d = (case (hex_value a, hex_value b, hex_value c, hex_value d) of
     (Some w, Some x, Some y, Some z) \<Rightarrow> Some (((w * 16 + x) * 16 + y) * 16 + z)
   | _ \<Rightarrow> None)"

definition escape_value :: "char \<Rightarrow> char option" where
  "escape_value c = map_of [(CHR 0x22, CHR 0x22), (CHR 0x5C, CHR 0x5C), (CHR ''/'', CHR ''/''),
     (CHR ''b'', CHR 0x08), (CHR ''f'', CHR 0x0C), (CHR ''n'', CHR 0x0A), (CHR ''r'', CHR 0x0D),
     (CHR ''t'', CHR 0x09)] c"

definition prepend :: "char \<Rightarrow> exc + string \<times> string \<Rightarrow> exc + string \<times> string" where
  "prepend c r = bindR r (\<lambda>(t, later). Inr (c # t, later))"

text \<open>A string, from behind its opening quote to behind its closing quote.\<close>

fun parse_string :: "string \<Rightarrow> exc + string \<times> string" where
  "parse_string [] = Inl (JSONDecodeError ''Unterminated string starting at'')"
| "parse_string (c # cs) =
     (if c = CHR 0x22 then Inr ([], cs)
      else if c = CHR 0x5C then
        (case cs of
           [] \<Rightarrow> Inl (JSONDecodeError ''Unterminated string starting at'')
         | e # r \<Rightarrow>
             if e = CHR ''u'' then
               (case r of
                  w # x # y # z # r' \<Rightarrow>
                    (case hex4 w x y z of
                       None \<Rightarrow> Inl (JSONDecodeError ''Invalid uXXXX escape'')
                     | Some n \<Rightarrow> if n < 256 then prepend (char_of n) (parse_string r')
                                else Inl unmodelled_text)
                | _ \<Rightarrow> Inl (JSONDecodeError ''Invalid uXXXX escape''))
             else (case escape_value e of
                  None \<Rightarrow> Inl (JSONDecodeError ''Invalid escape'')
                | Some x \<Rightarrow> prepend x (parse_string r)))
      else if (of_char c :: nat) < 32 then Inl (JSONDecodeError ''Invalid control character at'')
      else prepend c (parse_string cs))"

text \<open>The parts of a number, each with the text behind it.\<close>

definition scan_int :: "string \<Rightarrow> (string \<times> string) option" where
  "scan_int s = (case s of [] \<Rightarrow> None
     | c # cs \<Rightarrow> if c = CHR ''0'' then Some ([c], cs)
        else if is_digit c then Some (takeWhile is_digit s, dropWhile is_digit s) else None)"

definition scan_frac :: "string \<Rightarrow> string \<times> string" where
  "scan_frac s = (case s of [] \<Rightarrow> ([], s)
     | c # cs \<Rightarrow> if c = CHR ''.'' \<and> takeWhile is_digit cs \<noteq> []
        then (c # takeWhile is_digit cs, dropWhile is_digit cs) else ([], s))"

definition scan_sign :: "string \<Rightarrow> string \<times> string" where
  "scan_sign s = (case s of [] \<Rightarrow> ([], s)
     | c # cs \<Rightarrow> if c = CHR ''-'' \<or> c = CHR ''+'' then ([c], cs) else ([], s))"

definition scan_exp :: "string \<Rightarrow> string \<times> string" where
  "scan_exp s = (case s of [] \<Rightarrow> ([], s)
     | c # cs \<Rightarrow>
        (case scan_sign cs of (sg, ds) \<Rightarrow>
          if (c = CHR ''e'' \<or> c = CHR ''E'') \<and> takeWhile is_digit ds \<noteq> []
          then (c # sg @ takeWhile is_digit ds, dropWhile is_digit ds) else ([], s)))"

text \<open>\<^verbatim>\<open>(-?(?:0|[1-9][0-9]*))(\.[0-9]+)?([eE][-+]?[0-9]+)?\<close>: the integer part and the rest of the match\<close>

definition scan_number :: "string \<Rightarrow> (bool \<times> string \<times> string \<times> string) option" where
  "scan_number s =
     (let neg = (s \<noteq> [] \<and> hd s = CHR ''-'') in
      case scan_int (if neg then List.tl s else s) of
        None \<Rightarrow> None
      | Some (whole, s1) \<Rightarrow>
         (case scan_frac s1 of (point, s2) \<Rightarrow>
          (case scan_exp s2 of (ex, s3) \<Rightarrow> Some (neg, whole, point @ ex, s3))))"

definition drop_prefix :: "string \<Rightarrow> string \<Rightarrow> string option" where
  "drop_prefix p s = (if take (length p) s = p then Some (drop (length p) s) else None)"

definition int_limit_message :: string where
  "int_limit_message = ''Exceeds the limit (4300 digits) for integer string conversion''"

definition parse_number :: "json_reader \<Rightarrow> string \<Rightarrow> exc + json \<times> string" where
  "parse_number rd s =
     (case scan_number s of
        Some (neg, whole, ext, later) \<Rightarrow>
          let sg = (if neg then ''-'' else []) in
          if ext \<noteq> [] then Inr (JFloat (jr_float rd (sg @ whole @ ext)), later)
          else if length whole > 4300
          then Inl (ValueError int_limit_message)
          else Inr (JInt ((if neg then -1 else 1) * int (digits_value whole 0)), later)
      | None \<Rightarrow>
         (case (drop_prefix ''NaN'' s, drop_prefix ''Infinity'' s, drop_prefix ''-Infinity'' s) of
            (Some later, _, _) \<Rightarrow> Inr (JFloat (jr_float rd ''NaN''), later)
          | (None, Some later, _) \<Rightarrow> Inr (JFloat (jr_float rd ''Infinity''), later)
          | (None, None, Some later) \<Rightarrow> Inr (JFloat (jr_float rd ''-Infinity''), later)
          | _ \<Rightarrow> Inl (JSONDecodeError ''Expecting value'')))"

definition too_deep :: exc where
  "too_deep = RecursionError ''maximum recursion depth exceeded while decoding a JSON value''"

text \<open>Every reader leaves less text than it was given, which is why reading ends.\<close>

lemma length_skip_space: "length (skip_space s) \<le> length s"
  by (simp add: skip_space_def length_dropWhile_le)

lemma drop_prefix_shorter:
  "drop_prefix p s = Some later \<Longrightarrow> p \<noteq> [] \<Longrightarrow> length later < length s"
  by (cases s; cases p) (auto simp: drop_prefix_def split: if_splits)

lemma drop_prefix_skip:
  "drop_prefix p (skip_space s) = Some later \<Longrightarrow> p \<noteq> [] \<Longrightarrow> length later < length s"
  using drop_prefix_shorter length_skip_space by (meson less_le_trans)

lemma prepend_Inr: "prepend c r = Inr (t, later) \<longleftrightarrow> (\<exists>t'. r = Inr (t', later) \<and> t = c # t')"
  by (auto simp: prepend_def bindR_Inr_iff)

lemma parse_string_shorter: "parse_string s = Inr (t, later) \<Longrightarrow> length later < length s"
proof (induction s arbitrary: t rule: length_induct)
  case (1 s)
  then have IH: "length later < length s'" if "length s' < length s" "parse_string s' = Inr (t', later)" for s' t'
    using that by blast
  show ?case
  proof (cases s)
    case (Cons c cs)
    from 1(2) show ?thesis
      unfolding Cons
      by (auto simp: prepend_Inr Cons split: if_splits list.splits option.splits dest!: IH[rotated])
  qed (use 1(2) in simp)
qed

lemma scan_int_shorter: "scan_int s = Some (w, later) \<Longrightarrow> length later < length s"
  by (cases s) (auto simp: scan_int_def length_dropWhile_le le_imp_less_Suc split: if_splits)

lemma scan_frac_le: "scan_frac s = (w, later) \<Longrightarrow> length later \<le> length s"
  by (cases s) (auto simp: scan_frac_def length_dropWhile_le le_SucI split: if_splits)

lemma scan_sign_le: "scan_sign s = (w, later) \<Longrightarrow> length later \<le> length s"
  by (cases s) (auto simp: scan_sign_def split: if_splits)

lemma scan_exp_le: "scan_exp s = (w, later) \<Longrightarrow> length later \<le> length s"
proof (cases s)
  case (Cons c cs)
  obtain sg ds where "scan_sign cs = (sg, ds)" by fastforce
  with Cons show "scan_exp s = (w, later) \<Longrightarrow> ?thesis"
    using scan_sign_le length_dropWhile_le[of is_digit ds]
    by (fastforce simp: scan_exp_def split: if_splits)
qed (simp add: scan_exp_def)

lemma scan_number_shorter: "scan_number s = Some (neg, w, ext, later) \<Longrightarrow> length later < length s"
  by (cases s) (auto simp: scan_number_def Let_def split: option.splits prod.splits if_splits
      dest!: scan_int_shorter scan_frac_le scan_exp_le)

lemma parse_number_shorter: "parse_number rd s = Inr (x, later) \<Longrightarrow> length later < length s"
  by (auto simp: parse_number_def Let_def split: option.splits if_splits
      dest: scan_number_shorter drop_prefix_shorter)

text \<open>
  One value; the elements of an array from behind its bracket; the members of an object from
  its first key, with those read before. The depth counts the brackets that are open.
\<close>

function (sequential) parse_value :: "json_reader \<Rightarrow> nat \<Rightarrow> string \<Rightarrow> exc + json \<times> string"
  and parse_elements :: "json_reader \<Rightarrow> nat \<Rightarrow> string \<Rightarrow> exc + json list \<times> string"
  and parse_members :: "json_reader \<Rightarrow> nat \<Rightarrow> string \<Rightarrow> dict \<Rightarrow> exc + dict \<times> string" where
  "parse_value rd depth [] = Inl (JSONDecodeError ''Expecting value'')"
| "parse_value rd depth (c # cs) =
     (if c = CHR 0x22 then bindR (parse_string cs) (\<lambda>(t, later). Inr (JStr t, later))
      else if c = CHR ''{'' then
        (if depth \<ge> jr_depth rd then Inl too_deep
         else case drop_prefix ''}'' (skip_space cs) of
             Some later \<Rightarrow> Inr (JDict [], later)
           | None \<Rightarrow> bindR (parse_members rd (Suc depth) (skip_space cs) []) (\<lambda>(d, later). Inr (JDict d, later)))
      else if c = CHR ''['' then
        (if depth \<ge> jr_depth rd then Inl too_deep
         else case drop_prefix '']'' (skip_space cs) of
             Some later \<Rightarrow> Inr (JList [], later)
           | None \<Rightarrow> bindR (parse_elements rd (Suc depth) (skip_space cs)) (\<lambda>(xs, later). Inr (JList xs, later)))
      else case (drop_prefix ''null'' (c # cs), drop_prefix ''true'' (c # cs), drop_prefix ''false'' (c # cs)) of
          (Some later, _, _) \<Rightarrow> Inr (JNull, later)
        | (None, Some later, _) \<Rightarrow> Inr (JBool True, later)
        | (None, None, Some later) \<Rightarrow> Inr (JBool False, later)
        | _ \<Rightarrow> parse_number rd (c # cs))"
| "parse_elements rd depth s =
     bindR (parse_value rd depth s) (\<lambda>(x, s1).
       case drop_prefix '','' (skip_space s1) of
         Some s2 \<Rightarrow> bindR (parse_elements rd depth (skip_space s2)) (\<lambda>(xs, later). Inr (x # xs, later))
       | None \<Rightarrow> (case drop_prefix '']'' (skip_space s1) of
            Some later \<Rightarrow> Inr ([x], later)
          | None \<Rightarrow> Inl (JSONDecodeError ''Expecting comma delimiter'')))"
| "parse_members rd depth s acc =
     (case drop_prefix [CHR 0x22] s of
        None \<Rightarrow> Inl (JSONDecodeError ''Expecting property name enclosed in double quotes'')
      | Some s0 \<Rightarrow>
          bindR (parse_string s0) (\<lambda>(k, s1).
            case drop_prefix '':'' (skip_space s1) of
              None \<Rightarrow> Inl (JSONDecodeError ''Expecting colon delimiter'')
            | Some s2 \<Rightarrow>
                bindR (parse_value rd depth (skip_space s2)) (\<lambda>(x, s3).
                  case drop_prefix '','' (skip_space s3) of
                    Some s4 \<Rightarrow> parse_members rd depth (skip_space s4) (AList.update k x acc)
                  | None \<Rightarrow> (case drop_prefix ''}'' (skip_space s3) of
                       Some later \<Rightarrow> Inr (AList.update k x acc, later)
                     | None \<Rightarrow> Inl (JSONDecodeError ''Expecting comma delimiter'')))))"
  by pat_completeness auto

text \<open>
  The inner calls read the text that other inner calls have left, so that the remainders have
  to be shorter before the termination of the readers is known: the lemma is about the calls
  that end.
\<close>

lemma parsers_shorter:
  "parse_value_parse_elements_parse_members_dom (Inl (rd, depth, s)) \<Longrightarrow>
     parse_value rd depth s = Inr (x, later) \<Longrightarrow> length later < length s"
  "parse_value_parse_elements_parse_members_dom (Inr (Inl (rd, depth, s))) \<Longrightarrow>
     parse_elements rd depth s = Inr (xs, later) \<Longrightarrow> length later < length s"
  "parse_value_parse_elements_parse_members_dom (Inr (Inr (rd, depth, s, acc))) \<Longrightarrow>
     parse_members rd depth s acc = Inr (d, later) \<Longrightarrow> length later < length s"
proof (induction rd depth s and rd depth s and rd depth s acc arbitrary: x later and xs later and d later
    rule: parse_value_parse_elements_parse_members.pinduct)
  case (1 rd depth)
  then show ?case by (simp add: parse_value.psimps(1))
next
  case (2 rd depth c cs)
  note run = 2(4)[unfolded parse_value.psimps(2)[OF 2(1)]]
  consider "c = CHR 0x22" | "c = CHR ''{''" | "c = CHR ''[''"
    | "c \<noteq> CHR 0x22" "c \<noteq> CHR ''{''" "c \<noteq> CHR ''[''" by blast
  then show ?case
  proof cases
    case 1
    with run show ?thesis by (auto simp: bindR_Inr_iff dest!: parse_string_shorter)
  next
    case c: 2
    have sub: "length later < Suc (length cs)"
      if "drop_prefix ''}'' (skip_space cs) = None" "\<not> jr_depth rd \<le> depth"
        "parse_members rd (Suc depth) (skip_space cs) [] = Inr (d, later)" for d
      using 2(2)[of d later] that c length_skip_space[of cs] by simp
    with run c show ?thesis
      by (auto simp: bindR_Inr_iff split: if_splits option.splits dest!: drop_prefix_skip sub)
  next
    case c: 3
    have sub: "length later < Suc (length cs)"
      if "drop_prefix '']'' (skip_space cs) = None" "\<not> jr_depth rd \<le> depth"
        "parse_elements rd (Suc depth) (skip_space cs) = Inr (xs, later)" for xs
      using 2(3)[of xs later] that c length_skip_space[of cs] by simp
    with run c show ?thesis
      by (auto simp: bindR_Inr_iff split: if_splits option.splits dest!: drop_prefix_skip sub)
  next
    case 4
    with run show ?thesis
      by (auto split: option.splits dest!: drop_prefix_shorter parse_number_shorter)
  qed
next
  case (3 rd depth s)
  from 3(4) obtain x s1 where x: "parse_value rd depth s = Inr (x, s1)"
    by (auto simp: parse_elements.psimps[OF 3(1)] bindR_Inr_iff)
  have s1: "length s1 < length s" by (rule 3(2)[OF x])
  show ?case
  proof (cases "drop_prefix '','' (skip_space s1)")
    case None
    with 3(4) x s1 show ?thesis
      by (auto simp: parse_elements.psimps[OF 3(1)] split: option.splits dest!: drop_prefix_skip)
  next
    case (Some s2)
    then have "length s2 < length s1" by (auto dest: drop_prefix_skip)
    with 3(4) x s1 Some show ?thesis
      using length_skip_space[of s2]
      by (fastforce simp: parse_elements.psimps[OF 3(1)] bindR_Inr_iff dest: 3(3)[OF x refl Some])
  qed
next
  case (4 rd depth s acc)
  from 4(4) obtain s0 where s0: "drop_prefix [CHR 0x22] s = Some s0"
    by (auto simp: parse_members.psimps[OF 4(1)] split: option.splits)
  with 4(4) obtain k s1 where k: "parse_string s0 = Inr (k, s1)"
    by (auto simp: parse_members.psimps[OF 4(1)] bindR_Inr_iff)
  with 4(4) s0 obtain s2 where s2: "drop_prefix '':'' (skip_space s1) = Some s2"
    by (auto simp: parse_members.psimps[OF 4(1)] split: option.splits)
  with 4(4) s0 k obtain x s3 where x: "parse_value rd depth (skip_space s2) = Inr (x, s3)"
    by (auto simp: parse_members.psimps[OF 4(1)] bindR_Inr_iff)
  have s3: "length s3 < length s"
    using 4(2)[OF s0 k refl s2 x] drop_prefix_shorter[OF s0] parse_string_shorter[OF k]
      drop_prefix_skip[OF s2] length_skip_space[of s2] by simp
  show ?case
  proof (cases "drop_prefix '','' (skip_space s3)")
    case None
    with 4(4) s0 k s2 x s3 show ?thesis
      by (auto simp: parse_members.psimps[OF 4(1)] split: option.splits dest!: drop_prefix_skip)
  next
    case (Some s4)
    with 4(4) s0 k s2 x have "parse_members rd depth (skip_space s4) (AList.update k x acc) = Inr (d, later)"
      by (simp add: parse_members.psimps[OF 4(1)])
    from 4(3)[OF s0 k refl s2 x refl Some this] show ?thesis
      using s3 drop_prefix_skip[OF Some] length_skip_space[of s4] by simp
  qed
qed

termination parse_value
proof -
  let ?m = "measure (\<lambda>x. case x of Inl (rd, depth, s) \<Rightarrow> 2 * length s
    | Inr (Inl (rd, depth, s)) \<Rightarrow> Suc (2 * length s) | Inr (Inr (rd, depth, s, acc)) \<Rightarrow> 2 * length s)
    :: ((json_reader \<times> nat \<times> string) + (json_reader \<times> nat \<times> string)
      + (json_reader \<times> nat \<times> string \<times> dict)) rel"
  show ?thesis
  proof (relation ?m)
  fix rd :: json_reader and depth :: nat and c :: char and cs :: string
  show "(Inr (Inl (rd, Suc depth, skip_space cs)), Inl (rd, depth, c # cs)) \<in> ?m"
    "(Inr (Inr (rd, Suc depth, skip_space cs, [])), Inl (rd, depth, c # cs)) \<in> ?m"
    using length_skip_space[of cs] by simp_all
next
  fix rd :: json_reader and depth s p x s1 s2
  assume "parse_value rd depth s = Inr p" "(x, s1) = p" "drop_prefix '','' (skip_space s1) = Some s2"
    "parse_value_parse_elements_parse_members_dom (Inl (rd, depth, s))"
  then show "(Inr (Inl (rd, depth, skip_space s2)), Inr (Inl (rd, depth, s))) \<in> ?m"
    using length_skip_space[of s2] by (auto dest!: parsers_shorter(1) drop_prefix_skip)
next
  fix rd :: json_reader and depth s acc s0 p k s1 s2
  assume "drop_prefix [CHR 0x22] s = Some s0" "parse_string s0 = Inr p" "(k, s1) = p"
    "drop_prefix '':'' (skip_space s1) = Some s2"
  then have s2: "length (skip_space s2) < length s"
    using length_skip_space[of s2] by (auto dest!: drop_prefix_shorter parse_string_shorter drop_prefix_skip)
  then show "(Inl (rd, depth, skip_space s2), Inr (Inr (rd, depth, s, acc))) \<in> ?m" by simp
  fix q x s3 s4
  assume "parse_value rd depth (skip_space s2) = Inr q" "(x, s3) = q"
    "drop_prefix '','' (skip_space s3) = Some s4"
    "parse_value_parse_elements_parse_members_dom (Inl (rd, depth, skip_space s2))"
  then show "(Inr (Inr (rd, depth, skip_space s4, AList.update k x acc)), Inr (Inr (rd, depth, s, acc))) \<in> ?m"
    using s2 length_skip_space[of s4] by (auto dest!: parsers_shorter(1) drop_prefix_skip)
  qed simp_all
qed

declare parse_value.simps [simp del] parse_elements.simps [simp del] parse_members.simps [simp del]

lemmas parse_simps = parse_value.simps parse_elements.simps parse_members.simps

text \<open>\<^verbatim>\<open>json.loads\<close> of text\<close>

definition json_loads :: "json_reader \<Rightarrow> string \<Rightarrow> exc + json" where
  "json_loads rd s =
     bindR (parse_value rd 0 (skip_space s)) (\<lambda>(x, later).
       if skip_space later = [] then Inr x else Inl (JSONDecodeError ''Extra data''))"

section \<open>UTF-8\<close>

definition continuation :: "nat \<Rightarrow> bool" where
  "continuation b \<longleftrightarrow> 128 \<le> b \<and> b < 192"

text \<open>
  Strict decoding: no overlong forms, no surrogates, nothing above U+10FFFF; the bytes are
  given as numbers.
\<close>

fun utf8_points :: "nat list \<Rightarrow> exc + nat list" where
  "utf8_points [] = Inr []"
| "utf8_points (b # bs) =
     (if b < 128 then bindR (utf8_points bs) (\<lambda>ps. Inr (b # ps))
      else case bs of
          [] \<Rightarrow> Inl (UnicodeDecodeError ''unexpected end of data'')
        | x # xs \<Rightarrow>
            if 194 \<le> b \<and> b < 224 \<and> continuation x
            then bindR (utf8_points xs) (\<lambda>ps. Inr (((b - 192) * 64 + (x - 128)) # ps))
            else (case xs of
                [] \<Rightarrow> Inl (UnicodeDecodeError ''invalid start or continuation byte'')
              | y # ys \<Rightarrow>
                  if 224 \<le> b \<and> b < 240 \<and> continuation x \<and> continuation y
                    \<and> (b = 224 \<longrightarrow> 160 \<le> x) \<and> (b = 237 \<longrightarrow> x < 160)
                  then bindR (utf8_points ys) (\<lambda>ps.
                    Inr ((((b - 224) * 64 + (x - 128)) * 64 + (y - 128)) # ps))
                  else (case ys of
                      [] \<Rightarrow> Inl (UnicodeDecodeError ''invalid start or continuation byte'')
                    | z # zs \<Rightarrow>
                        if 240 \<le> b \<and> b < 245 \<and> continuation x \<and> continuation y \<and> continuation z
                          \<and> (b = 240 \<longrightarrow> 144 \<le> x) \<and> (b = 244 \<longrightarrow> x < 144)
                        then bindR (utf8_points zs) (\<lambda>ps.
                          Inr (((((b - 240) * 64 + (x - 128)) * 64 + (y - 128)) * 64 + (z - 128)) # ps))
                        else Inl (UnicodeDecodeError ''invalid start or continuation byte''))))"

definition utf8_decode :: "byte list \<Rightarrow> exc + string" where
  "utf8_decode bs = bindR (utf8_points (map unat bs)) (\<lambda>ps.
     if list_ex (\<lambda>p. p > 255) ps then Inl unmodelled_text else Inr (map char_of ps))"

text \<open>\<^verbatim>\<open>json.loads(payload.decode("utf-8"))\<close>\<close>

definition payload_loads :: "json_reader \<Rightarrow> byte list \<Rightarrow> exc + json" where
  "payload_loads rd payload = bindR (utf8_decode payload) (json_loads rd)"

lemma utf8_points_utf8: "utf8_points (map unat (utf8 s)) = Inr (map of_char s)"
proof (induction s)
  case (Cons c s)
  let ?n = "of_char c :: nat"
  have n: "?n < 256" by (rule nat_of_char_less_256)
  have small: "unat (of_nat k :: byte) = k" if "k < 256" for k
    using that by (simp add: unat_of_nat)
  have two: "?n div 64 * 64 + ?n mod 64 = ?n" "?n div 64 < 4" "?n \<ge> 128 \<Longrightarrow> 2 \<le> ?n div 64"
    using n by (simp, linarith, linarith)
  show ?case
  proof (cases "?n < 128")
    case True
    with Cons show ?thesis
      by (simp add: utf8_def utf8_char_def Let_def small)
  next
    case False
    have "map unat (utf8_char c) = [192 + ?n div 64, 128 + ?n mod 64]"
      using False two(2) by (simp add: utf8_char_def Let_def small del: of_nat_add)
    with Cons False two show ?thesis
      by (simp add: utf8_def continuation_def)
  qed
qed (simp add: utf8_def)

lemma utf8_decode_utf8: "utf8_decode (utf8 s) = Inr s"
proof -
  have "(of_char c :: nat) \<le> 255" for c
    using nat_of_char_less_256[of c] by linarith
  then show ?thesis
    by (simp add: utf8_decode_def utf8_points_utf8 list_ex_iff comp_def not_less map_idI)
qed

section \<open>Reading what was written\<close>

text \<open>A value as it is read back: the keys of its dictionaries in the order of the style.\<close>

fun canon :: "json_style \<Rightarrow> json \<Rightarrow> json" where
  "canon st (JList xs) = JList (map (canon st) xs)"
| "canon st (JDict d) = JDict (key_order st (map (\<lambda>(k, x). (k, canon st x)) d))"
| "canon st x = x"

text \<open>
  What has to hold of a value: dictionaries have distinct keys, the brackets do not nest beyond
  the recursion limit, and the text of a float is a float literal that denotes the float.
\<close>

definition float_text :: "string \<Rightarrow> bool" where
  "float_text t \<longleftrightarrow> (case scan_number t of
     Some (neg, whole, ext, later) \<Rightarrow> ext \<noteq> [] \<and> later = [] | None \<Rightarrow> False)"

fun readable :: "json_reader \<Rightarrow> (pyfloat \<Rightarrow> string) \<Rightarrow> nat \<Rightarrow> json \<Rightarrow> bool" where
  "readable rd fr depth (JFloat q) \<longleftrightarrow> float_text (fr q) \<and> jr_float rd (fr q) = q"
| "readable rd fr depth (JList xs) \<longleftrightarrow> depth < jr_depth rd \<and> list_all (readable rd fr (Suc depth)) xs"
| "readable rd fr depth (JDict d) \<longleftrightarrow> depth < jr_depth rd \<and> distinct (map fst d)
     \<and> list_all (\<lambda>(k, x). readable rd fr (Suc depth) x) d"
| "readable rd fr depth x \<longleftrightarrow> True"

text \<open>A separator is its character and white space.\<close>

definition separates :: "char \<Rightarrow> string \<Rightarrow> bool" where
  "separates c sep \<longleftrightarrow> (case sep of [] \<Rightarrow> False | x # sp \<Rightarrow> x = c \<and> list_all is_json_space sp)"

definition style_ok :: "json_style \<Rightarrow> bool" where
  "style_ok st \<longleftrightarrow> separates CHR '','' (js_item_sep st) \<and> separates CHR '':'' (js_key_sep st)"

lemma styles_ok [simp]: "style_ok frame_style" "style_ok column_style"
  by (simp_all add: style_ok_def separates_def frame_style_def column_style_def is_json_space_def)

definition starts :: "string \<Rightarrow> bool" where
  "starts t \<longleftrightarrow> t \<noteq> [] \<and> \<not> is_json_space (hd t) \<and> hd t \<notin> {CHR '']'', CHR ''}''}"

lemma skip_starts [simp]: "starts t \<Longrightarrow> skip_space (t @ u) = t @ u"
  by (cases t) (simp_all add: starts_def skip_space_def)

lemma starts_no_end: "starts t \<Longrightarrow> drop_prefix '']'' (t @ u) = None" "starts t \<Longrightarrow> drop_prefix ''}'' (t @ u) = None"
  by (cases t; simp add: starts_def drop_prefix_def)+

lemma skip_separator:
  assumes "separates c sep" and "starts t" and "\<not> is_json_space c"
  shows "drop_prefix [c] (skip_space (sep @ t @ u)) = Some (List.tl sep @ t @ u)"
    "skip_space (List.tl sep @ t @ u) = t @ u"
proof -
  obtain sp where sp: "sep = c # sp" "list_all is_json_space sp"
    using assms(1) by (auto simp: separates_def split: list.splits)
  show "drop_prefix [c] (skip_space (sep @ t @ u)) = Some (List.tl sep @ t @ u)"
    using sp assms(3) by (simp add: skip_space_def drop_prefix_def)
  have "skip_space (sp @ t @ u) = skip_space (t @ u)"
    using sp(2) by (simp add: skip_space_def dropWhile_append1 list_all_iff dropWhile_append2)
  then show "skip_space (List.tl sep @ t @ u) = t @ u"
    using sp(1) assms(2) by simp
qed

text \<open>Strings\<close>

lemma hex_value_digit: "n < 16 \<Longrightarrow> hex_value (hex_digit n) = Some n"
  by (auto simp: hex_value_def hex_digit_def Let_def)

lemma parse_hex_escape:
  assumes "n < 256"
  shows "parse_string (hex_escape n @ u) = prepend (char_of n) (parse_string u)"
proof -
  have "hex4 CHR ''0'' CHR ''0'' (hex_digit (n div 16)) (hex_digit (n mod 16)) = Some n"
    using assms hex_value_digit[of "n div 16"] hex_value_digit[of "n mod 16"]
    by (simp add: hex4_def hex_value_def Let_def)
  with assms show ?thesis by (simp add: hex_escape_def)
qed

lemma parse_escape: "parse_string (json_escape a c @ u) = prepend c (parse_string u)"
proof -
  let ?n = "of_char c :: nat"
  have of: "c = d \<longleftrightarrow> ?n = of_char d" for d by simp
  have eq: "c = CHR 0x22 \<longleftrightarrow> ?n = 34" "c = CHR 0x5C \<longleftrightarrow> ?n = 92"
    using of[of "CHR 0x22"] of[of "CHR 0x5C"] by simp_all
  consider "?n \<in> {34, 92}" | "?n \<in> {8, 9, 10, 12, 13}"
    | "?n \<notin> {34, 92}" "?n \<notin> {8, 9, 10, 12, 13}" "?n < 32 \<or> a \<and> ?n > 126"
    | "?n \<notin> {34, 92}" "\<not> (?n < 32 \<or> a \<and> ?n > 126)" by blast
  then show ?thesis
  proof cases
    case 1
    then have "c = CHR 0x22 \<or> c = CHR 0x5C" using eq by auto
    then show ?thesis by (auto simp: json_escape_def escape_value_def)
  next
    case 2
    then have "c \<in> {CHR 0x08, CHR 0x09, CHR 0x0A, CHR 0x0C, CHR 0x0D}"
      using of[of "CHR 0x08"] of[of "CHR 0x09"] of[of "CHR 0x0A"] of[of "CHR 0x0C"] of[of "CHR 0x0D"] by auto
    then show ?thesis by (auto simp: json_escape_def escape_value_def)
  next
    case 3
    then have "json_escape a c = hex_escape ?n" by (auto simp: json_escape_def Let_def)
    then show ?thesis by (simp add: parse_hex_escape)
  next
    case 4
    then have "json_escape a c = [c]" by (auto simp: json_escape_def Let_def)
    with 4 eq show ?thesis by simp
  qed
qed

lemma parse_string_text:
  "parse_string (concat (map (json_escape a) s) @ CHR 0x22 # u) = Inr (s, u)"
  by (induction s) (simp_all add: parse_escape prepend_def)

lemma parse_json_string:
  "parse_value rd depth (json_string a s @ u) = Inr (JStr s, u)"
  by (simp add: json_string_def parse_value.simps parse_string_text)

text \<open>Numbers\<close>

definition number_end :: "string \<Rightarrow> bool" where
  "number_end u \<longleftrightarrow> u = [] \<or> \<not> is_digit (hd u) \<and> hd u \<notin> set ''.eE''"

lemma take_digits:
  assumes "v = [] \<or> \<not> is_digit (hd v)" and "list_all is_digit ds"
  shows "takeWhile is_digit (ds @ v) = ds" "dropWhile is_digit (ds @ v) = v"
  using assms by (cases v; auto simp: list_all_iff takeWhile_append2 dropWhile_append2)+

lemma take_digits_append:
  assumes "u = [] \<or> \<not> is_digit (hd u)"
  shows "takeWhile is_digit (s @ u) = takeWhile is_digit s"
    "dropWhile is_digit (s @ u) = dropWhile is_digit s @ u"
proof -
  have "takeWhile is_digit (s @ u) = takeWhile is_digit s \<and> dropWhile is_digit (s @ u) = dropWhile is_digit s @ u"
    using assms by (induction s) (cases u; simp)+
  then show "takeWhile is_digit (s @ u) = takeWhile is_digit s"
    "dropWhile is_digit (s @ u) = dropWhile is_digit s @ u" by simp_all
qed

lemma scan_frac_append: "number_end u \<Longrightarrow> scan_frac (s @ u) = (fst (scan_frac s), snd (scan_frac s) @ u)"
  by (cases s; cases u) (auto simp: scan_frac_def number_end_def take_digits_append)

lemma scan_sign_append: "cs \<noteq> [] \<Longrightarrow> scan_sign (cs @ u) = (fst (scan_sign cs), snd (scan_sign cs) @ u)"
  by (cases cs) (auto simp: scan_sign_def)

lemma scan_exp_end: "number_end u \<Longrightarrow> scan_exp u = ([], u)"
  by (cases u) (auto simp: scan_exp_def number_end_def split: prod.splits)

lemma scan_exp_append:
  assumes "scan_exp s = (t, [])" and "number_end u"
  shows "scan_exp (s @ u) = (t, u)"
proof (cases s)
  case (Cons c cs)
  obtain sg ds where sg: "scan_sign cs = (sg, ds)" by fastforce
  have t: "c = CHR ''e'' \<or> c = CHR ''E''" "takeWhile is_digit ds \<noteq> []" "t = c # sg @ takeWhile is_digit ds"
    "dropWhile is_digit ds = []"
    using assms(1) Cons sg by (auto simp: scan_exp_def split: if_splits)
  then have "cs \<noteq> []" using sg by (auto simp: scan_sign_def)
  with sg have "scan_sign (cs @ u) = (sg, ds @ u)" by (simp add: scan_sign_append)
  with t Cons show ?thesis
    using take_digits_append[of u ds] assms(2)
    by (auto simp: scan_exp_def number_end_def)
next
  case Nil
  with assms(1) have "t = []" by (simp add: scan_exp_def)
  with Nil assms(2) show ?thesis by (simp add: scan_exp_end)
qed

lemma scan_int_append:
  assumes "scan_int s = Some (w, later)" and "u = [] \<or> \<not> is_digit (hd u)"
  shows "scan_int (s @ u) = Some (w, later @ u)"
  using assms take_digits_append[of u s] by (cases s) (auto simp: scan_int_def split: if_splits)

lemma scan_number_append:
  assumes "scan_number t = Some (neg, whole, ext, [])" and "number_end u"
  shows "scan_number (t @ u) = Some (neg, whole, ext, u)"
proof -
  let ?s = "if neg then List.tl t else t"
  have neg: "neg \<longleftrightarrow> t \<noteq> [] \<and> hd t = CHR ''-''"
    using assms(1) by (auto simp: scan_number_def Let_def split: option.splits prod.splits)
  have t: "t \<noteq> []" using assms(1) by (auto simp: scan_number_def scan_int_def)
  then have tu: "(if neg then List.tl (t @ u) else t @ u) = ?s @ u" by simp
  obtain s1 where i: "scan_int ?s = Some (whole, s1)"
    and later: "\<exists>point ex s2. scan_frac s1 = (point, s2) \<and> scan_exp s2 = (ex, []) \<and> ext = point @ ex"
    using assms(1) neg by (auto simp: scan_number_def Let_def split: option.splits prod.splits)
  then obtain point ex s2 where p: "scan_frac s1 = (point, s2)" "scan_exp s2 = (ex, [])" "ext = point @ ex"
    by blast
  have "scan_int (?s @ u) = Some (whole, s1 @ u)"
    by (rule scan_int_append[OF i]) (use assms(2) in \<open>auto simp: number_end_def\<close>)
  then show ?thesis
    using p assms(2) neg tu t
    by (simp add: scan_number_def Let_def scan_frac_append scan_exp_append)
qed

lemma scan_parts:
  "scan_int s = Some (w, later) \<Longrightarrow> s = w @ later"
  "scan_frac s = (w, later) \<Longrightarrow> s = w @ later"
  "scan_sign s = (w, later) \<Longrightarrow> s = w @ later"
  by (cases s; auto simp: scan_int_def scan_frac_def scan_sign_def split: if_splits)+

lemma scan_exp_parts: "scan_exp s = (w, later) \<Longrightarrow> s = w @ later"
proof (cases s)
  case (Cons c cs)
  obtain sg ds where sg: "scan_sign cs = (sg, ds)" by fastforce
  with Cons show "scan_exp s = (w, later) \<Longrightarrow> ?thesis"
    using scan_parts(3)[OF sg] by (auto simp: scan_exp_def split: if_splits)
qed (simp add: scan_exp_def)

lemma scan_number_parts:
  "scan_number s = Some (neg, whole, ext, later) \<Longrightarrow> s = (if neg then ''-'' else []) @ whole @ ext @ later"
  by (cases s) (auto simp: scan_number_def Let_def scan_int_def[of "[]"] split: option.splits prod.splits if_splits
      dest!: scan_parts scan_exp_parts)

lemma parse_value_number:
  assumes "scan_number (c # cs) = Some (neg, whole, ext, later)"
  shows "parse_value rd depth (c # cs) = parse_number rd (c # cs)"
proof -
  have "c = CHR ''-'' \<or> is_digit c"
    using assms by (auto simp: scan_number_def scan_int_def Let_def is_digit_def split: if_splits)
  then have "c \<notin> {CHR 0x22, CHR ''{'', CHR ''['', CHR ''n'', CHR ''t'', CHR ''f''}"
    by (auto simp: is_digit_def)
  then show ?thesis by (simp add: parse_value.simps drop_prefix_def)
qed

lemma parse_float_text:
  assumes "float_text t" and "number_end u"
  shows "parse_value rd depth (t @ u) = Inr (JFloat (jr_float rd t), u)"
proof -
  obtain neg whole ext where sc: "scan_number t = Some (neg, whole, ext, [])" "ext \<noteq> []"
    using assms(1) by (auto simp: float_text_def split: option.splits)
  then obtain c cs where t: "t = c # cs" by (cases t) (auto simp: scan_number_def scan_int_def)
  have all: "t = (if neg then ''-'' else []) @ whole @ ext"
    using scan_number_parts[OF sc(1)] by simp
  show ?thesis
    using scan_number_append[OF sc(1) assms(2)] sc(2) t
    by (simp add: parse_value_number parse_number_def Let_def all[symmetric])
qed

lemma nat_str_lead: "n > 0 \<Longrightarrow> hd (nat_str n) \<noteq> CHR ''0''"
proof (induction n rule: nat_str.induct)
  case (1 n)
  show ?case
  proof (cases "n < 10")
    case True
    with 1(2) have "of_char (digit_char n) \<noteq> (48 :: nat)" by (simp add: digit_char_digit)
    then have "digit_char n \<noteq> CHR ''0''" by auto
    with True show ?thesis by (subst nat_str.simps) simp
  next
    case False
    then have "hd (nat_str (n div 10)) \<noteq> CHR ''0''" using 1(1) by simp
    with False show ?thesis by (subst nat_str.simps) simp
  qed
qed

lemma nat_str_length: "n < 10 ^ k \<Longrightarrow> k > 0 \<Longrightarrow> length (nat_str n) \<le> k"
proof (induction k arbitrary: n)
  case (Suc k)
  show ?case
  proof (cases "n < 10")
    case False
    with Suc.prems(1) have "k > 0" "n div 10 < 10 ^ k" by (cases k, simp_all add: less_mult_imp_div_less mult.commute)
    with Suc.IH have "length (nat_str (n div 10)) \<le> k" by blast
    with False show ?thesis by (subst nat_str.simps) simp
  qed (subst nat_str.simps, simp)
qed simp

lemma scan_nat_str:
  assumes "number_end u"
  shows "scan_int (nat_str n @ u) = Some (nat_str n, u)"
proof (cases "n = 0")
  case True
  have "of_char (digit_char 0) = (of_char CHR ''0'' :: nat)" by (simp add: digit_char_def)
  then have "digit_char 0 = CHR ''0''" by (simp only: of_char_eq_iff)
  with True have "nat_str n = ''0''" by (simp add: nat_str.simps)
  then show ?thesis by (simp add: scan_int_def)
next
  case False
  have "list_all is_digit (nat_str n)" using nat_str_digits by blast
  moreover obtain c cs where "nat_str n = c # cs" by (cases "nat_str n") simp_all
  ultimately show ?thesis
    using False nat_str_lead[of n] assms take_digits[of u "nat_str n"]
    by (auto simp: scan_int_def number_end_def)
qed

lemma digits_limit: "\<bar>i\<bar> < 10 ^ k \<Longrightarrow> k > 0 \<Longrightarrow> length (nat_str (nat \<bar>i\<bar>)) \<le> k"
  by (rule nat_str_length) (simp_all add: nat_less_iff)

lemma parse_repr_int:
  assumes "repr_int i = Inr t" and "number_end u"
  shows "parse_value rd depth (t @ u) = Inr (JInt i, u)"
proof -
  let ?n = "nat \<bar>i\<bar>"
  have t: "t = (if i < 0 then ''-'' else []) @ nat_str ?n" and lim: "\<bar>i\<bar> < int_text_limit"
    using assms(1) by (auto simp: repr_int_def int_str_def not_le split: if_splits)
  have len: "length (nat_str ?n) \<le> 4300"
    by (rule digits_limit[OF lim[unfolded int_text_limit_def]]) simp
  have "hd (nat_str ?n) \<noteq> CHR ''-''"
    using nat_str_digits[of ?n] by (cases "nat_str ?n") (auto simp: is_digit_def)
  then have sc: "scan_number (t @ u) = Some (i < 0, nat_str ?n, [], u)"
    using scan_nat_str[OF assms(2), of ?n] assms(2) scan_frac_append[of u "[]"]
    by (auto simp: t scan_number_def Let_def scan_exp_end scan_frac_def[of "[]"])
  obtain c cs where cs: "t @ u = c # cs" by (cases "t @ u") (auto simp: t)
  have "digits_value (nat_str ?n) 0 = ?n" using nat_str_digits by blast
  with sc cs len show ?thesis
    by (auto simp: parse_value_number parse_number_def Let_def)
qed

lemma parse_huge_int:
  assumes "length ds > 4300" and "list_all is_digit ds" and "hd ds \<noteq> CHR ''0''" and "number_end u"
  shows "parse_value rd depth (ds @ u) = Inl (ValueError int_limit_message)"
proof -
  obtain c cs where ds: "ds = c # cs" using assms(1) by (cases ds) auto
  with assms(2) have "c \<noteq> CHR ''-''" by (auto simp: is_digit_def)
  moreover have "scan_int (ds @ u) = Some (ds, u)"
    using assms take_digits[of u ds] ds by (auto simp: scan_int_def number_end_def)
  ultimately have sc: "scan_number (c # cs @ u) = Some (False, ds, [], u)"
    using assms(4) scan_frac_append[of u "[]"] ds
    by (auto simp: scan_number_def Let_def scan_exp_end scan_frac_def[of "[]"])
  with ds assms(1) show ?thesis by (simp add: parse_value_number[OF sc] parse_number_def)
qed

text \<open>Arrays and objects, given that their parts can be read.\<close>

definition reads :: "json_reader \<Rightarrow> nat \<Rightarrow> string \<Rightarrow> json \<Rightarrow> bool" where
  "reads rd depth t x \<longleftrightarrow> starts t \<and> (\<forall>u. number_end u \<longrightarrow> parse_value rd depth (t @ u) = Inr (x, u))"

lemma readsD:
  assumes "reads rd depth t x"
  shows "starts t" "number_end u \<Longrightarrow> parse_value rd depth (t @ u) = Inr (x, u)"
  using assms by (auto simp: reads_def)

lemma number_end_delimiter:
  "number_end []" "number_end (CHR '']'' # u)" "number_end (CHR ''}'' # u)" "separates CHR '','' sep \<Longrightarrow> number_end (sep @ u)"
  by (auto simp: number_end_def is_digit_def separates_def split: list.splits)

lemma starts_value: "parse_value rd depth t = Inr r \<Longrightarrow> starts t"
proof (cases t)
  case (Cons c cs)
  have "parse_value rd depth (c # cs) = Inl (JSONDecodeError ''Expecting value'')"
    if "c \<in> {CHR '' '', CHR 0x09, CHR 0x0A, CHR 0x0D, CHR '']'', CHR ''}''}"
  proof -
    have "scan_number (c # cs) = None"
      using that by (auto simp: scan_number_def scan_int_def is_digit_def)
    moreover have "drop_prefix (p # ps) (c # cs) = None" if "p \<noteq> c" for p ps
      using that by (simp add: drop_prefix_def)
    ultimately show ?thesis
      using that by (elim insertE) (simp_all add: parse_value.simps parse_number_def)
  qed
  then show "parse_value rd depth t = Inr r \<Longrightarrow> ?thesis"
    by (auto simp: Cons starts_def is_json_space_def)
qed (simp add: parse_value.simps)

lemma readsI:
  assumes "\<And>u. number_end u \<Longrightarrow> parse_value rd depth (t @ u) = Inr (x, u)"
  shows "reads rd depth t x"
  using assms assms[of "[]"] by (auto simp: reads_def number_end_delimiter dest: starts_value)

lemma starts_digits: "list_all is_digit ds \<Longrightarrow> ds \<noteq> [] \<Longrightarrow> starts ds"
  by (cases ds) (auto simp: starts_def is_digit_def is_json_space_def)

lemma joined_Cons: "ts \<noteq> [] \<Longrightarrow> joined sep (t # ts) = t @ sep @ joined sep ts"
  by (cases ts) simp_all

lemma starts_joined: "ts \<noteq> [] \<Longrightarrow> starts (hd ts) \<Longrightarrow> starts (joined sep ts)"
  by (cases ts rule: remdups_adj.cases) (auto simp: starts_def)

lemma not_spaces [simp]: "\<not> is_json_space CHR '',''" "\<not> is_json_space CHR '':''"
  "\<not> is_json_space CHR '']''" "\<not> is_json_space CHR ''}''" "\<not> is_json_space CHR 0x22"
  by (simp_all add: is_json_space_def)

lemma parse_elements_joined:
  assumes "separates CHR '','' sep" and "xs \<noteq> []" and "\<And>x. x \<in> set xs \<Longrightarrow> reads rd depth (f x) (g x)"
  shows "parse_elements rd depth (joined sep (map f xs) @ CHR '']'' # u) = Inr (map g xs, u)"
  using assms(2,3)
proof (induction xs)
  case (Cons x xs)
  have x: "starts (f x)" "\<And>u. number_end u \<Longrightarrow> parse_value rd depth (f x @ u) = Inr (g x, u)"
    using Cons.prems(2) by (auto dest: readsD)
  show ?case
  proof (cases "xs = []")
    case True
    then show ?thesis
      using x(2)[of "CHR '']'' # u"]
      by (simp add: parse_elements.simps number_end_delimiter skip_space_def drop_prefix_def)
  next
    case False
    let ?later = "joined sep (map f xs)"
    have st: "starts ?later" using False Cons.prems(2)
      by (intro starts_joined) (cases xs; simp add: reads_def)+
    have IH: "parse_elements rd depth (?later @ CHR '']'' # u) = Inr (map g xs, u)"
      using Cons False by simp
    have "joined sep (map f (x # xs)) @ CHR '']'' # u = f x @ sep @ ?later @ CHR '']'' # u"
      using False by (simp add: joined_Cons)
    moreover have "parse_value rd depth (f x @ sep @ ?later @ CHR '']'' # u) = Inr (g x, sep @ ?later @ CHR '']'' # u)"
      using x(2) assms(1) by (simp add: number_end_delimiter)
    ultimately show ?thesis
      using skip_separator[OF assms(1) st] IH
      by (simp add: parse_elements.simps[of rd depth "f x @ v" for v])
  qed
qed simp

text \<open>A member as the writer puts it: its key, the separator and its value.\<close>

definition member_text :: "json_style \<Rightarrow> string \<Rightarrow> string \<Rightarrow> string" where
  "member_text st k t = json_string (js_ascii st) k @ js_key_sep st @ t"

lemma starts_member [simp]: "starts (member_text st k t)"
  by (simp add: member_text_def json_string_def starts_def)

lemma parse_members_joined:
  assumes "style_ok st" and "d \<noteq> []" and "distinct (map fst acc @ map fst d)"
    and "\<And>k x. (k, x) \<in> set d \<Longrightarrow> reads rd depth (f x) (g x)"
  shows "parse_members rd depth (joined (js_item_sep st) (map (\<lambda>(k, x). member_text st k (f x)) d) @ CHR ''}'' # u) acc
    = Inr (acc @ map (\<lambda>(k, x). (k, g x)) d, u)"
  using assms(2-4)
proof (induction d arbitrary: acc)
  case (Cons p d)
  obtain k x where p: "p = (k, x)" by (cases p)
  let ?sep = "js_item_sep st" and ?ks = "js_key_sep st"
  have seps: "separates CHR '','' ?sep" "separates CHR '':'' ?ks"
    using assms(1) by (simp_all add: style_ok_def)
  have x: "starts (f x)" "\<And>u. number_end u \<Longrightarrow> parse_value rd depth (f x @ u) = Inr (g x, u)"
    using Cons.prems(3)[of k x] p by (auto dest: readsD)
  have new: "AList.update k v acc = acc @ [(k, v)]" for v
    using Cons.prems(2) p by (intro map_of_None_update) (auto simp: map_of_eq_None_iff)
  have head: "parse_members rd depth (member_text st k (f x) @ v) acc =
      (case drop_prefix '','' (skip_space v) of
         Some w \<Rightarrow> parse_members rd depth (skip_space w) (acc @ [(k, g x)])
       | None \<Rightarrow> (case drop_prefix ''}'' (skip_space v) of
            Some later \<Rightarrow> Inr (acc @ [(k, g x)], later)
          | None \<Rightarrow> Inl (JSONDecodeError ''Expecting comma delimiter'')))"
    if "number_end v" for v
    using skip_separator[OF seps(2) x(1)] x(2)[OF that] new
    by (simp add: member_text_def json_string_def parse_members.simps[of _ _ "CHR 0x22 # w" for w]
        drop_prefix_def[of "[CHR 0x22]"] parse_string_text split: option.split)
  show ?case
  proof (cases "d = []")
    case True
    then show ?thesis
      using head[of "CHR ''}'' # u"] p by (simp add: number_end_delimiter skip_space_def drop_prefix_def)
  next
    case False
    let ?later = "joined ?sep (map (\<lambda>(k, x). member_text st k (f x)) d)"
    have st: "starts ?later" using False by (intro starts_joined) (cases d; auto)+
    have IH: "parse_members rd depth (?later @ CHR ''}'' # u) (acc @ [(k, g x)])
        = Inr (acc @ (k, g x) # map (\<lambda>(k, x). (k, g x)) d, u)"
      using Cons.IH[OF False, of "acc @ [(k, g x)]"] Cons.prems p by auto
    show ?thesis
      using head[of "?sep @ ?later @ CHR ''}'' # u"] skip_separator[OF seps(1) st] IH False p seps(1)
      by (simp add: joined_Cons number_end_delimiter)
  qed
qed simp

lemma parse_members_error:
  assumes "style_ok st" and "starts v" and "parse_value rd depth (v @ u) = Inl e"
  shows "parse_members rd depth (member_text st k v @ u) acc = Inl e"
proof -
  have "separates CHR '':'' (js_key_sep st)" using assms(1) by (simp add: style_ok_def)
  from skip_separator[OF this assms(2)] assms(3) show ?thesis
    by (simp add: member_text_def json_string_def parse_members.simps[of _ _ "CHR 0x22 # w" for w]
        drop_prefix_def[of "[CHR 0x22]"] parse_string_text)
qed

text \<open>The texts the writer computes, part by part.\<close>

lemma json_dumps_list_texts:
  "json_dumps_list st fr xs = Inr ts \<Longrightarrow>
     \<exists>f. ts = map f xs \<and> (\<forall>x \<in> set xs. json_dumps st fr x = Inr (f x))"
proof (induction xs arbitrary: ts)
  case (Cons x xs)
  then obtain t ts' where t: "json_dumps st fr x = Inr t" "json_dumps_list st fr xs = Inr ts'" "ts = t # ts'"
    by (auto simp: bindR_Inr_iff)
  obtain f where "ts' = map f xs" "\<forall>x \<in> set xs. json_dumps st fr x = Inr (f x)"
    using Cons.IH[OF t(2)] by blast
  with t show ?case
    by (intro exI[of _ "\<lambda>x. projr (json_dumps st fr x)"]) auto
qed simp

lemma json_dumps_items_texts:
  "json_dumps_items st fr d = Inr ts \<Longrightarrow>
     \<exists>f. ts = map (\<lambda>(k, x). (k, member_text st k (f x))) d \<and> (\<forall>(k, x) \<in> set d. json_dumps st fr x = Inr (f x))"
proof (induction d arbitrary: ts)
  case (Cons p d)
  obtain k x where p: "p = (k, x)" by (cases p)
  with Cons.prems obtain t ts' where t: "json_dumps st fr x = Inr t" "json_dumps_items st fr d = Inr ts'"
    "ts = (k, member_text st k t) # ts'"
    by (auto simp: bindR_Inr_iff member_text_def)
  obtain f where "ts' = map (\<lambda>(k, x). (k, member_text st k (f x))) d"
    "\<forall>(k, x) \<in> set d. json_dumps st fr x = Inr (f x)"
    using Cons.IH[OF t(2)] by blast
  with t p show ?case
    by (intro exI[of _ "\<lambda>x. projr (json_dumps st fr x)"]) force
qed simp

lemma key_order_map:
  "key_order st (map (\<lambda>(k, x). (k, h k x)) d) = map (\<lambda>(k, x). (k, h k x)) (key_order st d)"
proof -
  have "fst \<circ> (\<lambda>(k, x). (k, h k x)) = fst" by auto
  then show ?thesis by (simp add: key_order_def sort_key_map)
qed

lemma set_key_order [simp]: "set (key_order st d) = set d" "key_order st d = [] \<longleftrightarrow> d = []"
  by (auto simp: key_order_def simp flip: set_empty)

lemma distinct_key_order [simp]: "distinct (map fst (key_order st d)) \<longleftrightarrow> distinct (map fst d)"
proof -
  have "mset (map fst (key_order st d)) = mset (map fst d)" by (simp add: key_order_def)
  then show ?thesis by (metis mset_eq_imp_distinct_iff)
qed

text \<open>Reading a written value gives it back, whatever stands behind it.\<close>

lemma reads_dumps:
  assumes "style_ok st"
  shows "json_dumps st fr x = Inr t \<Longrightarrow> readable rd fr depth x \<Longrightarrow> reads rd depth t (canon st x)"
proof (induction x arbitrary: t depth)
  case JNull
  then show ?case by (auto intro!: readsI simp: parse_value.simps drop_prefix_def)
next
  case (JBool b)
  then show ?case by (auto intro!: readsI simp: parse_value.simps drop_prefix_def)
next
  case (JInt i)
  then show ?case by (auto intro!: readsI parse_repr_int)
next
  case (JFloat q)
  then show ?case using parse_float_text[of "fr q" _ rd depth] by (auto intro!: readsI)
next
  case (JStr s)
  then show ?case by (auto intro!: readsI parse_json_string)
next
  case (JList xs)
  from JList.prems(1) obtain ts where ts: "json_dumps_list st fr xs = Inr ts"
    "t = ''['' @ joined (js_item_sep st) ts @ '']''"
    by (auto simp: bindR_Inr_iff)
  obtain f where f: "ts = map f xs" "\<forall>x \<in> set xs. json_dumps st fr x = Inr (f x)"
    using json_dumps_list_texts[OF ts(1)] by blast
  have el: "reads rd (Suc depth) (f x) (canon st x)" if "x \<in> set xs" for x
    using JList.IH[OF that] f(2) that JList.prems(2) by (auto simp: list_all_iff)
  have sep: "separates CHR '','' (js_item_sep st)" using assms by (simp add: style_ok_def)
  show ?case
  proof (rule readsI)
    fix u
    let ?body = "joined (js_item_sep st) (map f xs)"
    show "parse_value rd depth (t @ u) = Inr (canon st (JList xs), u)"
    proof (cases "xs = []")
      case True
      then show ?thesis using ts(2) f(1) JList.prems(2)
        by (simp add: parse_value.simps drop_prefix_def skip_space_def)
    next
      case False
      then have "starts ?body"
        using el by (intro starts_joined) (cases xs; simp add: reads_def)+
      moreover have "parse_elements rd (Suc depth) (?body @ CHR '']'' # u) = Inr (map (canon st) xs, u)"
        using False el by (intro parse_elements_joined[OF sep])
      ultimately show ?thesis using ts(2) f(1) JList.prems(2)
        by (simp add: parse_value.simps starts_no_end)
    qed
  qed
next
  case (JDict d)
  from JDict.prems(1) obtain ts where ts: "json_dumps_items st fr d = Inr ts"
    "t = ''{'' @ joined (js_item_sep st) (map snd (key_order st ts)) @ ''}''"
    by (auto simp: bindR_Inr_iff)
  obtain f where f: "ts = map (\<lambda>(k, x). (k, member_text st k (f x))) d"
    "\<forall>(k, x) \<in> set d. json_dumps st fr x = Inr (f x)"
    using json_dumps_items_texts[OF ts(1)] by blast
  let ?d = "key_order st d"
  have el: "reads rd (Suc depth) (f x) (canon st x)" if "(k, x) \<in> set ?d" for k x
    using JDict.IH[of "(k, x)" x "f x" "Suc depth"] f(2) that JDict.prems(2)
    by (force simp: list_all_iff snds.simps)
  show ?case
  proof (rule readsI)
    fix u
    let ?body = "joined (js_item_sep st) (map (\<lambda>(k, x). member_text st k (f x)) ?d)"
    have t: "t = ''{'' @ ?body @ ''}''"
      unfolding ts(2) f(1) key_order_map by (simp add: comp_def split_def)
    show "parse_value rd depth (t @ u) = Inr (canon st (JDict d), u)"
    proof (cases "d = []")
      case True
      then show ?thesis using t JDict.prems(2)
        by (simp add: parse_value.simps drop_prefix_def skip_space_def key_order_def)
    next
      case False
      then have "?d \<noteq> []" by simp
      then obtain k x r where "?d = (k, x) # r" by (metis list.exhaust surj_pair)
      then have "starts ?body" by (intro starts_joined) simp_all
      moreover have "parse_members rd (Suc depth) (?body @ CHR ''}'' # u) []
          = Inr (map (\<lambda>(k, x). (k, canon st x)) ?d, u)"
        using False el JDict.prems(2)
          parse_members_joined[OF assms, of ?d "[]" rd "Suc depth" f "canon st" u]
        by simp
      ultimately show ?thesis using t JDict.prems(2)
        by (simp add: parse_value.simps starts_no_end key_order_map)
    qed
  qed
qed

lemma json_roundtrip:
  assumes "style_ok st" and "json_dumps st fr x = Inr t" and "readable rd fr 0 x"
  shows "json_loads rd t = Inr (canon st x)"
proof -
  have "reads rd 0 t (canon st x)" by (rule reads_dumps[OF assms])
  from readsD(1)[OF this] readsD(2)[OF this, of "[]"] show ?thesis
    using skip_starts[of t "[]"] by (simp add: json_loads_def number_end_delimiter skip_space_def)
qed

lemma payload_roundtrip:
  "style_ok st \<Longrightarrow> json_dumps st fr x = Inr t \<Longrightarrow> readable rd fr 0 x \<Longrightarrow>
     payload_loads rd (utf8 t) = Inr (canon st x)"
  by (simp add: payload_loads_def utf8_decode_utf8 json_roundtrip)

text \<open>The default style keeps the order of the keys.\<close>

lemma canon_column [simp]: "canon column_style x = x"
  by (induction x) (force simp: key_order_def column_style_def snds.simps intro!: map_idI)+

text \<open>Writing fails on integers of more than 4300 digits only.\<close>

lemma json_dumps_error:
  "json_dumps st fr x = Inl e \<Longrightarrow> \<exists>m. e = ValueError m"
  "json_dumps_list st fr xs = Inl e \<Longrightarrow> \<exists>m. e = ValueError m"
  "json_dumps_items st fr d = Inl e \<Longrightarrow> \<exists>m. e = ValueError m"
  by (induction st fr x and st fr xs and st fr d arbitrary: e and e and e
      rule: json_dumps_json_dumps_list_json_dumps_items.induct)
    (auto simp: bindR_def repr_int_error split: sum.splits)

end
