(* ===== verification/Sql_Tables.thy ===== *)
theory Sql_Tables
  imports Prelude
begin

text \<open>
  The part of SQLite that opening a store uses (\<^verbatim>\<open>src/liandanlu_native/storage.py\<close>): tables
  with declared columns, keys and checks, rows by column name, and the statements of the schema
  and its migrations. A statement either changes the database as a whole or raises and leaves
  it as it was. The type of a column is its declared type; values are stored as they are given.

  Shown here: every statement keeps a database well typed, that is every row has exactly the
  columns of its table and no null in a \<^verbatim>\<open>NOT NULL\<close> column, and says what becomes of the
  rows of the other tables.
\<close>

section \<open>Tables\<close>

datatype sql = SNull | SInt int | SReal pyfloat | SText string

datatype sql_type = INTEGER | REAL | TEXT

record column =
  cl_name :: string
  cl_type :: sql_type
  cl_not_null :: bool
  cl_default :: "sql option"

type_synonym sql_row = "(string \<times> sql) list"

text \<open>\<open>tb_keys\<close> are the primary key and the \<^verbatim>\<open>UNIQUE\<close> constraints, \<open>tb_checks\<close> equations.\<close>

record sql_table =
  tb_columns :: "column list"
  tb_keys :: "string list list"
  tb_checks :: "(string \<times> sql) list"
  tb_rows :: "sql_row list"

record sqldb =
  sq_tables :: "(string \<times> sql_table) list"
  sq_indexes :: "(string \<times> string \<times> (string \<times> bool) list) list"

text \<open>Column declarations, as the DDL writes them.\<close>

definition plain :: "string \<Rightarrow> sql_type \<Rightarrow> column" where
  "plain n ty = \<lparr>cl_name = n, cl_type = ty, cl_not_null = False, cl_default = None\<rparr>"

definition required :: "string \<Rightarrow> sql_type \<Rightarrow> column" where
  "required n ty = (plain n ty)\<lparr>cl_not_null := True\<rparr>"

definition required_default :: "string \<Rightarrow> sql_type \<Rightarrow> sql \<Rightarrow> column" where
  "required_default n ty v = (required n ty)\<lparr>cl_default := Some v\<rparr>"

definition new_table :: "column list \<Rightarrow> string list list \<Rightarrow> sql_table" where
  "new_table cs keys = \<lparr>tb_columns = cs, tb_keys = keys, tb_checks = [], tb_rows = []\<rparr>"

definition default_value :: "column \<Rightarrow> sql" where
  "default_value c = (case cl_default c of None \<Rightarrow> SNull | Some v \<Rightarrow> v)"

definition cell :: "sql_row \<Rightarrow> string \<Rightarrow> sql" where
  "cell r n = (case map_of r n of None \<Rightarrow> SNull | Some v \<Rightarrow> v)"

definition operational_error :: "string \<Rightarrow> exc" where
  "operational_error m = External ''OperationalError'' m"

definition get_table :: "sqldb \<Rightarrow> string \<Rightarrow> exc + sql_table" where
  "get_table d n = (case map_of (sq_tables d) n of
     None \<Rightarrow> Inl (operational_error (''no such table: '' @ n)) | Some t \<Rightarrow> Inr t)"

definition put_table :: "string \<Rightarrow> sql_table \<Rightarrow> sqldb \<Rightarrow> sqldb" where
  "put_table n t d = d\<lparr>sq_tables := AList.update n t (sq_tables d)\<rparr>"

section \<open>Rows\<close>

text \<open>The row of an insert: the given columns, the defaults of the others.\<close>

definition complete_row :: "sql_table \<Rightarrow> sql_row \<Rightarrow> sql_row" where
  "complete_row t r = map (\<lambda>c. (cl_name c, case map_of r (cl_name c) of
     Some v \<Rightarrow> v | None \<Rightarrow> default_value c)) (tb_columns t)"

definition same_key :: "string list \<Rightarrow> sql_row \<Rightarrow> sql_row \<Rightarrow> bool" where
  "same_key key r r' \<longleftrightarrow> list_all (\<lambda>n. cell r n = cell r' n \<and> cell r n \<noteq> SNull) key"

definition insert_row :: "sql_row \<Rightarrow> sql_table \<Rightarrow> exc + sql_table" where
  "insert_row r t =
     (let row = complete_row t r in
      if list_ex (\<lambda>c. cl_not_null c \<and> cell row (cl_name c) = SNull) (tb_columns t)
      then Inl (IntegrityError ''NOT NULL constraint failed'')
      else if list_ex (\<lambda>(n, v). cell row n \<notin> {SNull, v}) (tb_checks t)
      then Inl (IntegrityError ''CHECK constraint failed'')
      else if list_ex (\<lambda>key. list_ex (same_key key row) (tb_rows t)) (tb_keys t)
      then Inl (IntegrityError ''UNIQUE constraint failed'')
      else Inr (t\<lparr>tb_rows := tb_rows t @ [row]\<rparr>))"

text \<open>\<^verbatim>\<open>INSERT OR IGNORE\<close>\<close>

definition insert_or_ignore :: "sql_row \<Rightarrow> sql_table \<Rightarrow> sql_table" where
  "insert_or_ignore r t = (case insert_row r t of Inl _ \<Rightarrow> t | Inr t' \<Rightarrow> t')"

text \<open>One result row of a \<^verbatim>\<open>SELECT\<close>: each column is a column of the source or a literal.\<close>

definition select_row :: "(string \<times> (string + sql)) list \<Rightarrow> sql_row \<Rightarrow> sql_row" where
  "select_row sel r = map (\<lambda>(n, e). (n, case e of Inl c \<Rightarrow> cell r c | Inr v \<Rightarrow> v)) sel"

definition source_columns :: "(string \<times> (string + sql)) list \<Rightarrow> string list" where
  "source_columns sel = concat (map (\<lambda>(n, e). case e of Inl c \<Rightarrow> [c] | Inr v \<Rightarrow> []) sel)"

section \<open>Statements\<close>

datatype stmt =
    CreateIfNotExists string sql_table
  | CreateTable string sql_table
  | AddColumn string column
  | RenameTable string string
  | InsertSelect string "(string \<times> (string + sql)) list" string
  | DropTable string
  | DropIndexIfExists string
  | CreateIndexIfNotExists string string "(string \<times> bool) list"

definition add_column :: "column \<Rightarrow> sql_table \<Rightarrow> sql_table" where
  "add_column c t = t\<lparr>tb_columns := tb_columns t @ [c],
     tb_rows := map (\<lambda>r. r @ [(cl_name c, default_value c)]) (tb_rows t)\<rparr>"

fun exec :: "stmt \<Rightarrow> sqldb \<Rightarrow> exc + sqldb" where
  "exec (CreateIfNotExists n t) d =
     Inr (if map_of (sq_tables d) n \<noteq> None then d else put_table n (t\<lparr>tb_rows := []\<rparr>) d)"
| "exec (CreateTable n t) d =
     (if map_of (sq_tables d) n \<noteq> None then Inl (operational_error (''table '' @ n @ '' already exists''))
      else Inr (put_table n (t\<lparr>tb_rows := []\<rparr>) d))"
| "exec (AddColumn n c) d =
     bindR (get_table d n) (\<lambda>t.
       if cl_name c \<in> set (map cl_name (tb_columns t))
       then Inl (operational_error (''duplicate column name: '' @ cl_name c))
       else if cl_not_null c \<and> default_value c = SNull
       then Inl (operational_error ''Cannot add a NOT NULL column with default value NULL'')
       else Inr (put_table n (add_column c t) d))"
| "exec (RenameTable n m) d =
     bindR (get_table d n) (\<lambda>t.
       if map_of (sq_tables d) m \<noteq> None
       then Inl (operational_error (''there is already another table or index with this name: '' @ m))
       else Inr (d\<lparr>sq_tables := map (\<lambda>(k, t). (if k = n then m else k, t)) (sq_tables d),
         sq_indexes := map (\<lambda>(i, k, cs). (i, if k = n then m else k, cs)) (sq_indexes d)\<rparr>))"
| "exec (InsertSelect n sel m) d =
     bindR (get_table d n) (\<lambda>t.
     bindR (get_table d m) (\<lambda>src.
       if \<not> set (source_columns sel) \<subseteq> set (map cl_name (tb_columns src))
         \<or> \<not> set (map fst sel) \<subseteq> set (map cl_name (tb_columns t))
       then Inl (operational_error ''no such column'')
       else bindR (foldR (\<lambda>r. insert_row (select_row sel r)) (tb_rows src) t) (\<lambda>t'.
         Inr (put_table n t' d))))"
| "exec (DropTable n) d =
     bindR (get_table d n) (\<lambda>t. Inr (d\<lparr>sq_tables := filter (\<lambda>(k, _). k \<noteq> n) (sq_tables d),
       sq_indexes := filter (\<lambda>(_, k, _). k \<noteq> n) (sq_indexes d)\<rparr>))"
| "exec (DropIndexIfExists i) d = Inr (d\<lparr>sq_indexes := filter (\<lambda>(j, _). j \<noteq> i) (sq_indexes d)\<rparr>)"
| "exec (CreateIndexIfNotExists i n cs) d =
     bindR (get_table d n) (\<lambda>t.
       if \<not> fst ` set cs \<subseteq> set (map cl_name (tb_columns t)) then Inl (operational_error ''no such column'')
       else Inr (if list_ex (\<lambda>(j, _). j = i) (sq_indexes d) then d
         else d\<lparr>sq_indexes := sq_indexes d @ [(i, n, cs)]\<rparr>))"

text \<open>A script runs statement by statement; each is durable on its own.\<close>

definition run_steps :: "(sqldb \<Rightarrow> exc + sqldb) list \<Rightarrow> sqldb \<Rightarrow> exc + sqldb" where
  "run_steps fs = foldR (\<lambda>f. f) fs"

lemma run_steps_simps [simp]:
  "run_steps [] d = Inr d" "run_steps (f # fs) d = bindR (f d) (run_steps fs)"
  by (simp_all add: run_steps_def)

lemma run_steps_append: "run_steps (fs @ gs) d = bindR (run_steps fs d) (run_steps gs)"
  by (simp add: run_steps_def foldR_append)

text \<open>Whatever every step keeps, the steps together keep.\<close>

lemma run_steps_keeps:
  assumes "run_steps fs d = Inr d'" and "P d" and "\<And>f d d'. f \<in> set fs \<Longrightarrow> P d \<Longrightarrow> f d = Inr d' \<Longrightarrow> P d'"
  shows "P d'"
  using assms by (induction fs arbitrary: d) (auto simp: bindR_Inr_iff)

lemma run_steps_id: "(\<And>f. f \<in> set fs \<Longrightarrow> f d = Inr d) \<Longrightarrow> run_steps fs d = Inr d"
proof (induction fs)
  case (Cons f fs)
  have "f d = Inr d" by (rule Cons.prems) simp
  moreover have "run_steps fs d = Inr d" by (rule Cons.IH) (rule Cons.prems, simp)
  ultimately show ?case by simp
qed simp

section \<open>Well-typed databases\<close>

definition row_ok :: "sql_table \<Rightarrow> sql_row \<Rightarrow> bool" where
  "row_ok t r \<longleftrightarrow> map fst r = map cl_name (tb_columns t)
     \<and> (\<forall>c \<in> set (tb_columns t). cl_not_null c \<longrightarrow> cell r (cl_name c) \<noteq> SNull)"

definition table_ok :: "sql_table \<Rightarrow> bool" where
  "table_ok t \<longleftrightarrow> distinct (map cl_name (tb_columns t)) \<and> (\<forall>r \<in> set (tb_rows t). row_ok t r)"

definition db_ok :: "sqldb \<Rightarrow> bool" where
  "db_ok d \<longleftrightarrow> distinct (map fst (sq_tables d)) \<and> (\<forall>n t. map_of (sq_tables d) n = Some t \<longrightarrow> table_ok t)"

lemma db_okD: "db_ok d \<Longrightarrow> map_of (sq_tables d) n = Some t \<Longrightarrow> table_ok t"
  by (auto simp: db_ok_def)

lemma get_table_Inr [simp]: "get_table d n = Inr t \<longleftrightarrow> map_of (sq_tables d) n = Some t"
  by (auto simp: get_table_def split: option.splits)

lemma put_table_sel [simp]:
  "map_of (sq_tables (put_table n t d)) = (map_of (sq_tables d))(n \<mapsto> t)"
  "sq_indexes (put_table n t d) = sq_indexes d"
  by (simp_all add: put_table_def)

lemma map_of_drop_table:
  "map_of (filter (\<lambda>(k, _). k \<noteq> n) ts) k = (if k = n then None else map_of ts k)"
  by (induction ts) auto

lemma map_of_rename_table:
  assumes "map_of ts m = None" and "m \<noteq> n"
  shows "map_of (map (\<lambda>(k, t). (if k = n then m else k, t)) ts) k
    = (if k = m then map_of ts n else if k = n then None else map_of ts k)"
  using assms by (induction ts) (auto split: if_splits)

lemma put_table_ok: "db_ok d \<Longrightarrow> table_ok t \<Longrightarrow> db_ok (put_table n t d)"
  by (auto simp: db_ok_def put_table_def)

lemma cell_append: "cell (r @ r') n = (if n \<in> fst ` set r then cell r n else cell r' n)"
proof (cases "n \<in> fst ` set r")
  case True
  then obtain v where "map_of r n = Some v" by (metis map_of_eq_None_iff not_None_eq)
  with True show ?thesis by (simp add: cell_def map_add_def split: option.splits)
next
  case False
  then have "map_of r n = None" by (simp add: map_of_eq_None_iff)
  with False show ?thesis by (simp add: cell_def map_add_def split: option.splits)
qed

lemma cell_complete:
  assumes "distinct (map cl_name (tb_columns t))" and "c \<in> set (tb_columns t)"
  shows "cell (complete_row t r) (cl_name c) = (case map_of r (cl_name c) of Some v \<Rightarrow> v | None \<Rightarrow> default_value c)"
proof -
  let ?v = "\<lambda>c. case map_of r (cl_name c) of Some v \<Rightarrow> v | None \<Rightarrow> default_value c"
  have "distinct (map fst (complete_row t r))" using assms(1) by (simp add: complete_row_def comp_def)
  moreover have "(cl_name c, ?v c) \<in> set (complete_row t r)" using assms(2) by (auto simp: complete_row_def)
  ultimately have "map_of (complete_row t r) (cl_name c) = Some (?v c)" by (rule map_of_is_SomeI)
  then show ?thesis by (simp add: cell_def)
qed

lemma insert_row_ok:
  assumes "table_ok t" and "insert_row r t = Inr t'"
  shows "table_ok t'" "tb_columns t' = tb_columns t" "tb_keys t' = tb_keys t"
    "tb_checks t' = tb_checks t" "tb_rows t' = tb_rows t @ [complete_row t r]"
proof -
  have t': "t' = t\<lparr>tb_rows := tb_rows t @ [complete_row t r]\<rparr>"
    and nn: "\<forall>c \<in> set (tb_columns t). cl_not_null c \<longrightarrow> cell (complete_row t r) (cl_name c) \<noteq> SNull"
    using assms(2) by (auto simp: insert_row_def Let_def list_ex_iff split: if_splits)
  have "row_ok t (complete_row t r)" using nn by (simp add: row_ok_def complete_row_def comp_def)
  with assms(1) t' show "table_ok t'" by (auto simp: table_ok_def row_ok_def)
  show "tb_columns t' = tb_columns t" "tb_keys t' = tb_keys t" "tb_checks t' = tb_checks t"
    "tb_rows t' = tb_rows t @ [complete_row t r]"
    using t' by simp_all
qed

lemma insert_rows_ok:
  assumes "foldR (\<lambda>r. insert_row (f r)) rs t = Inr t'" and "table_ok t"
  shows "table_ok t' \<and> tb_columns t' = tb_columns t \<and> tb_rows t' = tb_rows t @ map (complete_row t \<circ> f) rs"
  using assms
proof (induction rs arbitrary: t)
  case (Cons r rs)
  then obtain t1 where t1: "insert_row (f r) t = Inr t1" "foldR (\<lambda>r. insert_row (f r)) rs t1 = Inr t'"
    by (auto simp: bindR_Inr_iff)
  note ok = insert_row_ok[OF Cons.prems(2) t1(1)]
  then have "complete_row t1 = complete_row t" by (simp add: complete_row_def fun_eq_iff)
  with Cons.IH[OF t1(2) ok(1)] ok show ?case by simp
qed simp

lemma add_column_ok:
  assumes "table_ok t" and "cl_name c \<notin> set (map cl_name (tb_columns t))"
    and "\<not> (cl_not_null c \<and> default_value c = SNull)"
  shows "table_ok (add_column c t)"
proof -
  have "row_ok (add_column c t) (r @ [(cl_name c, default_value c)])" if "row_ok t r" for r
  proof -
    have fst: "fst ` set r = cl_name ` set (tb_columns t)"
      using that by (metis row_ok_def list.set_map)
    with that assms(2,3) show ?thesis
      by (auto simp: row_ok_def add_column_def cell_append) (auto simp: cell_def)
  qed
  with assms show ?thesis by (auto simp: table_ok_def add_column_def)
qed

lemma exec_ok:
  assumes "db_ok d" and "exec s d = Inr d'"
    and "\<And>n t. s = CreateIfNotExists n t \<or> s = CreateTable n t \<Longrightarrow> distinct (map cl_name (tb_columns t))"
  shows "db_ok d'"
proof (cases s)
  case (CreateIfNotExists n t)
  with assms show ?thesis by (auto simp: table_ok_def intro!: put_table_ok)
next
  case (CreateTable n t)
  with assms show ?thesis by (auto simp: table_ok_def intro!: put_table_ok split: if_splits)
next
  case (AddColumn n c)
  with assms(1,2) show ?thesis
    by (auto simp: bindR_Inr_iff split: if_splits dest: db_okD intro!: put_table_ok add_column_ok)
next
  case (RenameTable n m)
  then obtain t where "map_of (sq_tables d) n = Some t" "map_of (sq_tables d) m = None"
    and d': "sq_tables d' = map (\<lambda>(k, t). (if k = n then m else k, t)) (sq_tables d)"
    using assms(2) by (auto simp: bindR_Inr_iff split: if_splits)
  then have "m \<notin> fst ` set (sq_tables d)" by (simp add: map_of_eq_None_iff)
  with assms(1) d' have "distinct (map fst (sq_tables d'))"
    by (auto simp: db_ok_def distinct_map comp_def split_def inj_on_def)
  moreover have "table_ok u" if "(k, u) \<in> set (sq_tables d')" for k u
    using that d' assms(1) by (auto simp: db_ok_def)
  ultimately show ?thesis by (auto simp: db_ok_def dest: map_of_SomeD)
next
  case (InsertSelect n sel m)
  with assms(1,2) show ?thesis
    by (auto simp: bindR_Inr_iff split: if_splits dest: db_okD insert_rows_ok intro!: put_table_ok)
next
  case (DropTable n)
  with assms show ?thesis
    by (auto simp: bindR_Inr_iff db_ok_def distinct_map_filter map_of_drop_table split: if_splits)
next
  case (DropIndexIfExists i)
  with assms show ?thesis by (auto simp: db_ok_def)
next
  case (CreateIndexIfNotExists i n cs)
  with assms show ?thesis by (auto simp: bindR_Inr_iff db_ok_def split: if_splits)
qed

end
