(* ===== verification/Migration.thy ===== *)
theory Migration
  imports Sql_Tables
begin

text \<open>
  Opening a store: the schema and the migrations of \<^verbatim>\<open>SQLiteStore._migrate\<close>
  (\<^verbatim>\<open>src/liandanlu_native/storage.py\<close>). Each statement of a script and each
  \<^verbatim>\<open>ALTER TABLE\<close> is durable on its own, because \<^verbatim>\<open>executescript\<close> commits first and runs in
  autocommit mode, so a crash leaves the database after some of the steps.

  Shown here: opening is idempotent; it keeps every row of an older database and gives it the
  declared defaults; it moves the memories of an older schema to the workspace \<open>legacy\<close>; an
  opening that was interrupted while it created tables or added columns is completed by the
  next one, but one that was interrupted while it moved the memories loses them.
\<close>

section \<open>The schema\<close>

definition tasks_schema :: sql_table where
  "tasks_schema = new_table
    [plain ''task_id'' TEXT, required_default ''workspace_id'' TEXT (SText ''default''),
     required ''goal'' TEXT, required ''success_criteria_json'' TEXT, required ''constraints_json'' TEXT,
     required ''state'' TEXT, required ''desired_state'' TEXT, required ''phase'' TEXT,
     required ''priority'' INTEGER, required ''lane'' TEXT, plain ''queued_at'' REAL,
     plain ''wait_reason'' TEXT, required_default ''budget_json'' TEXT (SText ''{}''),
     required ''revision'' INTEGER]
    [[''task_id'']]"

definition operations_schema :: sql_table where
  "operations_schema = new_table
    [plain ''operation_id'' TEXT, required ''task_id'' TEXT,
     required_default ''workspace_id'' TEXT (SText ''default''), required ''capability'' TEXT,
     required ''action'' TEXT, required ''object_refs_json'' TEXT, required ''arguments_json'' TEXT,
     required ''risk_class'' TEXT, required_default ''required_permission'' TEXT (SText ''read''),
     required_default ''idempotency_mode'' TEXT (SText ''RECONCILABLE''), required ''state'' TEXT,
     required ''expected_revisions_json'' TEXT, required ''evidence_json'' TEXT,
     plain ''result_json'' TEXT, plain ''error'' TEXT, plain ''task_lease_owner_id'' TEXT,
     plain ''task_lease_generation'' INTEGER, plain ''resource_lease_owner_id'' TEXT,
     plain ''resource_lease_generation'' INTEGER]
    [[''operation_id'']]"

definition world_entities_schema :: sql_table where
  "world_entities_schema = new_table
    [plain ''entity_id'' TEXT, required ''entity_type'' TEXT, required ''workspace_id'' TEXT,
     required ''locator'' TEXT, required ''version'' INTEGER, required ''status'' TEXT,
     required ''metadata_json'' TEXT, required ''permissions_json'' TEXT]
    [[''entity_id'']]"

definition world_relations_schema :: sql_table where
  "world_relations_schema = new_table
    [required ''source_id'' TEXT, required ''relation_type'' TEXT, required ''target_id'' TEXT]
    [[''source_id'', ''relation_type'', ''target_id'']]"

definition world_revisions_schema :: sql_table where
  "world_revisions_schema = (new_table
    [plain ''singleton'' INTEGER, required ''global_revision'' INTEGER, required ''desktop'' INTEGER,
     required ''workspace'' INTEGER, required ''browser'' INTEGER, required ''media'' INTEGER,
     required ''tasks'' INTEGER]
    [[''singleton'']])\<lparr>tb_checks := [(''singleton'', SInt 1)]\<rparr>"

definition workspace_revisions_schema :: sql_table where
  "workspace_revisions_schema = new_table
    [plain ''workspace_id'' TEXT, required ''revision'' INTEGER] [[''workspace_id'']]"

definition task_leases_schema :: sql_table where
  "task_leases_schema = new_table
    [plain ''task_id'' TEXT, required ''owner_id'' TEXT, required ''generation'' INTEGER,
     required ''claimed_at'' REAL, required ''lease_until'' REAL]
    [[''task_id'']]"

definition resource_leases_schema :: sql_table where
  "resource_leases_schema = new_table
    [plain ''task_id'' TEXT, required ''owner_id'' TEXT, required ''generation'' INTEGER,
     required ''cpu_units'' INTEGER, required ''memory_mb'' INTEGER, required ''gpu_units'' INTEGER,
     required ''exclusive_labels_json'' TEXT, required ''claimed_at'' REAL, required ''lease_until'' REAL]
    [[''task_id'']]"

definition event_outbox_schema :: sql_table where
  "event_outbox_schema = new_table
    [plain ''outbox_id'' INTEGER, plain ''event_id'' TEXT,
     required_default ''workspace_id'' TEXT (SText ''system''), required ''event_type'' TEXT,
     required_default ''actor'' TEXT (SText ''engine''), plain ''task_id'' TEXT, plain ''operation_id'' TEXT,
     required_default ''object_refs_json'' TEXT (SText ''[]''), required ''payload_json'' TEXT,
     plain ''causation_id'' TEXT, plain ''correlation_id'' TEXT,
     required_default ''occurred_at'' REAL (SInt 0), required_default ''learning_allowed'' INTEGER (SInt 1),
     required_default ''dispatched'' INTEGER (SInt 0)]
    [[''outbox_id'']]"

definition events_schema :: sql_table where
  "events_schema = new_table
    [plain ''sequence'' INTEGER, required ''event_id'' TEXT,
     required_default ''workspace_id'' TEXT (SText ''system''), required ''event_type'' TEXT,
     required ''actor'' TEXT, plain ''task_id'' TEXT, plain ''operation_id'' TEXT,
     required ''object_refs_json'' TEXT, required ''payload_json'' TEXT, plain ''causation_id'' TEXT,
     plain ''correlation_id'' TEXT, required ''occurred_at'' REAL, required ''observed_at'' REAL,
     required ''learning_allowed'' INTEGER]
    [[''sequence''], [''event_id'']]"

definition consumer_cursors_schema :: sql_table where
  "consumer_cursors_schema = new_table
    [plain ''consumer_id'' TEXT, required ''sequence'' INTEGER] [[''consumer_id'']]"

definition consumer_receipts_schema :: sql_table where
  "consumer_receipts_schema = new_table
    [required ''consumer_id'' TEXT, required ''event_id'' TEXT, required ''sequence'' INTEGER,
     required ''status'' TEXT, plain ''result_ref'' TEXT]
    [[''consumer_id'', ''event_id'']]"

definition memory_records_schema :: sql_table where
  "memory_records_schema = new_table
    [plain ''memory_id'' TEXT, required ''workspace_id'' TEXT, required ''kind'' TEXT,
     required ''key'' TEXT, required ''value_json'' TEXT, required ''scope'' TEXT,
     required ''source_event_ids_json'' TEXT, required ''confidence'' REAL, required ''revision'' INTEGER,
     plain ''supersedes'' TEXT, plain ''strategy_state'' TEXT, required ''support_count'' INTEGER,
     required_default ''support_event_ids_json'' TEXT (SText ''[]'')]
    [[''memory_id''], [''workspace_id'', ''scope'', ''key'', ''kind'', ''revision'']]"

definition schema :: "(string \<times> sql_table) list" where
  "schema = [(''tasks'', tasks_schema), (''operations'', operations_schema),
     (''world_entities'', world_entities_schema), (''world_relations'', world_relations_schema),
     (''world_revisions'', world_revisions_schema), (''workspace_revisions'', workspace_revisions_schema),
     (''task_leases'', task_leases_schema), (''resource_leases'', resource_leases_schema),
     (''event_outbox'', event_outbox_schema), (''events'', events_schema),
     (''consumer_cursors'', consumer_cursors_schema), (''consumer_receipts'', consumer_receipts_schema),
     (''memory_records'', memory_records_schema)]"

section \<open>Migrations\<close>

definition columns :: "sqldb \<Rightarrow> string \<Rightarrow> string list" where
  "columns d n = (case map_of (sq_tables d) n of None \<Rightarrow> [] | Some t \<Rightarrow> map cl_name (tb_columns t))"

definition ensure_column :: "string \<Rightarrow> column \<Rightarrow> sqldb \<Rightarrow> exc + sqldb" where
  "ensure_column n c d = (if cl_name c \<in> set (columns d n) then Inr d else exec (AddColumn n c) d)"

definition added_columns :: "(string \<times> column) list" where
  "added_columns =
     [(''tasks'', required_default ''workspace_id'' TEXT (SText ''default'')),
      (''tasks'', plain ''queued_at'' REAL), (''tasks'', plain ''wait_reason'' TEXT),
      (''tasks'', required_default ''budget_json'' TEXT (SText ''{}'')),
      (''operations'', required_default ''workspace_id'' TEXT (SText ''default'')),
      (''operations'', required_default ''required_permission'' TEXT (SText ''read'')),
      (''operations'', required_default ''idempotency_mode'' TEXT (SText ''RECONCILABLE'')),
      (''operations'', plain ''task_lease_owner_id'' TEXT),
      (''operations'', plain ''task_lease_generation'' INTEGER),
      (''operations'', plain ''resource_lease_owner_id'' TEXT),
      (''operations'', plain ''resource_lease_generation'' INTEGER),
      (''event_outbox'', required_default ''workspace_id'' TEXT (SText ''system'')),
      (''events'', required_default ''workspace_id'' TEXT (SText ''system'')),
      (''event_outbox'', plain ''event_id'' TEXT),
      (''event_outbox'', required_default ''actor'' TEXT (SText ''engine'')),
      (''event_outbox'', required_default ''object_refs_json'' TEXT (SText ''[]'')),
      (''event_outbox'', plain ''causation_id'' TEXT), (''event_outbox'', plain ''correlation_id'' TEXT),
      (''event_outbox'', required_default ''occurred_at'' REAL (SInt 0)),
      (''event_outbox'', required_default ''learning_allowed'' INTEGER (SInt 1))]"

text \<open>The script that moves the memories of an older schema, and what replaces it otherwise.\<close>

definition legacy_selection :: "(string \<times> (string + sql)) list" where
  "legacy_selection =
     [(''memory_id'', Inl ''memory_id''), (''workspace_id'', Inr (SText ''legacy'')), (''kind'', Inl ''kind''),
      (''key'', Inl ''key''), (''value_json'', Inl ''value_json''), (''scope'', Inl ''scope''),
      (''source_event_ids_json'', Inl ''source_event_ids_json''), (''confidence'', Inl ''confidence''),
      (''revision'', Inl ''revision''), (''supersedes'', Inl ''supersedes''),
      (''strategy_state'', Inl ''strategy_state''), (''support_count'', Inl ''support_count''),
      (''support_event_ids_json'', Inr (SText ''[]''))]"

definition memory_script :: "stmt list" where
  "memory_script =
     [RenameTable ''memory_records'' ''memory_records_legacy'',
      CreateTable ''memory_records'' memory_records_schema,
      InsertSelect ''memory_records'' legacy_selection ''memory_records_legacy'',
      DropTable ''memory_records_legacy'']"

definition memory_index :: "stmt list" where
  "memory_index =
     [DropIndexIfExists ''idx_memory_latest'',
      CreateIndexIfNotExists ''idx_memory_latest'' ''memory_records''
        [(''workspace_id'', False), (''scope'', False), (''key'', False), (''kind'', False), (''revision'', True)]]"

definition memory_steps :: "sqldb \<Rightarrow> (sqldb \<Rightarrow> exc + sqldb) list" where
  "memory_steps d =
     (if ''workspace_id'' \<notin> set (columns d ''memory_records'') then map exec memory_script
      else [ensure_column ''memory_records'' (required_default ''support_event_ids_json'' TEXT (SText ''[]''))])
     @ map exec memory_index"

definition migrate_memory_schema :: "sqldb \<Rightarrow> exc + sqldb" where
  "migrate_memory_schema d = run_steps (memory_steps d) d"

text \<open>
  \<^verbatim>\<open>INSERT OR IGNORE INTO workspace_revisions SELECT DISTINCT workspace_id, COALESCE(...)\<close>:
  one row per workspace of an entity, in the order of the entities. SQLite looks up the columns
  before it touches a row and raises \<^verbatim>\<open>OperationalError\<close> when one is missing. A column of the
  inner query belongs to \<^verbatim>\<open>world_revisions\<close> or, when that table has none of the name, to
  \<^verbatim>\<open>world_entities\<close>.
\<close>

definition column_names :: "sql_table \<Rightarrow> string set" where
  "column_names t = set (map cl_name (tb_columns t))"

definition scoped_cell :: "sql_table \<Rightarrow> sql_row \<Rightarrow> sql_row \<Rightarrow> string \<Rightarrow> sql" where
  "scoped_cell inner r outer n = (if n \<in> column_names inner then cell r n else cell outer n)"

definition revision_for :: "sql_table \<Rightarrow> sql_row \<Rightarrow> sql" where
  "revision_for revisions entity =
     (case filter (\<lambda>r. scoped_cell revisions r entity ''singleton'' = SInt 1) (tb_rows revisions) of
        [] \<Rightarrow> SInt 0
      | r # _ \<Rightarrow> (let v = scoped_cell revisions r entity ''workspace'' in if v = SNull then SInt 0 else v))"

definition workspace_seeds :: "sql_table \<Rightarrow> sql_table \<Rightarrow> (sql \<times> sql) list" where
  "workspace_seeds revisions entities = List.rev (remdups (List.rev
     (map (\<lambda>e. (cell e ''workspace_id'', revision_for revisions e)) (tb_rows entities))))"

definition seed_workspaces :: "sqldb \<Rightarrow> exc + sqldb" where
  "seed_workspaces d =
     bindR (get_table d ''workspace_revisions'') (\<lambda>t.
     bindR (get_table d ''world_entities'') (\<lambda>entities.
     bindR (get_table d ''world_revisions'') (\<lambda>revisions.
       if \<not> {''workspace_id'', ''revision''} \<subseteq> column_names t
         \<or> ''workspace_id'' \<notin> column_names entities
         \<or> \<not> {''singleton'', ''workspace''} \<subseteq> column_names revisions \<union> column_names entities
       then Inl (operational_error ''no such column'')
       else Inr (put_table ''workspace_revisions''
         (fold (\<lambda>(w, v). insert_or_ignore [(''workspace_id'', w), (''revision'', v)])
           (workspace_seeds revisions entities) t) d))))"

text \<open>The tables and columns come first; the rest looks at the memory table they leave.\<close>

definition schema_steps :: "(sqldb \<Rightarrow> exc + sqldb) list" where
  "schema_steps = map (\<lambda>(n, t). exec (CreateIfNotExists n t)) schema
     @ map (\<lambda>(n, c). ensure_column n c) added_columns"

definition migrate :: "sqldb \<Rightarrow> exc + sqldb" where
  "migrate d =
     bindR (run_steps schema_steps d) (\<lambda>d1.
     bindR (migrate_memory_schema d1) seed_workspaces)"

text \<open>A crash: the database after the first \<open>n\<close> of all steps.\<close>

definition crashed :: "nat \<Rightarrow> sqldb \<Rightarrow> exc + sqldb" where
  "crashed n d =
     (if n \<le> length schema_steps then run_steps (take n schema_steps) d
      else bindR (run_steps schema_steps d) (\<lambda>d1.
        run_steps (take (n - length schema_steps) (memory_steps d1)) d1))"

section \<open>Tables and columns\<close>

text \<open>What the added columns make of a table of the given name.\<close>

definition add_missing :: "column \<Rightarrow> sql_table \<Rightarrow> sql_table" where
  "add_missing c t = (if cl_name c \<in> set (map cl_name (tb_columns t)) then t else add_column c t)"

definition upgraded :: "string \<Rightarrow> sql_table \<Rightarrow> sql_table" where
  "upgraded n t = fold (\<lambda>(m, c). if m = n then add_missing c else id) added_columns t"

lemma ensure_column_run:
  assumes "map_of (sq_tables d) n = Some t" and "\<not> (cl_not_null c \<and> default_value c = SNull)"
  shows "\<exists>d'. ensure_column n c d = Inr d' \<and> sq_indexes d' = sq_indexes d
    \<and> map_of (sq_tables d') = (map_of (sq_tables d))(n \<mapsto> add_missing c t)"
proof -
  have g: "get_table d n = Inr t" using assms(1) by simp
  show ?thesis using assms by (auto simp: g ensure_column_def columns_def add_missing_def)
qed

lemma ensure_columns_run:
  assumes "\<And>n c. (n, c) \<in> set cs \<Longrightarrow> map_of (sq_tables d) n \<noteq> None \<and> \<not> (cl_not_null c \<and> default_value c = SNull)"
  shows "\<exists>d'. run_steps (map (\<lambda>(n, c). ensure_column n c) cs) d = Inr d' \<and> sq_indexes d' = sq_indexes d
    \<and> (\<forall>n. map_of (sq_tables d') n =
         map_option (fold (\<lambda>(m, c). if m = n then add_missing c else id) cs) (map_of (sq_tables d) n))"
  using assms
proof (induction cs arbitrary: d)
  case (Cons p cs)
  obtain n c where p: "p = (n, c)" by (cases p)
  with Cons.prems[of n c] obtain t where t: "map_of (sq_tables d) n = Some t" "\<not> (cl_not_null c \<and> default_value c = SNull)"
    by auto
  obtain d1 where d1: "ensure_column n c d = Inr d1" "sq_indexes d1 = sq_indexes d"
    "map_of (sq_tables d1) = (map_of (sq_tables d))(n \<mapsto> add_missing c t)"
    using ensure_column_run[OF t] by blast
  have "\<And>m c. (m, c) \<in> set cs \<Longrightarrow> map_of (sq_tables d1) m \<noteq> None \<and> \<not> (cl_not_null c \<and> default_value c = SNull)"
    using Cons.prems d1(3) by (metis fun_upd_apply list.set_intros(2) option.distinct(1))
  from Cons.IH[OF this] obtain d' where d': "run_steps (map (\<lambda>(n, c). ensure_column n c) cs) d1 = Inr d'"
    "sq_indexes d' = sq_indexes d1"
    "\<forall>n. map_of (sq_tables d') n =
         map_option (fold (\<lambda>(m, c). if m = n then add_missing c else id) cs) (map_of (sq_tables d1) n)"
    by blast
  have "map_of (sq_tables d') m =
      map_option (fold (\<lambda>(m', c). if m' = m then add_missing c else id) (p # cs)) (map_of (sq_tables d) m)" for m
    by (cases "m = n") (simp_all add: d'(3) d1(3) t(1) p)
  then have "\<forall>m. map_of (sq_tables d') m =
      map_option (fold (\<lambda>(m', c). if m' = m then add_missing c else id) (p # cs)) (map_of (sq_tables d) m)" by blast
  moreover have "run_steps (map (\<lambda>(n, c). ensure_column n c) (p # cs)) d = Inr d'"
    using d'(1) d1(1) p by simp
  ultimately show ?case using d'(2) d1(2) by metis
qed (simp add: option.map_id)

lemma create_tables_run:
  assumes "distinct (map fst ts)" and "\<forall>(n, t) \<in> set ts. tb_rows t = []"
  shows "\<exists>d'. run_steps (map (\<lambda>(n, t). exec (CreateIfNotExists n t)) ts) d = Inr d' \<and> sq_indexes d' = sq_indexes d
    \<and> map_of (sq_tables d') = map_of ts ++ map_of (sq_tables d)"
  using assms
proof (induction ts arbitrary: d)
  case (Cons p ts)
  obtain n t where p: "p = (n, t)" by (cases p)
  with Cons.prems(2) have rows: "t\<lparr>tb_rows := []\<rparr> = t" by simp
  let ?d1 = "if map_of (sq_tables d) n \<noteq> None then d else put_table n t d"
  have "distinct (map fst ts)" using Cons.prems(1) by simp
  moreover have "\<forall>(n, t) \<in> set ts. tb_rows t = []" using Cons.prems(2) by simp
  ultimately obtain d' where d': "run_steps (map (\<lambda>(n, t). exec (CreateIfNotExists n t)) ts) ?d1 = Inr d'"
    "sq_indexes d' = sq_indexes ?d1" "map_of (sq_tables d') = map_of ts ++ map_of (sq_tables ?d1)"
    using Cons.IH[of ?d1] by blast
  have "n \<notin> fst ` set ts" using Cons.prems(1) p by simp
  then have "map_of ts n = None" by (simp add: map_of_eq_None_iff)
  then have "map_of ts ++ map_of (sq_tables ?d1) = map_of (p # ts) ++ map_of (sq_tables d)"
    using p by (auto simp: fun_eq_iff map_add_def split: option.splits)
  moreover have "exec (CreateIfNotExists n t) d = Inr ?d1" using rows by simp
  then have "run_steps (map (\<lambda>(n, t). exec (CreateIfNotExists n t)) (p # ts)) d = Inr d'"
    using d'(1) p by (simp del: exec.simps)
  moreover have "sq_indexes ?d1 = sq_indexes d" by simp
  ultimately show ?case using d'(2,3) by metis
qed simp

lemmas schema_tables = new_table_def tasks_schema_def operations_schema_def world_entities_schema_def
  world_relations_schema_def world_revisions_schema_def workspace_revisions_schema_def task_leases_schema_def
  resource_leases_schema_def event_outbox_schema_def events_schema_def consumer_cursors_schema_def
  consumer_receipts_schema_def memory_records_schema_def

lemmas column_defs = required_default_def required_def plain_def default_value_def

lemma schema_distinct: "distinct (map fst schema)"
  by (simp add: schema_def)

lemma schema_empty: "\<forall>(n, t) \<in> set schema. tb_rows t = []"
proof -
  have "list_all (\<lambda>(n, t). tb_rows t = []) schema"
    by (simp add: schema_def schema_tables)
  then show ?thesis by (simp add: list_all_iff)
qed

lemma added_columns_ok:
  assumes "(n, c) \<in> set added_columns"
  shows "map_of schema n \<noteq> None" "\<not> (cl_not_null c \<and> default_value c = SNull)"
proof -
  have "list_all (\<lambda>(n, c). map_of schema n \<noteq> None \<and> \<not> (cl_not_null c \<and> default_value c = SNull)) added_columns"
    by (simp add: added_columns_def schema_def column_defs)
  with assms show "map_of schema n \<noteq> None" "\<not> (cl_not_null c \<and> default_value c = SNull)"
    by (auto simp: list_all_iff)
qed

text \<open>The steps of the schema never fail, and say what becomes of every table.\<close>

lemma schema_steps_run:
  "\<exists>d1. run_steps schema_steps d = Inr d1 \<and> sq_indexes d1 = sq_indexes d
    \<and> (\<forall>n. map_of (sq_tables d1) n = map_option (upgraded n) ((map_of schema ++ map_of (sq_tables d)) n))"
proof -
  obtain d0 where d0: "run_steps (map (\<lambda>(n, t). exec (CreateIfNotExists n t)) schema) d = Inr d0"
    "sq_indexes d0 = sq_indexes d" "map_of (sq_tables d0) = map_of schema ++ map_of (sq_tables d)"
    using create_tables_run[OF schema_distinct schema_empty] by blast
  have "map_of (sq_tables d0) n \<noteq> None \<and> \<not> (cl_not_null c \<and> default_value c = SNull)"
    if "(n, c) \<in> set added_columns" for n c
    using added_columns_ok[OF that] d0(3) by (auto simp: map_add_None)
  from ensure_columns_run[OF this] obtain d1 where d1:
    "run_steps (map (\<lambda>(n, c). ensure_column n c) added_columns) d0 = Inr d1" "sq_indexes d1 = sq_indexes d0"
    "\<forall>n. map_of (sq_tables d1) n = map_option (upgraded n) (map_of (sq_tables d0) n)"
    unfolding upgraded_def by blast
  have "run_steps schema_steps d = Inr d1"
    using d0(1) d1(1) by (simp add: schema_steps_def run_steps_append)
  with d0 d1 show ?thesis by simp
qed

lemma fold_add_missing:
  "\<exists>cs. fold (\<lambda>(m, c). if m = n then add_missing c else id) xs t =
      t\<lparr>tb_columns := tb_columns t @ cs, tb_rows := map (\<lambda>r. r @ map (\<lambda>c. (cl_name c, default_value c)) cs) (tb_rows t)\<rparr>
    \<and> (\<forall>c \<in> set cs. (n, c) \<in> set xs \<and> cl_name c \<notin> set (map cl_name (tb_columns t)))"
proof (induction xs arbitrary: t)
  case Nil
  show ?case by (intro exI[of _ "[]"]) simp
next
  case (Cons p xs)
  obtain m c where p: "p = (m, c)" by (cases p)
  show ?case
  proof (cases "m = n \<and> cl_name c \<notin> set (map cl_name (tb_columns t))")
    case False
    then have "fold (\<lambda>(m, c). if m = n then add_missing c else id) (p # xs) t =
        fold (\<lambda>(m, c). if m = n then add_missing c else id) xs t"
      by (auto simp: p add_missing_def)
    with Cons.IH[of t] show ?thesis by auto
  next
    case True
    obtain cs where cs: "fold (\<lambda>(m, c). if m = n then add_missing c else id) xs (add_column c t) =
        (add_column c t)\<lparr>tb_columns := tb_columns (add_column c t) @ cs,
          tb_rows := map (\<lambda>r. r @ map (\<lambda>c. (cl_name c, default_value c)) cs) (tb_rows (add_column c t))\<rparr>"
      "\<forall>c' \<in> set cs. (n, c') \<in> set xs \<and> cl_name c' \<notin> set (map cl_name (tb_columns (add_column c t)))"
      using Cons.IH[of "add_column c t"] by blast
    with True p show ?thesis
      by (intro exI[of _ "c # cs"]) (auto simp: add_missing_def add_column_def comp_def)
  qed
qed

lemma upgraded_memory [simp]:
  "upgraded ''memory_records'' t = t" "upgraded ''memory_records_legacy'' t = t"
  "upgraded ''world_entities'' t = t" "upgraded ''workspace_revisions'' t = t" "upgraded ''world_revisions'' t = t"
  by (simp_all add: upgraded_def added_columns_def)

section \<open>The memory table\<close>

lemma memory_index_run:
  assumes "run_steps (map exec memory_index) d = Inr d'"
  shows "sq_tables d' = sq_tables d"
    "\<exists>cs. sq_indexes d' = filter (\<lambda>(j, _). j \<noteq> ''idx_memory_latest'') (sq_indexes d) @ [(''idx_memory_latest'', ''memory_records'', cs)]
       \<and> cs = [(''workspace_id'', False), (''scope'', False), (''key'', False), (''kind'', False), (''revision'', True)]"
proof -
  have "list_ex (\<lambda>(j, _). j = i) (filter (\<lambda>(j, _). j \<noteq> i) ix) = False"
    for i and ix :: "(string \<times> string \<times> (string \<times> bool) list) list"
    by (auto simp: list_ex_iff)
  with assms show "sq_tables d' = sq_tables d"
    "\<exists>cs. sq_indexes d' = filter (\<lambda>(j, _). j \<noteq> ''idx_memory_latest'') (sq_indexes d) @ [(''idx_memory_latest'', ''memory_records'', cs)]
       \<and> cs = [(''workspace_id'', False), (''scope'', False), (''key'', False), (''kind'', False), (''revision'', True)]"
    by (auto simp: memory_index_def bindR_Inr_iff split: if_splits)
qed

lemma memory_index_again:
  assumes "run_steps (map exec memory_index) d = Inr d'" and "sq_indexes e = sq_indexes d'"
    and "map_of (sq_tables e) ''memory_records'' = map_of (sq_tables d') ''memory_records''"
  shows "run_steps (map exec memory_index) e = Inr e"
proof -
  let ?ix = "''idx_memory_latest''"
  obtain cs where cs: "sq_indexes d' = filter (\<lambda>(j, _). j \<noteq> ?ix) (sq_indexes d) @ [(?ix, ''memory_records'', cs)]"
    "cs = [(''workspace_id'', False), (''scope'', False), (''key'', False), (''kind'', False), (''revision'', True)]"
    using memory_index_run(2)[OF assms(1)] by blast
  let ?e = "e\<lparr>sq_indexes := filter (\<lambda>(j, _). j \<noteq> ?ix) (sq_indexes d)\<rparr>"
  have drop: "exec (DropIndexIfExists ?ix) e = Inr ?e"
    using assms(2) cs(1) by (simp add: split_def)
  obtain t where t: "map_of (sq_tables d') ''memory_records'' = Some t" "fst ` set cs \<subseteq> set (map cl_name (tb_columns t))"
    using assms(1) cs(2) memory_index_run(1)[OF assms(1)]
    by (auto simp: memory_index_def bindR_Inr_iff simp del: get_table_Inr split: if_splits) auto
  have "list_ex (\<lambda>(j, _). j = ?ix) (filter (\<lambda>(j, _). j \<noteq> ?ix) (sq_indexes d)) = False"
    by (auto simp: list_ex_iff)
  moreover have "get_table ?e ''memory_records'' = Inr t" using t(1) assms(3) by (simp add: get_table_def)
  ultimately have "exec (CreateIndexIfNotExists ?ix ''memory_records'' cs) ?e = Inr (?e\<lparr>sq_indexes := sq_indexes d'\<rparr>)"
    using t(2) cs(1) by (simp del: get_table_Inr)
  with drop show ?thesis
    using assms(2) by (simp add: memory_index_def cs(2) del: exec.simps)
qed

lemma memory_script_run:
  assumes "run_steps (map exec memory_script) d = Inr d'" and "map_of (sq_tables d) ''memory_records'' = Some t"
  shows "map_of (sq_tables d) ''memory_records_legacy'' = None"
    "\<exists>t'. foldR (\<lambda>r. insert_row (select_row legacy_selection r)) (tb_rows t) memory_records_schema = Inr t'
      \<and> map_of (sq_tables d') = (map_of (sq_tables d))(''memory_records'' \<mapsto> t')"
proof -
  let ?mr = "''memory_records''" and ?old = "''memory_records_legacy''"
  obtain d1 d2 d3 where steps: "exec (RenameTable ?mr ?old) d = Inr d1" "exec (CreateTable ?mr memory_records_schema) d1 = Inr d2"
    "exec (InsertSelect ?mr legacy_selection ?old) d2 = Inr d3" "exec (DropTable ?old) d3 = Inr d'"
    using assms(1) by (auto simp: memory_script_def bindR_Inr_iff simp del: exec.simps)
  show none: "map_of (sq_tables d) ?old = None"
    using steps(1) by (auto simp: bindR_Inr_iff split: if_splits)
  then have d1: "map_of (sq_tables d1) k = (if k = ?old then Some t else if k = ?mr then None else map_of (sq_tables d) k)" for k
    using steps(1) assms(2) map_of_rename_table[OF none, of ?mr k] by (auto simp: bindR_Inr_iff split: if_splits)
  have "memory_records_schema\<lparr>tb_rows := []\<rparr> = memory_records_schema" by (simp add: schema_tables)
  with steps(2) have d2: "map_of (sq_tables d2) = (map_of (sq_tables d1))(?mr \<mapsto> memory_records_schema)"
    by (auto split: if_splits)
  have "map_of (sq_tables d2) ?mr = Some memory_records_schema" "map_of (sq_tables d2) ?old = Some t"
    using d1 d2 by auto
  with steps(3) obtain t' where t': "foldR (\<lambda>r. insert_row (select_row legacy_selection r)) (tb_rows t) memory_records_schema = Inr t'"
    "map_of (sq_tables d3) = (map_of (sq_tables d2))(?mr \<mapsto> t')"
    by (auto simp: bindR_Inr_iff split: if_splits)
  have "map_of (sq_tables d') k = ((map_of (sq_tables d))(?mr \<mapsto> t')) k" for k
    using steps(4) t'(2) d1 d2 none by (auto simp: bindR_Inr_iff map_of_drop_table)
  with t'(1) show "\<exists>t'. foldR (\<lambda>r. insert_row (select_row legacy_selection r)) (tb_rows t) memory_records_schema = Inr t'
      \<and> map_of (sq_tables d') = (map_of (sq_tables d))(?mr \<mapsto> t')" by blast
qed

lemma memory_records_ok: "table_ok memory_records_schema"
  by (simp add: table_ok_def schema_tables column_defs)

text \<open>What the steps for the memory table leave of every table.\<close>

lemma memory_steps_run:
  assumes "migrate_memory_schema d = Inr d'" and "map_of (sq_tables d) ''memory_records'' = Some t"
  shows "\<exists>t'. map_of (sq_tables d') = (map_of (sq_tables d))(''memory_records'' \<mapsto> t')
    \<and> ''workspace_id'' \<in> set (map cl_name (tb_columns t')) \<and> ''support_event_ids_json'' \<in> set (map cl_name (tb_columns t'))
    \<and> (if ''workspace_id'' \<in> set (map cl_name (tb_columns t))
       then t' = add_missing (required_default ''support_event_ids_json'' TEXT (SText ''[]'')) t
       else tb_rows t' = map (\<lambda>r. complete_row memory_records_schema (select_row legacy_selection r)) (tb_rows t))"
    "\<exists>d1. run_steps (map exec memory_index) d1 = Inr d'"
proof -
  have cols: "columns d ''memory_records'' = map cl_name (tb_columns t)" using assms(2) by (simp add: columns_def)
  obtain d1 where d1: "run_steps (if ''workspace_id'' \<notin> set (map cl_name (tb_columns t)) then map exec memory_script
      else [ensure_column ''memory_records'' (required_default ''support_event_ids_json'' TEXT (SText ''[]''))]) d = Inr d1"
    "run_steps (map exec memory_index) d1 = Inr d'"
    using assms(1) unfolding migrate_memory_schema_def memory_steps_def cols by (auto simp: run_steps_append bindR_Inr_iff)
  note ix = memory_index_run[OF d1(2)]
  show "\<exists>d1. run_steps (map exec memory_index) d1 = Inr d'" using d1(2) by blast
  show "\<exists>t'. map_of (sq_tables d') = (map_of (sq_tables d))(''memory_records'' \<mapsto> t')
    \<and> ''workspace_id'' \<in> set (map cl_name (tb_columns t')) \<and> ''support_event_ids_json'' \<in> set (map cl_name (tb_columns t'))
    \<and> (if ''workspace_id'' \<in> set (map cl_name (tb_columns t))
       then t' = add_missing (required_default ''support_event_ids_json'' TEXT (SText ''[]'')) t
       else tb_rows t' = map (\<lambda>r. complete_row memory_records_schema (select_row legacy_selection r)) (tb_rows t))"
  proof (cases "''workspace_id'' \<in> set (map cl_name (tb_columns t))")
    case True
    let ?c = "required_default ''support_event_ids_json'' TEXT (SText ''[]'')"
    have "\<not> (cl_not_null ?c \<and> default_value ?c = SNull)" by (simp add: column_defs)
    from ensure_column_run[OF assms(2) this] d1(1) True
    have "map_of (sq_tables d1) = (map_of (sq_tables d))(''memory_records'' \<mapsto> add_missing ?c t)" by auto
    with True ix(1) show ?thesis
      by (intro exI[of _ "add_missing ?c t"]) (auto simp: add_missing_def add_column_def column_defs)
  next
    case False
    with d1(1) have "run_steps (map exec memory_script) d = Inr d1" by simp
    from memory_script_run(2)[OF this assms(2)] obtain t' where
      t': "foldR (\<lambda>r. insert_row (select_row legacy_selection r)) (tb_rows t) memory_records_schema = Inr t'"
      "map_of (sq_tables d1) = (map_of (sq_tables d))(''memory_records'' \<mapsto> t')" by blast
    from insert_rows_ok[OF t'(1) memory_records_ok] have "tb_columns t' = tb_columns memory_records_schema"
      "tb_rows t' = map (\<lambda>r. complete_row memory_records_schema (select_row legacy_selection r)) (tb_rows t)"
      by (simp_all add: comp_def schema_tables)
    with False t'(2) ix(1) show ?thesis
      by (intro exI[of _ t']) (auto simp: schema_tables column_defs)
  qed
qed

section \<open>Opening again\<close>

lemma update_id: "map_of d k = Some v \<Longrightarrow> AList.update k v d = d"
  by (induction d) auto

text \<open>An insert that was ignored, or that was done, is ignored from then on.\<close>

definition refused :: "sql_row \<Rightarrow> sql_table \<Rightarrow> bool" where
  "refused r t \<longleftrightarrow> (\<exists>e. insert_row r t = Inl e)"

lemma refused_ignored: "refused r t \<Longrightarrow> insert_or_ignore r t = t"
  by (auto simp: refused_def insert_or_ignore_def)

lemma complete_row_rows [simp]: "complete_row (t\<lparr>tb_rows := rs\<rparr>) = complete_row t"
  by (simp add: complete_row_def fun_eq_iff)

lemma refused_grows:
  assumes "refused r t"
  shows "refused r (insert_or_ignore r' t)"
proof (cases "insert_row r' t")
  case (Inr t')
  then have "t' = t\<lparr>tb_rows := tb_rows t @ [complete_row t r']\<rparr>"
    by (auto simp: insert_row_def Let_def split: if_splits)
  with Inr assms show ?thesis
    by (auto simp: refused_def insert_or_ignore_def insert_row_def Let_def list_ex_iff split: if_splits)
qed (use assms in \<open>simp add: insert_or_ignore_def\<close>)

lemma done_refused:
  assumes "key \<in> set (tb_keys t)" and "\<forall>n \<in> set key. cell (complete_row t r) n \<noteq> SNull"
  shows "refused r (insert_or_ignore r t)"
proof (cases "insert_row r t")
  case (Inr t')
  then have "t' = t\<lparr>tb_rows := tb_rows t @ [complete_row t r]\<rparr>"
    by (auto simp: insert_row_def Let_def split: if_splits)
  moreover have "same_key key (complete_row t r) (complete_row t r)"
    using assms(2) by (simp add: same_key_def list_all_iff)
  ultimately show ?thesis
    using Inr assms(1) by (auto simp: refused_def insert_or_ignore_def insert_row_def Let_def list_ex_iff)
qed (auto simp: refused_def insert_or_ignore_def)

lemma insert_or_ignore_sel [simp]:
  "tb_columns (insert_or_ignore r t) = tb_columns t" "tb_keys (insert_or_ignore r t) = tb_keys t"
  by (auto simp: insert_or_ignore_def insert_row_def Let_def split: sum.splits if_splits)

lemma fold_insert_sel [simp]:
  "tb_columns (fold (\<lambda>w. insert_or_ignore (f w)) ws t) = tb_columns t"
  "tb_keys (fold (\<lambda>w. insert_or_ignore (f w)) ws t) = tb_keys t"
  by (induction ws arbitrary: t) simp_all

lemma fold_refused: "refused r t \<Longrightarrow> refused r (fold (\<lambda>w. insert_or_ignore (f w)) ws t)"
  by (induction ws arbitrary: t) (simp_all add: refused_grows)

lemma fold_insert_again:
  assumes "\<forall>w \<in> set ws. \<exists>key \<in> set (tb_keys t). \<forall>n \<in> set key. cell (complete_row t (f w)) n \<noteq> SNull"
  shows "\<forall>w \<in> set ws. refused (f w) (fold (\<lambda>w. insert_or_ignore (f w)) ws t)"
  using assms
proof (induction ws arbitrary: t)
  case (Cons w ws)
  let ?t = "insert_or_ignore (f w) t"
  have same: "complete_row ?t = complete_row t" by (simp add: complete_row_def fun_eq_iff)
  have "refused (f w) (fold (\<lambda>w. insert_or_ignore (f w)) ws ?t)"
    using Cons.prems by (auto intro: fold_refused done_refused)
  moreover have "\<forall>w \<in> set ws. refused (f w) (fold (\<lambda>w. insert_or_ignore (f w)) ws ?t)"
    using Cons.IH[of ?t] Cons.prems by (simp add: same)
  ultimately show ?case by simp
qed simp

lemma fold_all_refused: "\<forall>w \<in> set ws. refused (f w) t \<Longrightarrow> fold (\<lambda>w. insert_or_ignore (f w)) ws t = t"
  by (induction ws) (simp_all add: refused_ignored)

text \<open>
  The two tables the last step looks at have never been changed by a migration: a database
  that has them has them as declared, up to their rows.
\<close>

definition as_declared :: "string \<Rightarrow> sqldb \<Rightarrow> bool" where
  "as_declared n d \<longleftrightarrow> (case (map_of (sq_tables d) n, map_of schema n) of
     (Some t, Some u) \<Rightarrow> tb_columns t = tb_columns u \<and> tb_keys t = tb_keys u | _ \<Rightarrow> True)"

definition known_version :: "sqldb \<Rightarrow> bool" where
  "known_version d \<longleftrightarrow> as_declared ''workspace_revisions'' d \<and> as_declared ''world_entities'' d"

lemma fold_insert_rows: "\<exists>rows. fold (\<lambda>w. insert_or_ignore (f w)) ws t = t\<lparr>tb_rows := rows\<rparr>"
proof (induction ws arbitrary: t)
  case Nil
  show ?case by (intro exI[of _ "tb_rows t"]) simp
next
  case (Cons w ws)
  have "\<exists>rows. insert_or_ignore (f w) t = t\<lparr>tb_rows := rows\<rparr>"
    by (cases "insert_row (f w) t")
      (auto simp: insert_or_ignore_def insert_row_def Let_def split: if_splits intro: exI[of _ "tb_rows t"])
  with Cons.IH[of "insert_or_ignore (f w) t"] show ?case by auto
qed

text \<open>The row of a seed, and the seeding as one equation.\<close>

definition seed_row :: "sql \<times> sql \<Rightarrow> sql_row" where
  "seed_row p = [(''workspace_id'', fst p), (''revision'', snd p)]"

lemma seed_workspaces_Inr:
  assumes "seed_workspaces d = Inr d'"
  obtains t e u where "map_of (sq_tables d) ''workspace_revisions'' = Some t"
    "map_of (sq_tables d) ''world_entities'' = Some e" "map_of (sq_tables d) ''world_revisions'' = Some u"
    "{''workspace_id'', ''revision''} \<subseteq> column_names t" "''workspace_id'' \<in> column_names e"
    "{''singleton'', ''workspace''} \<subseteq> column_names u \<union> column_names e"
    "d' = put_table ''workspace_revisions'' (fold (\<lambda>p. insert_or_ignore (seed_row p)) (workspace_seeds u e) t) d"
  using assms by (auto simp: seed_workspaces_def bindR_Inr_iff seed_row_def split_def split: if_splits)

lemma seed_workspaces_InrI:
  assumes "map_of (sq_tables d) ''workspace_revisions'' = Some t"
    "map_of (sq_tables d) ''world_entities'' = Some e" "map_of (sq_tables d) ''world_revisions'' = Some u"
    "{''workspace_id'', ''revision''} \<subseteq> column_names t" "''workspace_id'' \<in> column_names e"
    "{''singleton'', ''workspace''} \<subseteq> column_names u \<union> column_names e"
  shows "seed_workspaces d =
    Inr (put_table ''workspace_revisions'' (fold (\<lambda>p. insert_or_ignore (seed_row p)) (workspace_seeds u e) t) d)"
proof -
  have "get_table d ''workspace_revisions'' = Inr t" "get_table d ''world_entities'' = Inr e"
    "get_table d ''world_revisions'' = Inr u"
    using assms(1-3) by simp_all
  with assms(4-6) show ?thesis
    by (simp add: seed_workspaces_def seed_row_def split_def del: get_table_Inr)
qed

lemma seed_workspaces_run:
  assumes "seed_workspaces d = Inr d'"
  shows "\<exists>t. map_of (sq_tables d) ''workspace_revisions'' = Some t
    \<and> (\<exists>rows. map_of (sq_tables d') = (map_of (sq_tables d))(''workspace_revisions'' \<mapsto> t\<lparr>tb_rows := rows\<rparr>))
    \<and> sq_indexes d' = sq_indexes d"
proof -
  obtain t e u where d': "map_of (sq_tables d) ''workspace_revisions'' = Some t"
    "d' = put_table ''workspace_revisions'' (fold (\<lambda>p. insert_or_ignore (seed_row p)) (workspace_seeds u e) t) d"
    by (rule seed_workspaces_Inr[OF assms])
  moreover obtain rows where "fold (\<lambda>p. insert_or_ignore (seed_row p)) (workspace_seeds u e) t = t\<lparr>tb_rows := rows\<rparr>"
    using fold_insert_rows by blast
  ultimately show ?thesis by auto
qed

lemma seed_again:
  assumes "seed_workspaces d = Inr d'" and "db_ok d" and "known_version d"
  shows "seed_workspaces d' = Inr d'"
proof -
  let ?wr = "''workspace_revisions''"
  obtain t e u where t: "map_of (sq_tables d) ?wr = Some t"
    and e: "map_of (sq_tables d) ''world_entities'' = Some e" and u: "map_of (sq_tables d) ''world_revisions'' = Some u"
    and cols: "{''workspace_id'', ''revision''} \<subseteq> column_names t" "''workspace_id'' \<in> column_names e"
      "{''singleton'', ''workspace''} \<subseteq> column_names u \<union> column_names e"
    and d': "d' = put_table ?wr (fold (\<lambda>p. insert_or_ignore (seed_row p)) (workspace_seeds u e) t) d"
    by (rule seed_workspaces_Inr[OF assms(1)])
  let ?seeds = "workspace_seeds u e"
  let ?t = "fold (\<lambda>p. insert_or_ignore (seed_row p)) ?seeds t"
  have tc: "tb_columns t = tb_columns workspace_revisions_schema" "tb_keys t = [[''workspace_id'']]"
    and ec: "tb_columns e = tb_columns world_entities_schema"
    using assms(3) t e by (simp_all add: known_version_def as_declared_def schema_def) (simp add: schema_tables)
  have named: "fst p \<noteq> SNull" if "p \<in> set ?seeds" for p
  proof -
    from that obtain r where r: "r \<in> set (tb_rows e)" "fst p = cell r ''workspace_id''"
      by (auto simp: workspace_seeds_def)
    from db_okD[OF assms(2) e] r(1) have "row_ok e r" by (simp add: table_ok_def)
    with ec r(2) show ?thesis by (auto simp: row_ok_def schema_tables column_defs)
  qed
  have key: "cell (complete_row t (seed_row p)) ''workspace_id'' = fst p" for p
    using tc(1) by (simp add: complete_row_def cell_def seed_row_def schema_tables column_defs)
  have ref: "\<forall>p \<in> set ?seeds. refused (seed_row p) ?t"
    by (rule fold_insert_again) (use tc(2) key named in auto)
  have again: "fold (\<lambda>p. insert_or_ignore (seed_row p)) ?seeds ?t = ?t" by (rule fold_all_refused[OF ref])
  have "column_names ?t = column_names t" by (simp add: column_names_def)
  with cols have "seed_workspaces d' = Inr (put_table ?wr (fold (\<lambda>p. insert_or_ignore (seed_row p)) ?seeds ?t) d')"
    using e u by (intro seed_workspaces_InrI) (simp_all add: d')
  moreover have "put_table ?wr ?t d' = d'" by (simp add: d' put_table_def)
  ultimately show ?thesis by (simp add: again)
qed

text \<open>
  A step of the schema leaves behind what makes it the identity, and no other step of the
  schema takes that away.
\<close>

datatype schema_step = Table string sql_table | Column string column

fun step_of :: "schema_step \<Rightarrow> sqldb \<Rightarrow> exc + sqldb" where
  "step_of (Table n t) = exec (CreateIfNotExists n t)"
| "step_of (Column n c) = ensure_column n c"

fun step_done :: "schema_step \<Rightarrow> sqldb \<Rightarrow> bool" where
  "step_done (Table n t) d \<longleftrightarrow> map_of (sq_tables d) n \<noteq> None"
| "step_done (Column n c) d \<longleftrightarrow> cl_name c \<in> set (columns d n)"

definition schema_plan :: "schema_step list" where
  "schema_plan = map (\<lambda>(n, t). Table n t) schema @ map (\<lambda>(n, c). Column n c) added_columns"

lemma schema_steps_plan: "schema_steps = map step_of schema_plan"
  by (simp add: schema_steps_def schema_plan_def comp_def split_def)

lemma settled_id: "step_done p d \<Longrightarrow> step_of p d = Inr d"
  by (cases p) (auto simp: ensure_column_def)

lemma step_settles: "step_of p d = Inr d' \<Longrightarrow> step_done p d'"
  by (cases p) (auto simp: ensure_column_def columns_def add_column_def bindR_Inr_iff split: if_splits)

lemma columns_grow:
  assumes "step_of q d = Inr d'"
  shows "set (columns d n) \<subseteq> set (columns d' n)" "map_of (sq_tables d) n \<noteq> None \<Longrightarrow> map_of (sq_tables d') n \<noteq> None"
proof -
  have add: "columns (put_table m (add_column c t) d) n =
      (if n = m then columns d n @ [cl_name c] else columns d n)" if "map_of (sq_tables d) m = Some t" for m t c
    using that by (simp add: columns_def add_column_def)
  show "set (columns d n) \<subseteq> set (columns d' n)"
  proof (cases q)
    case (Table m t)
    have "columns (put_table m t d) n = (if n = m then map cl_name (tb_columns t) else columns d n)" for t
      by (simp add: columns_def)
    moreover have "columns d m = []" if "map_of (sq_tables d) m = None" using that by (simp add: columns_def)
    ultimately show ?thesis using assms Table by auto
  next
    case (Column m c)
    with assms show ?thesis by (auto simp: ensure_column_def bindR_Inr_iff add split: if_splits)
  qed
  show "map_of (sq_tables d) n \<noteq> None \<Longrightarrow> map_of (sq_tables d') n \<noteq> None"
    using assms by (cases q) (auto simp: ensure_column_def bindR_Inr_iff split: if_splits)
qed

lemma settled_stays: "step_done p d \<Longrightarrow> step_of q d = Inr d' \<Longrightarrow> step_done p d'"
  by (cases p) (use columns_grow[of q d d'] in \<open>auto dest: subsetD\<close>)

lemma steps_settle:
  assumes "run_steps (map step_of ps) d = Inr d'"
  shows "(\<forall>p \<in> set ps. step_done p d') \<and> (\<forall>p. step_done p d \<longrightarrow> step_done p d')"
  using assms
proof (induction ps arbitrary: d)
  case (Cons q ps)
  then obtain d1 where d1: "step_of q d = Inr d1" "run_steps (map step_of ps) d1 = Inr d'"
    by (auto simp: bindR_Inr_iff)
  from Cons.IH[OF d1(2)] step_settles[OF d1(1)] settled_stays[OF _ d1(1)] show ?case by auto
qed simp

lemma settled_steps_id: "\<forall>p \<in> set ps. step_done p d \<Longrightarrow> run_steps (map step_of ps) d = Inr d"
  by (rule run_steps_id) (auto simp: settled_id)

lemma resume_schema:
  assumes "run_steps (take n schema_steps) d = Inr d1"
  shows "run_steps schema_steps d1 = run_steps schema_steps d"
proof -
  have "\<forall>p \<in> set (take n schema_plan). step_done p d1"
    using steps_settle[of "take n schema_plan" d d1] assms by (simp add: schema_steps_plan take_map)
  then have "run_steps (take n schema_steps) d1 = Inr d1"
    by (simp add: schema_steps_plan take_map settled_steps_id)
  moreover have "run_steps schema_steps x = bindR (run_steps (take n schema_steps) x) (run_steps (drop n schema_steps))" for x
    by (simp flip: run_steps_append)
  ultimately show ?thesis using assms by simp
qed

text \<open>What opening a store does to the tables, step by step.\<close>

lemma migrate_run:
  assumes "migrate d = Inr d'"
  obtains d1 d2 t where "run_steps schema_steps d = Inr d1" "migrate_memory_schema d1 = Inr d2"
    "seed_workspaces d2 = Inr d'" "sq_indexes d1 = sq_indexes d"
    "\<And>n. map_of (sq_tables d1) n = map_option (upgraded n) ((map_of schema ++ map_of (sq_tables d)) n)"
    "map_of (sq_tables d1) ''memory_records'' = Some t"
    "t = (case map_of (sq_tables d) ''memory_records'' of None \<Rightarrow> memory_records_schema | Some t \<Rightarrow> t)"
proof -
  obtain d1 d2 where d: "run_steps schema_steps d = Inr d1" "migrate_memory_schema d1 = Inr d2" "seed_workspaces d2 = Inr d'"
    using assms by (auto simp: migrate_def bindR_Inr_iff)
  have ix: "sq_indexes d1 = sq_indexes d"
    and tb: "map_of (sq_tables d1) n = map_option (upgraded n) ((map_of schema ++ map_of (sq_tables d)) n)" for n
    using schema_steps_run[of d] d(1) by auto
  have "map_of (sq_tables d1) ''memory_records'' =
      Some (case map_of (sq_tables d) ''memory_records'' of None \<Rightarrow> memory_records_schema | Some t \<Rightarrow> t)"
    by (simp add: tb map_add_def schema_def split: option.split)
  from that[OF d ix tb this refl] show thesis .
qed

lemma ensure_column_db_ok: "db_ok d \<Longrightarrow> ensure_column n c d = Inr d' \<Longrightarrow> db_ok d'"
  using exec_ok[of d "AddColumn n c" d'] by (auto simp: ensure_column_def simp del: exec.simps split: if_splits)

lemma schema_steps_db_ok:
  assumes "run_steps schema_steps d = Inr d'" and "db_ok d"
  shows "db_ok d'"
proof (rule run_steps_keeps[where P = db_ok, OF assms])
  have tables: "list_all (\<lambda>(n, t). distinct (map cl_name (tb_columns t))) schema"
    by (simp add: schema_def schema_tables column_defs)
  fix f x y assume f: "f \<in> set schema_steps" "db_ok x" "f x = Inr y"
  then consider n t where "(n, t) \<in> set schema" "f = exec (CreateIfNotExists n t)"
    | n c where "f = ensure_column n c" by (auto simp: schema_steps_def)
  then show "db_ok y"
  proof cases
    case 1
    then have "distinct (map cl_name (tb_columns t))" using tables by (auto simp: list_all_iff)
    with f 1 exec_ok[of x "CreateIfNotExists n t" y] show ?thesis by auto
  qed (use f ensure_column_db_ok in auto)
qed

lemma memory_db_ok:
  assumes "migrate_memory_schema d = Inr d'" and "db_ok d"
  shows "db_ok d'"
proof (rule run_steps_keeps[where P = db_ok, OF assms(1)[unfolded migrate_memory_schema_def] assms(2)])
  fix f x y assume f: "f \<in> set (memory_steps d)" "db_ok x" "f x = Inr y"
  from f(1) consider s where "s \<in> set (memory_script @ memory_index)" "f = exec s"
    | n c where "f = ensure_column n c"
    by (auto simp: memory_steps_def split: if_splits)
  then show "db_ok y"
  proof cases
    case 1
    have d: "distinct (map cl_name (tb_columns memory_records_schema))" using memory_records_ok by (simp add: table_ok_def)
    show ?thesis
    proof (rule exec_ok[of x s y])
      show "db_ok x" "exec s x = Inr y" using f 1 by auto
      show "distinct (map cl_name (tb_columns t))" if "s = CreateIfNotExists n t \<or> s = CreateTable n t" for n t
        using that 1(1) d by (auto simp: memory_script_def memory_index_def)
    qed
  qed (use f ensure_column_db_ok in auto)
qed

lemma seed_db_ok:
  assumes "seed_workspaces d = Inr d'" and "db_ok d"
  shows "db_ok d'"
proof -
  have "table_ok (fold (\<lambda>w. insert_or_ignore (f w)) ws t)" if "table_ok t" for f :: "sql \<times> sql \<Rightarrow> sql_row" and ws t
    using that
  proof (induction ws arbitrary: t)
    case (Cons w ws)
    then have "table_ok (insert_or_ignore (f w) t)"
      by (cases "insert_row (f w) t") (auto simp: insert_or_ignore_def dest: insert_row_ok(1))
    with Cons.IH show ?case by simp
  qed simp
  moreover obtain t e u where "map_of (sq_tables d) ''workspace_revisions'' = Some t"
    "d' = put_table ''workspace_revisions'' (fold (\<lambda>p. insert_or_ignore (seed_row p)) (workspace_seeds u e) t) d"
    by (rule seed_workspaces_Inr[OF assms(1)])
  ultimately show ?thesis using assms(2) by (auto intro!: put_table_ok dest: db_okD)
qed

section \<open>Opening succeeds\<close>

text \<open>
  The rows of an older memory table can be moved when their required columns are not null and
  no two of them share the memory id, or the scope, key, kind and revision.
\<close>

definition moved_row :: "sql_row \<Rightarrow> sql_row" where
  "moved_row r = complete_row memory_records_schema (select_row legacy_selection r)"

definition rows_movable :: "sql_row list \<Rightarrow> bool" where
  "rows_movable rows \<longleftrightarrow>
     list_all (\<lambda>r. list_all (\<lambda>n. cell r n \<noteq> SNull)
       [''kind'', ''key'', ''value_json'', ''scope'', ''source_event_ids_json'', ''confidence'', ''revision'', ''support_count'']) rows
     \<and> sorted_wrt (\<lambda>r r'. \<not> same_key [''memory_id''] r' r \<and> \<not> same_key [''scope'', ''key'', ''kind'', ''revision''] r' r) rows"

lemma moved_row_cells:
  "cell (moved_row r) ''workspace_id'' = SText ''legacy''"
  "cell (moved_row r) ''support_event_ids_json'' = SText ''[]''"
  "n \<in> set [''memory_id'', ''kind'', ''key'', ''value_json'', ''scope'', ''source_event_ids_json'', ''confidence'',
     ''revision'', ''supersedes'', ''strategy_state'', ''support_count''] \<Longrightarrow> cell (moved_row r) n = cell r n"
  by (auto simp: moved_row_def complete_row_def select_row_def legacy_selection_def schema_tables column_defs cell_def)

lemma insert_moved:
  assumes "tb_columns t = tb_columns memory_records_schema" and "tb_keys t = tb_keys memory_records_schema"
    and "tb_checks t = []" and "tb_rows t = map moved_row rs"
    and "rows_movable (rs @ [r])"
  shows "insert_row (select_row legacy_selection r) t = Inr (t\<lparr>tb_rows := map moved_row (rs @ [r])\<rparr>)"
proof -
  have row: "complete_row t (select_row legacy_selection r) = moved_row r"
    using assms(1) by (simp add: moved_row_def complete_row_def)
  have nn: "\<not> list_ex (\<lambda>c. cl_not_null c \<and> cell (moved_row r) (cl_name c) = SNull) (tb_columns t)"
    using assms(1,5) by (simp add: moved_row_cells schema_tables column_defs rows_movable_def)
  have "\<not> same_key [''memory_id''] (moved_row r) (moved_row r') \<and>
      \<not> same_key [''workspace_id'', ''scope'', ''key'', ''kind'', ''revision''] (moved_row r) (moved_row r')"
    if "r' \<in> set rs" for r'
    using assms(5) that by (auto simp: rows_movable_def sorted_wrt_append same_key_def moved_row_cells)
  then have "\<not> list_ex (\<lambda>key. list_ex (same_key key (moved_row r)) (tb_rows t)) (tb_keys t)"
    using assms(2,4) by (auto simp: schema_tables list_ex_iff)
  with nn assms(3,4) row show ?thesis by (simp add: insert_row_def Let_def)
qed

lemma rows_move:
  assumes "rows_movable (rs @ rs')" and "t = memory_records_schema\<lparr>tb_rows := map moved_row rs\<rparr>"
  shows "foldR (\<lambda>r. insert_row (select_row legacy_selection r)) rs' t
    = Inr (memory_records_schema\<lparr>tb_rows := map moved_row (rs @ rs')\<rparr>)"
  using assms
proof (induction rs' arbitrary: rs t)
  case (Cons r rs')
  have pre: "rows_movable (rs @ [r])" using Cons.prems(1) by (auto simp: rows_movable_def sorted_wrt_append)
  have "insert_row (select_row legacy_selection r) t = Inr (memory_records_schema\<lparr>tb_rows := map moved_row (rs @ [r])\<rparr>)"
    using insert_moved[OF _ _ _ _ pre, of t] Cons.prems(2) by (simp add: schema_tables)
  with Cons.IH[of "rs @ [r]"] Cons.prems(1) show ?case by simp
qed simp

text \<open>A memory table as this version or an older one has it, or none.\<close>

definition memory_ready :: "sqldb \<Rightarrow> bool" where
  "memory_ready d \<longleftrightarrow> (case map_of (sq_tables d) ''memory_records'' of
     None \<Rightarrow> True
   | Some t \<Rightarrow>
       if ''workspace_id'' \<in> set (map cl_name (tb_columns t))
       then {''scope'', ''key'', ''kind'', ''revision''} \<subseteq> set (map cl_name (tb_columns t))
       else map_of (sq_tables d) ''memory_records_legacy'' = None
         \<and> set (source_columns legacy_selection) \<subseteq> set (map cl_name (tb_columns t))
         \<and> rows_movable (tb_rows t))"

text \<open>
  The tables the seeding of the workspaces looks at have the columns it names, where they exist.
\<close>

definition has_columns :: "sqldb \<Rightarrow> string \<Rightarrow> string set \<Rightarrow> bool" where
  "has_columns d n cs \<longleftrightarrow> (case map_of (sq_tables d) n of None \<Rightarrow> True | Some t \<Rightarrow> cs \<subseteq> column_names t)"

definition world_ready :: "sqldb \<Rightarrow> bool" where
  "world_ready d \<longleftrightarrow> has_columns d ''workspace_revisions'' {''workspace_id'', ''revision''}
     \<and> has_columns d ''world_entities'' {''workspace_id''}
     \<and> has_columns d ''world_revisions'' {''singleton'', ''workspace''}"

lemma columns_upgraded:
  assumes "map_of (sq_tables e) n = map_option (upgraded n) ((map_of schema ++ map_of (sq_tables d)) n)"
    and "has_columns d n cs" and "map_of schema n = Some t0" and "cs \<subseteq> column_names t0"
  obtains t where "map_of (sq_tables e) n = Some t" "cs \<subseteq> column_names t"
proof -
  obtain t where t: "(map_of schema ++ map_of (sq_tables d)) n = Some t" "cs \<subseteq> column_names t"
    using assms(2-4) by (auto simp: has_columns_def map_add_def split: option.splits)
  obtain new where "tb_columns (upgraded n t) = tb_columns t @ new"
    using fold_add_missing[of n added_columns t] by (auto simp: upgraded_def)
  with t have "cs \<subseteq> column_names (upgraded n t)" by (auto simp: column_names_def)
  with that t(1) assms(1) show thesis by simp
qed

lemma world_schema:
  "map_of schema ''workspace_revisions'' = Some workspace_revisions_schema"
  "map_of schema ''world_entities'' = Some world_entities_schema"
  "map_of schema ''world_revisions'' = Some world_revisions_schema"
  "{''workspace_id'', ''revision''} \<subseteq> column_names workspace_revisions_schema"
  "{''workspace_id''} \<subseteq> column_names world_entities_schema"
  "{''singleton'', ''workspace''} \<subseteq> column_names world_revisions_schema"
  by (simp_all add: schema_def) (simp_all add: schema_tables column_defs column_names_def)

lemma world_columns:
  assumes "world_ready d"
    and "\<And>n. n \<in> {''workspace_revisions'', ''world_entities'', ''world_revisions''} \<Longrightarrow>
      map_of (sq_tables e) n = map_option (upgraded n) ((map_of schema ++ map_of (sq_tables d)) n)"
  obtains w en u where "map_of (sq_tables e) ''workspace_revisions'' = Some w"
    "map_of (sq_tables e) ''world_entities'' = Some en" "map_of (sq_tables e) ''world_revisions'' = Some u"
    "{''workspace_id'', ''revision''} \<subseteq> column_names w" "''workspace_id'' \<in> column_names en"
    "{''singleton'', ''workspace''} \<subseteq> column_names u"
proof -
  have cs: "has_columns d ''workspace_revisions'' {''workspace_id'', ''revision''}"
    "has_columns d ''world_entities'' {''workspace_id''}" "has_columns d ''world_revisions'' {''singleton'', ''workspace''}"
    using assms(1) by (simp_all add: world_ready_def)
  obtain w where w: "map_of (sq_tables e) ''workspace_revisions'' = Some w" "{''workspace_id'', ''revision''} \<subseteq> column_names w"
    by (rule columns_upgraded[OF assms(2) cs(1) world_schema(1,4)]) simp
  obtain en where en: "map_of (sq_tables e) ''world_entities'' = Some en" "{''workspace_id''} \<subseteq> column_names en"
    by (rule columns_upgraded[OF assms(2) cs(2) world_schema(2,5)]) simp
  obtain u where u: "map_of (sq_tables e) ''world_revisions'' = Some u" "{''singleton'', ''workspace''} \<subseteq> column_names u"
    by (rule columns_upgraded[OF assms(2) cs(3) world_schema(3,6)]) simp
  from that[OF w(1) en(1) u(1) w(2) _ u(2)] en(2) show thesis by simp
qed

lemma memory_index_succeeds:
  assumes "map_of (sq_tables d) ''memory_records'' = Some t"
    and "{''workspace_id'', ''scope'', ''key'', ''kind'', ''revision''} \<subseteq> set (map cl_name (tb_columns t))"
  shows "\<exists>d'. run_steps (map exec memory_index) d = Inr d'"
proof -
  have "get_table (d\<lparr>sq_indexes := ix\<rparr>) ''memory_records'' = Inr t" for ix
    using assms(1) by (simp add: get_table_def)
  with assms(2) show ?thesis by (simp add: memory_index_def del: get_table_Inr)
qed

lemma memory_script_succeeds:
  assumes "map_of (sq_tables d) ''memory_records'' = Some t" and "map_of (sq_tables d) ''memory_records_legacy'' = None"
    and "set (source_columns legacy_selection) \<subseteq> set (map cl_name (tb_columns t))" and "rows_movable (tb_rows t)"
  shows "\<exists>d'. run_steps (map exec memory_script) d = Inr d'
    \<and> map_of (sq_tables d') ''memory_records'' = Some (memory_records_schema\<lparr>tb_rows := map moved_row (tb_rows t)\<rparr>)"
proof -
  let ?mr = "''memory_records''" and ?old = "''memory_records_legacy''" and ?s = memory_records_schema
  have g: "get_table d ?mr = Inr t" using assms(1) by simp
  have s: "?s\<lparr>tb_rows := []\<rparr> = ?s" by (simp add: schema_tables)
  obtain d1 where d1: "exec (RenameTable ?mr ?old) d = Inr d1"
    "\<And>k. map_of (sq_tables d1) k = (if k = ?old then Some t else if k = ?mr then None else map_of (sq_tables d) k)"
    using map_of_rename_table[OF assms(2), of ?mr] assms(1,2) by (simp add: g)
  have d2: "exec (CreateTable ?mr ?s) d1 = Inr (put_table ?mr ?s d1)" using d1(2) s by simp
  have g2: "get_table (put_table ?mr ?s d1) ?mr = Inr ?s" "get_table (put_table ?mr ?s d1) ?old = Inr t"
    using d1(2) by simp_all
  have into: "set (map fst legacy_selection) \<subseteq> set (map cl_name (tb_columns ?s))"
    by (simp add: legacy_selection_def schema_tables column_defs)
  let ?t' = "?s\<lparr>tb_rows := map moved_row (tb_rows t)\<rparr>"
  have "foldR (\<lambda>r. insert_row (select_row legacy_selection r)) (tb_rows t) ?s = Inr ?t'"
    using rows_move[of "[]" "tb_rows t" ?s] assms(4) s by simp
  then have d3: "exec (InsertSelect ?mr legacy_selection ?old) (put_table ?mr ?s d1) = Inr (put_table ?mr ?t' (put_table ?mr ?s d1))"
    using g2 into assms(3) by (simp del: get_table_Inr)
  have g3: "get_table (put_table ?mr ?t' (put_table ?mr ?s d1)) ?old = Inr t" using d1(2) by simp
  obtain d4 where d4: "exec (DropTable ?old) (put_table ?mr ?t' (put_table ?mr ?s d1)) = Inr d4"
    "map_of (sq_tables d4) ?mr = Some ?t'"
    using g3 by (simp add: map_of_drop_table del: get_table_Inr)
  with d1(1) d2 d3 show ?thesis by (simp add: memory_script_def del: exec.simps)
qed

lemma opening_returns:
  assumes "memory_ready d" and "world_ready d"
  shows "\<exists>d'. migrate d = Inr d'"
proof -
  let ?mr = "''memory_records''"
  obtain d1 where d1: "run_steps schema_steps d = Inr d1"
    and tb: "\<forall>n. map_of (sq_tables d1) n = map_option (upgraded n) ((map_of schema ++ map_of (sq_tables d)) n)"
    using schema_steps_run[of d] by blast
  have old: "map_of (sq_tables d1) ''memory_records_legacy'' = map_of (sq_tables d) ''memory_records_legacy''"
    by (cases "map_of (sq_tables d) ''memory_records_legacy''") (simp_all add: tb map_add_def schema_def)
  obtain t where t: "map_of (sq_tables d1) ?mr = Some t"
    "t = (case map_of (sq_tables d) ?mr of None \<Rightarrow> memory_records_schema | Some t \<Rightarrow> t)"
    by (simp add: tb map_add_def schema_def split: option.split)
  have cols: "columns d1 ?mr = map cl_name (tb_columns t)" using t(1) by (simp add: columns_def)
  have "\<exists>d2. migrate_memory_schema d1 = Inr d2"
  proof (cases "''workspace_id'' \<in> set (map cl_name (tb_columns t))")
    case True
    let ?c = "required_default ''support_event_ids_json'' TEXT (SText ''[]'')"
    have "\<not> (cl_not_null ?c \<and> default_value ?c = SNull)" by (simp add: column_defs)
    from ensure_column_run[OF t(1) this] obtain d2 where d2: "ensure_column ?mr ?c d1 = Inr d2"
      "map_of (sq_tables d2) ?mr = Some (add_missing ?c t)" by auto
    have "{''scope'', ''key'', ''kind'', ''revision''} \<subseteq> set (map cl_name (tb_columns t))"
      using assms(1) t(2) True by (auto simp: memory_ready_def schema_tables column_defs split: option.splits)
    with True have "{''workspace_id'', ''scope'', ''key'', ''kind'', ''revision''} \<subseteq> set (map cl_name (tb_columns (add_missing ?c t)))"
      by (auto simp: add_missing_def add_column_def)
    from memory_index_succeeds[OF d2(2) this] d2(1) True show ?thesis
      by (simp add: migrate_memory_schema_def memory_steps_def cols)
  next
    case False
    then have "map_of (sq_tables d) ?mr = Some t"
      using t(2) by (auto simp: schema_tables column_defs split: option.splits)
    with assms(1) False old memory_script_succeeds[OF t(1)] obtain d2 where d2: "run_steps (map exec memory_script) d1 = Inr d2"
      "map_of (sq_tables d2) ?mr = Some (memory_records_schema\<lparr>tb_rows := map moved_row (tb_rows t)\<rparr>)"
      by (auto simp: memory_ready_def)
    from memory_index_succeeds[OF d2(2)] d2(1) False show ?thesis
      by (simp add: migrate_memory_schema_def memory_steps_def cols run_steps_append schema_tables column_defs)
  qed
  then obtain d2 where d2: "migrate_memory_schema d1 = Inr d2" by blast
  from memory_steps_run(1)[OF d2 t(1)] obtain t' where d2t: "map_of (sq_tables d2) = (map_of (sq_tables d1))(?mr \<mapsto> t')"
    by blast
  have "map_of (sq_tables d2) n = map_option (upgraded n) ((map_of schema ++ map_of (sq_tables d)) n)"
    if "n \<in> {''workspace_revisions'', ''world_entities'', ''world_revisions''}" for n
    using that d2t tb by auto
  then obtain w e u where "map_of (sq_tables d2) ''workspace_revisions'' = Some w"
    "map_of (sq_tables d2) ''world_entities'' = Some e" "map_of (sq_tables d2) ''world_revisions'' = Some u"
    "{''workspace_id'', ''revision''} \<subseteq> column_names w" "''workspace_id'' \<in> column_names e"
    "{''singleton'', ''workspace''} \<subseteq> column_names u"
    by (rule world_columns[OF assms(2), of d2]) auto
  then have "\<exists>d'. seed_workspaces d2 = Inr d'"
    using seed_workspaces_InrI[of d2 w e u] by blast
  with d1 d2 show ?thesis by (simp add: migrate_def)
qed


text \<open>
  C12: opening a store again changes nothing. After a database of a known version has been
  migrated, migrating it once more returns the same database: no table, column, index or row
  is added or changed.
\<close>

theorem migrate_idempotent:
  assumes "db_ok d" and "known_version d" and "migrate d = Inr d'"
  shows "migrate d' = Inr d'"
proof -
  obtain d1 d2 t where d: "run_steps schema_steps d = Inr d1" "migrate_memory_schema d1 = Inr d2"
    "seed_workspaces d2 = Inr d'" "sq_indexes d1 = sq_indexes d"
    and tb: "\<And>n. map_of (sq_tables d1) n = map_option (upgraded n) ((map_of schema ++ map_of (sq_tables d)) n)"
    and t: "map_of (sq_tables d1) ''memory_records'' = Some t"
    by (rule migrate_run[OF assms(3)]) metis
  let ?mr = "''memory_records''" and ?wr = "''workspace_revisions''"
  note ms = memory_steps_run[OF d(2) t]
  obtain t' where t': "map_of (sq_tables d2) = (map_of (sq_tables d1))(?mr \<mapsto> t')"
    "''workspace_id'' \<in> set (map cl_name (tb_columns t'))" "''support_event_ids_json'' \<in> set (map cl_name (tb_columns t'))"
    using ms(1) by blast
  obtain w rows where w: "map_of (sq_tables d2) ?wr = Some w"
    "map_of (sq_tables d') = (map_of (sq_tables d2))(?wr \<mapsto> w\<lparr>tb_rows := rows\<rparr>)" "sq_indexes d' = sq_indexes d2"
    using seed_workspaces_run[OF d(3)] by blast
  have cols: "columns d' n = columns d1 n" if "n \<noteq> ?mr" for n
    using that t'(1) w by (auto simp: columns_def split: option.splits)
  have "step_done p d'" if p: "p \<in> set schema_plan" for p
  proof -
    have "step_done p d1" using steps_settle[of schema_plan d d1] d(1) p by (simp add: schema_steps_plan)
    moreover have "n \<noteq> ?mr" if "p = Column n c" for n c
      using that p by (auto simp: schema_plan_def added_columns_def schema_def)
    ultimately show ?thesis using t'(1) w(2) cols by (cases p) auto
  qed
  then have 1: "run_steps schema_steps d' = Inr d'" by (simp add: schema_steps_plan settled_steps_id)
  have mr: "map_of (sq_tables d') ?mr = Some t'" using t'(1) w(2) by simp
  obtain d0 where "run_steps (map exec memory_index) d0 = Inr d2" using ms(2) by blast
  from memory_index_again[OF this, of d'] w(2,3) have "run_steps (map exec memory_index) d' = Inr d'"
    by simp
  moreover have "ensure_column ?mr (required_default ''support_event_ids_json'' TEXT (SText ''[]'')) d' = Inr d'"
    using mr t'(3) by (simp add: ensure_column_def columns_def column_defs)
  ultimately have 2: "migrate_memory_schema d' = Inr d'"
    using mr t'(2) by (simp add: migrate_memory_schema_def memory_steps_def columns_def)
  have known: "known_version d2"
    using assms(2) t'(1) tb by (auto simp: known_version_def as_declared_def map_add_def schema_def split: option.splits)
  have ok: "db_ok d2" by (rule memory_db_ok[OF d(2) schema_steps_db_ok[OF d(1) assms(1)]])
  have 3: "seed_workspaces d' = Inr d'" by (rule seed_again[OF d(3) ok known])
  show ?thesis using 1 2 3 by (simp add: migrate_def)
qed

text \<open>Tables other than the memory table, the old memory table, and a move that was interrupted.\<close>

lemma migrate_table:
  assumes "migrate d = Inr d'" and "map_of (sq_tables d) n = Some t"
    and "n \<notin> {''memory_records'', ''memory_records_legacy'', ''workspace_revisions''}"
  shows "map_of (sq_tables d') n = Some (upgraded n t)"
proof -
  obtain d1 d2 m where d: "migrate_memory_schema d1 = Inr d2" "seed_workspaces d2 = Inr d'"
    and tb: "\<And>n. map_of (sq_tables d1) n = map_option (upgraded n) ((map_of schema ++ map_of (sq_tables d)) n)"
    and m: "map_of (sq_tables d1) ''memory_records'' = Some m"
    by (rule migrate_run[OF assms(1)]) metis
  have "map_of (sq_tables d1) n = Some (upgraded n t)" using assms(2) by (simp add: tb map_add_def)
  with memory_steps_run(1)[OF d(1) m] seed_workspaces_run[OF d(2)] assms(3) show ?thesis by auto
qed

lemma migrate_legacy_memory:
  assumes "migrate d = Inr d'" and "map_of (sq_tables d) ''memory_records'' = Some t"
    and "''workspace_id'' \<notin> set (map cl_name (tb_columns t))"
  shows "\<exists>u. map_of (sq_tables d') ''memory_records'' = Some u \<and> tb_rows u = map moved_row (tb_rows t)"
proof -
  obtain d1 d2 m where d: "migrate_memory_schema d1 = Inr d2" "seed_workspaces d2 = Inr d'"
    and m: "map_of (sq_tables d1) ''memory_records'' = Some m"
    "m = (case map_of (sq_tables d) ''memory_records'' of None \<Rightarrow> memory_records_schema | Some t \<Rightarrow> t)"
    by (rule migrate_run[OF assms(1)]) metis
  from m(2) assms(2) have mt: "m = t" by simp
  obtain u where u: "map_of (sq_tables d2) = (map_of (sq_tables d1))(''memory_records'' \<mapsto> u)"
    "tb_rows u = map moved_row (tb_rows t)"
    using memory_steps_run(1)[OF d(1) m(1)] assms(3) mt by (auto simp: moved_row_def[abs_def])
  with seed_workspaces_run[OF d(2)] show ?thesis by auto
qed

lemma memory_steps_legacy:
  assumes "map_of (sq_tables d) ''memory_records'' = Some t" and "''workspace_id'' \<notin> set (map cl_name (tb_columns t))"
  shows "memory_steps d = map exec (memory_script @ memory_index)"
  using assms by (simp add: memory_steps_def columns_def)

lemma interrupted_memory:
  assumes "map_of (sq_tables d) ''memory_records'' = Some t"
    and "''workspace_id'' \<notin> set (map cl_name (tb_columns t))"
    and "crashed (length schema_steps + k) d = Inr d1" and "k \<in> {1, 2}"
  shows "map_of (sq_tables d1) ''memory_records_legacy'' = Some t
    \<and> (map_of (sq_tables d1) ''memory_records'' = None \<or> map_of (sq_tables d1) ''memory_records'' = Some memory_records_schema)"
    (is ?moved)
    "n \<notin> {''memory_records'', ''memory_records_legacy''} \<Longrightarrow>
      map_of (sq_tables d1) n = map_option (upgraded n) ((map_of schema ++ map_of (sq_tables d)) n)"
proof -
  let ?mr = "''memory_records''" and ?old = "''memory_records_legacy''"
  have s: "memory_records_schema\<lparr>tb_rows := []\<rparr> = memory_records_schema" by (simp add: schema_tables)
  obtain d0 where d0: "run_steps schema_steps d = Inr d0"
    "\<forall>n. map_of (sq_tables d0) n = map_option (upgraded n) ((map_of schema ++ map_of (sq_tables d)) n)"
    using schema_steps_run[of d] by blast
  have mr: "map_of (sq_tables d0) ?mr = Some t" using assms(1) d0(2) by (simp add: map_add_def)
  have run: "run_steps (take k (map exec (memory_script @ memory_index))) d0 = Inr d1"
    using assms(3,4) d0(1) memory_steps_legacy[OF mr assms(2)] by (auto simp: crashed_def)
  obtain e where e: "exec (RenameTable ?mr ?old) d0 = Inr e" "d1 = e \<or> exec (CreateTable ?mr memory_records_schema) e = Inr d1"
    using run assms(4) by (auto simp: memory_script_def bindR_Inr_iff numeral_2_eq_2 simp del: exec.simps)
  have none: "map_of (sq_tables d0) ?old = None" using e(1) by (auto simp: bindR_Inr_iff split: if_splits)
  have ek: "map_of (sq_tables e) k = (if k = ?old then Some t else if k = ?mr then None else map_of (sq_tables d0) k)" for k
    using e(1) mr map_of_rename_table[OF none, of ?mr k] by (auto simp: bindR_Inr_iff split: if_splits)
  from e(2) show ?moved using ek s by auto
  from e(2) show "n \<notin> {?mr, ?old} \<Longrightarrow>
      map_of (sq_tables d1) n = map_option (upgraded n) ((map_of schema ++ map_of (sq_tables d)) n)"
    using ek s d0(2) by auto
qed

lemma crashed_world_ready:
  assumes "map_of (sq_tables d) ''memory_records'' = Some t"
    and "''workspace_id'' \<notin> set (map cl_name (tb_columns t))"
    and "crashed (length schema_steps + k) d = Inr d1" and "k \<in> {1, 2}" and "world_ready d"
  shows "world_ready d1"
proof -
  have "map_of (sq_tables d1) n = map_option (upgraded n) ((map_of schema ++ map_of (sq_tables d)) n)"
    if "n \<in> {''workspace_revisions'', ''world_entities'', ''world_revisions''}" for n
    by (rule interrupted_memory(2)[OF assms(1-4)]) (use that in auto)
  then obtain w e u where "map_of (sq_tables d1) ''workspace_revisions'' = Some w"
    "map_of (sq_tables d1) ''world_entities'' = Some e" "map_of (sq_tables d1) ''world_revisions'' = Some u"
    "{''workspace_id'', ''revision''} \<subseteq> column_names w" "''workspace_id'' \<in> column_names e"
    "{''singleton'', ''workspace''} \<subseteq> column_names u"
    by (rule world_columns[OF assms(5), of d1]) auto
  then show ?thesis by (simp add: world_ready_def has_columns_def)
qed

lemma interrupted_rename:
  assumes "map_of (sq_tables d) ''memory_records'' = Some t"
    and "''workspace_id'' \<notin> set (map cl_name (tb_columns t))" and "map_of (sq_tables d) ''memory_records_legacy'' = None"
  shows "\<exists>d1. crashed (length schema_steps + 1) d = Inr d1"
proof -
  obtain d0 where d0: "run_steps schema_steps d = Inr d0"
    "\<forall>n. map_of (sq_tables d0) n = map_option (upgraded n) ((map_of schema ++ map_of (sq_tables d)) n)"
    using schema_steps_run[of d] by blast
  have mr: "map_of (sq_tables d0) ''memory_records'' = Some t" using assms(1) d0(2) by (simp add: map_add_def)
  then have g: "get_table d0 ''memory_records'' = Inr t" by simp
  have none: "map_of (sq_tables d0) ''memory_records_legacy'' = None"
    using assms(3) d0(2) by (simp add: map_add_def schema_def)
  have "take 1 (memory_steps d0) = [exec (RenameTable ''memory_records'' ''memory_records_legacy'')]"
    unfolding memory_steps_legacy[OF mr assms(2)] by (simp add: memory_script_def del: exec.simps)
  with d0(1) none g show ?thesis by (simp add: crashed_def del: get_table_Inr)
qed

section \<open>Properties\<close>

text \<open>
  C15: opening a store of a known version succeeds. Migrating returns a database when the memory
  table is missing, has the columns of this version that its index names, or is an older one
  whose columns can be selected and whose rows can be moved without a null or a duplicate, and
  when \<^verbatim>\<open>world_entities\<close>, \<^verbatim>\<open>world_revisions\<close> and \<^verbatim>\<open>workspace_revisions\<close>, where they
  exist, have the columns that the seeding of the workspaces names. Nothing is asked of the
  other tables, nor of the rows of any table but an older memory table.
\<close>

theorem opening_succeeds:
  assumes "memory_ready d" and "world_ready d"
  shows "\<exists>d'. migrate d = Inr d'"
  by (rule opening_returns[OF assms])

text \<open>
  Without these columns it does not: a \<^verbatim>\<open>world_entities\<close> without \<^verbatim>\<open>workspace_id\<close> makes the
  last statement raise.
\<close>

lemma entities_without_workspace:
  assumes "map_of (sq_tables d) ''world_entities'' = Some e" and "''workspace_id'' \<notin> column_names e"
  shows "\<exists>x. migrate d = Inl x"
proof (cases "migrate d")
  case (Inr d')
  obtain d1 d2 t where d: "migrate_memory_schema d1 = Inr d2" "seed_workspaces d2 = Inr d'"
    and tb: "\<And>n. map_of (sq_tables d1) n = map_option (upgraded n) ((map_of schema ++ map_of (sq_tables d)) n)"
    and t: "map_of (sq_tables d1) ''memory_records'' = Some t"
    by (rule migrate_run[OF Inr]) metis
  have "map_of (sq_tables d2) ''world_entities'' = Some e"
    using memory_steps_run(1)[OF d(1) t] assms(1) tb by (auto simp: map_add_def)
  with assms(2) show ?thesis by (rule_tac seed_workspaces_Inr[OF d(2)]) auto
qed simp

text \<open>A store of an older version: one task and one memory, and none of the later columns.\<close>

definition old_task_columns :: "column list" where
  "old_task_columns =
     [plain ''task_id'' TEXT, required ''goal'' TEXT, required ''success_criteria_json'' TEXT,
      required ''constraints_json'' TEXT, required ''state'' TEXT, required ''desired_state'' TEXT,
      required ''phase'' TEXT, required ''priority'' INTEGER, required ''lane'' TEXT, required ''revision'' INTEGER]"

definition old_memory_columns :: "column list" where
  "old_memory_columns =
     [plain ''memory_id'' TEXT, required ''kind'' TEXT, required ''key'' TEXT, required ''value_json'' TEXT,
      required ''scope'' TEXT, required ''source_event_ids_json'' TEXT, required ''confidence'' REAL,
      required ''revision'' INTEGER, plain ''supersedes'' TEXT, plain ''strategy_state'' TEXT,
      required ''support_count'' INTEGER]"

definition old_task_row :: sql_row where
  "old_task_row = [(''task_id'', SText ''t1''), (''goal'', SText ''tidy''), (''success_criteria_json'', SText ''[]''),
     (''constraints_json'', SText ''[]''), (''state'', SText ''QUEUED''), (''desired_state'', SText ''COMPLETED''),
     (''phase'', SText ''THINKING''), (''priority'', SInt 1), (''lane'', SText ''default''), (''revision'', SInt 3)]"

definition old_memory_row :: sql_row where
  "old_memory_row = [(''memory_id'', SText ''m1''), (''kind'', SText ''preference''), (''key'', SText ''tone''),
     (''value_json'', SText ''1''), (''scope'', SText ''workspace''), (''source_event_ids_json'', SText ''[]''),
     (''confidence'', SReal 1), (''revision'', SInt 1), (''supersedes'', SNull), (''strategy_state'', SNull),
     (''support_count'', SInt 0)]"

definition old_store :: sqldb where
  "old_store = \<lparr>sq_tables =
      [(''tasks'', (new_table old_task_columns [[''task_id'']])\<lparr>tb_rows := [old_task_row]\<rparr>),
       (''memory_records'', (new_table old_memory_columns [[''memory_id'']])\<lparr>tb_rows := [old_memory_row]\<rparr>)],
     sq_indexes = []\<rparr>"

lemma old_store_tables:
  "map_of (sq_tables old_store) ''tasks'' = Some ((new_table old_task_columns [[''task_id'']])\<lparr>tb_rows := [old_task_row]\<rparr>)"
  "map_of (sq_tables old_store) ''memory_records'' =
     Some ((new_table old_memory_columns [[''memory_id'']])\<lparr>tb_rows := [old_memory_row]\<rparr>)"
  "map_of (sq_tables old_store) ''memory_records_legacy'' = None"
  by (simp_all add: old_store_def)

lemma old_store_ready: "memory_ready old_store"
  by (simp add: memory_ready_def old_store_tables new_table_def old_memory_columns_def column_defs source_columns_def
      legacy_selection_def rows_movable_def old_memory_row_def cell_def)

lemma old_store_world: "world_ready old_store"
  by (simp add: world_ready_def has_columns_def old_store_def)

lemma old_store_ok: "db_ok old_store" "known_version old_store"
proof -
  have "row_ok ((new_table old_task_columns [[''task_id'']])\<lparr>tb_rows := [old_task_row]\<rparr>) old_task_row"
    "row_ok ((new_table old_memory_columns [[''memory_id'']])\<lparr>tb_rows := [old_memory_row]\<rparr>) old_memory_row"
    by (simp_all add: row_ok_def new_table_def old_task_columns_def old_memory_columns_def column_defs old_task_row_def
        old_memory_row_def cell_def)
  then show "db_ok old_store"
    by (auto simp: db_ok_def old_store_def table_ok_def new_table_def old_task_columns_def old_memory_columns_def
        column_defs split: if_splits)
  show "known_version old_store" by (simp add: known_version_def as_declared_def old_store_def)
qed

theorem opening_succeeds_witness: "\<exists>d'. migrate old_store = Inr d'"
  by (rule opening_succeeds) (rule old_store_ready old_store_world)+

theorem migrate_idempotent_witness: "\<exists>d'. migrate old_store = Inr d' \<and> migrate d' = Inr d'"
proof -
  obtain d' where d': "migrate old_store = Inr d'" using opening_returns[OF old_store_ready old_store_world] by blast
  from migrate_idempotent[OF old_store_ok d'] d' show ?thesis by blast
qed

text \<open>
  Opening loses no row. A table of any older version, other than the memory table, is found
  again after a migration with its columns in front, the added columns behind them, and its
  rows, in order, with the declared defaults in the added columns.
\<close>

theorem opening_keeps_rows:
  assumes "migrate d = Inr d'" and "map_of (sq_tables d) n = Some t"
    and "n \<notin> {''memory_records'', ''memory_records_legacy'', ''workspace_revisions''}"
  shows "\<exists>cs u. map_of (sq_tables d') n = Some u \<and> tb_columns u = tb_columns t @ cs
    \<and> (\<forall>c \<in> set cs. (n, c) \<in> set added_columns \<and> cl_name c \<notin> set (map cl_name (tb_columns t)))
    \<and> tb_rows u = map (\<lambda>r. r @ map (\<lambda>c. (cl_name c, default_value c)) cs) (tb_rows t)"
proof -
  have "map_of (sq_tables d') n = Some (upgraded n t)" by (rule migrate_table[OF assms])
  moreover obtain cs where "upgraded n t = t\<lparr>tb_columns := tb_columns t @ cs,
      tb_rows := map (\<lambda>r. r @ map (\<lambda>c. (cl_name c, default_value c)) cs) (tb_rows t)\<rparr>"
    "\<forall>c \<in> set cs. (n, c) \<in> set added_columns \<and> cl_name c \<notin> set (map cl_name (tb_columns t))"
    using fold_add_missing[of n added_columns t] unfolding upgraded_def by blast
  ultimately show ?thesis by (intro exI[of _ cs] exI[of _ "upgraded n t"]) simp
qed

theorem opening_keeps_rows_witness:
  "\<exists>d' cs u. migrate old_store = Inr d' \<and> map_of (sq_tables d') ''tasks'' = Some u
    \<and> tb_rows u = [old_task_row @ map (\<lambda>c. (cl_name c, default_value c)) cs]"
proof -
  obtain d' where d': "migrate old_store = Inr d'" using opening_returns[OF old_store_ready old_store_world] by blast
  from opening_keeps_rows[OF d' old_store_tables(1)] d' show ?thesis by (auto simp: new_table_def)
qed

text \<open>
  C17: the memories of an older version move to the workspace \<open>legacy\<close>: each row is found
  again, in order, with its values, no supporting events, and that workspace.
\<close>

theorem legacy_memories_move:
  assumes "migrate d = Inr d'" and "map_of (sq_tables d) ''memory_records'' = Some t"
    and "''workspace_id'' \<notin> set (map cl_name (tb_columns t))"
  shows "\<exists>u. map_of (sq_tables d') ''memory_records'' = Some u
    \<and> list_all2 (\<lambda>r r'. cell r' ''workspace_id'' = SText ''legacy'' \<and> cell r' ''support_event_ids_json'' = SText ''[]''
        \<and> (\<forall>n \<in> set (source_columns legacy_selection). cell r' n = cell r n)) (tb_rows t) (tb_rows u)"
proof -
  obtain u where u: "map_of (sq_tables d') ''memory_records'' = Some u" "tb_rows u = map moved_row (tb_rows t)"
    using migrate_legacy_memory[OF assms] by blast
  have "set (source_columns legacy_selection) = set [''memory_id'', ''kind'', ''key'', ''value_json'', ''scope'',
      ''source_event_ids_json'', ''confidence'', ''revision'', ''supersedes'', ''strategy_state'', ''support_count'']"
    by (simp add: source_columns_def legacy_selection_def)
  then have "list_all2 (\<lambda>r r'. cell r' ''workspace_id'' = SText ''legacy'' \<and> cell r' ''support_event_ids_json'' = SText ''[]''
        \<and> (\<forall>n \<in> set (source_columns legacy_selection). cell r' n = cell r n)) (tb_rows t) (tb_rows u)"
    by (simp add: u(2) list_all2_map2 list_all2_same moved_row_cells)
  with u(1) show ?thesis by blast
qed

theorem legacy_memories_move_witness:
  "\<exists>d' u r. migrate old_store = Inr d' \<and> map_of (sq_tables d') ''memory_records'' = Some u
    \<and> tb_rows u = [r] \<and> cell r ''workspace_id'' = SText ''legacy''"
proof -
  obtain d' where d': "migrate old_store = Inr d'" using opening_returns[OF old_store_ready old_store_world] by blast
  have "''workspace_id'' \<notin> set (map cl_name old_memory_columns)" by (simp add: old_memory_columns_def column_defs)
  with legacy_memories_move[OF d' old_store_tables(2)] d' show ?thesis
    by (auto simp: new_table_def list_all2_Cons1)
qed

text \<open>
  C18: an opening that crashes while it creates tables or adds columns is completed by the next
  one: whatever prefix of these steps was done, migrating again gives exactly what the
  uninterrupted migration gives.
\<close>

theorem interrupted_opening_resumes:
  assumes "n \<le> length schema_steps" and "crashed n d = Inr d1"
  shows "migrate d1 = migrate d"
  using assms resume_schema[of n d d1] by (simp add: crashed_def migrate_def)

theorem interrupted_opening_resumes_witness:
  "\<exists>d1. crashed 20 old_store = Inr d1 \<and> migrate d1 = migrate old_store"
proof -
  have len: "20 \<le> length schema_steps" by (simp add: schema_steps_def schema_def added_columns_def)
  obtain d0 where "run_steps schema_steps old_store = Inr d0" using schema_steps_run by blast
  then obtain d1 where "run_steps (take 20 schema_steps) old_store = Inr d1"
    using run_steps_append[of "take 20 schema_steps" "drop 20 schema_steps" old_store]
    by (cases "run_steps (take 20 schema_steps) old_store") simp_all
  with len have d1: "crashed 20 old_store = Inr d1" by (simp add: crashed_def)
  from interrupted_opening_resumes[OF len d1] d1 show ?thesis by blast
qed

text \<open>
  C16: opening keeps the types of the store. Each table of a migrated database still has distinct
  column names, rows with exactly its columns in their order, and no null in a column declared
  NOT NULL, through the new tables, the added columns, the moved memories and the seeded revisions.
\<close>

theorem migrate_keeps_types:
  assumes "migrate d = Inr d'" and "db_ok d"
  shows "db_ok d'"
  using assms by (auto simp: migrate_def bindR_Inr_iff dest: schema_steps_db_ok memory_db_ok seed_db_ok)

theorem migrate_keeps_types_witness: "\<exists>d'. migrate old_store = Inr d' \<and> db_ok d'"
proof -
  obtain d' where d': "migrate old_store = Inr d'" using opening_returns[OF old_store_ready old_store_world] by blast
  from migrate_keeps_types[OF d' old_store_ok(1)] d' show ?thesis by blast
qed

text \<open>
  C19: a crash while the memories are moved loses them. When the process stops after the old
  table has been renamed, or after the new one has been created, and before the rows are
  copied, whatever the next opening returns has an empty memory table: the rows stay behind in
  \<^verbatim>\<open>memory_records_legacy\<close>, which nothing reads. That opening does succeed when the tables
  of the world had the columns the seeding names, where they existed.
\<close>

theorem crash_loses_memories:
  assumes "map_of (sq_tables d) ''memory_records'' = Some t"
    and "''workspace_id'' \<notin> set (map cl_name (tb_columns t))"
    and "crashed (length schema_steps + k) d = Inr d1" and "k \<in> {1, 2}"
  shows "(\<forall>d'. migrate d1 = Inr d' \<longrightarrow> (\<exists>u. map_of (sq_tables d') ''memory_records'' = Some u \<and> tb_rows u = []
      \<and> map_of (sq_tables d') ''memory_records_legacy'' = Some t))
    \<and> (world_ready d \<longrightarrow> (\<exists>d'. migrate d1 = Inr d'))"
proof (intro conjI allI impI)
  let ?mr = "''memory_records''" and ?old = "''memory_records_legacy''"
  have d1: "map_of (sq_tables d1) ?old = Some t
      \<and> (map_of (sq_tables d1) ?mr = None \<or> map_of (sq_tables d1) ?mr = Some memory_records_schema)"
    by (rule interrupted_memory(1)[OF assms])
  show "\<exists>d'. migrate d1 = Inr d'" if "world_ready d"
  proof (rule opening_returns)
    from d1 show "memory_ready d1" by (auto simp: memory_ready_def schema_tables column_defs)
    show "world_ready d1" by (rule crashed_world_ready[OF assms that])
  qed
  fix d' assume d': "migrate d1 = Inr d'"
  have ws: "''workspace_id'' \<in> set (map cl_name (tb_columns memory_records_schema))"
    by (simp add: schema_tables column_defs)
  obtain e1 e2 u where e: "migrate_memory_schema e1 = Inr e2" "seed_workspaces e2 = Inr d'"
    and tb: "\<And>n. map_of (sq_tables e1) n = map_option (upgraded n) ((map_of schema ++ map_of (sq_tables d1)) n)"
    and u: "map_of (sq_tables e1) ?mr = Some u"
    "u = (case map_of (sq_tables d1) ?mr of None \<Rightarrow> memory_records_schema | Some t \<Rightarrow> t)"
    by (rule migrate_run[OF d']) metis
  from u(2) d1 have us: "u = memory_records_schema" by auto
  obtain v where v: "map_of (sq_tables e2) = (map_of (sq_tables e1))(?mr \<mapsto> v)"
    "v = add_missing (required_default ''support_event_ids_json'' TEXT (SText ''[]'')) u"
    using memory_steps_run(1)[OF e(1) u(1)] ws us by auto
  have "tb_rows v = []" using v(2) us by (simp add: add_missing_def add_column_def schema_tables)
  moreover have "map_of (sq_tables e1) ?old = Some t" using d1 by (simp add: tb map_add_def)
  ultimately show "\<exists>u. map_of (sq_tables d') ?mr = Some u \<and> tb_rows u = [] \<and> map_of (sq_tables d') ?old = Some t"
    using seed_workspaces_run[OF e(2)] v(1) by auto
qed

theorem crash_loses_memories_witness:
  "\<exists>d1 d' u. crashed (length schema_steps + 1) old_store = Inr d1 \<and> migrate d1 = Inr d'
    \<and> map_of (sq_tables d') ''memory_records'' = Some u \<and> tb_rows u = []"
proof -
  let ?t = "(new_table old_memory_columns [[''memory_id'']])\<lparr>tb_rows := [old_memory_row]\<rparr>"
  have ws: "''workspace_id'' \<notin> set (map cl_name (tb_columns ?t))"
    by (simp add: new_table_def old_memory_columns_def column_defs)
  obtain d1 where d1: "crashed (length schema_steps + 1) old_store = Inr d1"
    using interrupted_rename[OF old_store_tables(2) ws old_store_tables(3)] by blast
  from crash_loses_memories[OF old_store_tables(2) ws d1] d1 old_store_world show ?thesis by auto
qed

end
