(* ===== verification/Row_Text.thy ===== *)
theory Row_Text
  imports Store_Events Py_Json Migration
begin

text \<open>
  The rows of the store as SQLite holds them: what \<^verbatim>\<open>src/liandanlu_native/storage.py\<close> binds to
  the parameters of an insert, JSON columns as the text \<^verbatim>\<open>json.dumps\<close> writes, and what it
  reads out of the columns of a result row. The other theories speak of rows whose JSON columns
  hold values (\<open>Store_Tables\<close>); this one shows that a row written as text is read back as the
  row of values it stands for, table by table, so that they may.

  It also takes the rows of older versions: after the migration of \<open>Migration\<close> the tasks that
  an older version wrote are loaded with the defaults of the new columns.

  The columns are read at the types the store writes: a cell of another type, which SQLite
  would hand to the constructor unchecked, raises \<open>unmodelled_cell\<close> here.
\<close>

section \<open>Cells\<close>

definition unmodelled_cell :: exc where
  "unmodelled_cell = External ''UnmodelledCell'' ''column of an unexpected type''"

text \<open>\<^verbatim>\<open>row[name]\<close>\<close>

definition row_item :: "sql_row \<Rightarrow> string \<Rightarrow> exc + sql" where
  "row_item r n = (case map_of r n of
     None \<Rightarrow> Inl (External ''IndexError'' ''No item with that key'') | Some v \<Rightarrow> Inr v)"

fun as_text :: "sql \<Rightarrow> exc + string" where
  "as_text (SText s) = Inr s"
| "as_text _ = Inl unmodelled_cell"

fun as_int :: "sql \<Rightarrow> exc + int" where
  "as_int (SInt i) = Inr i"
| "as_int _ = Inl unmodelled_cell"

fun as_real :: "sql \<Rightarrow> exc + pyfloat" where
  "as_real (SReal q) = Inr q"
| "as_real (SInt i) = Inr (of_int i)"
| "as_real _ = Inl unmodelled_cell"

definition nullable :: "(sql \<Rightarrow> exc + 'a) \<Rightarrow> sql \<Rightarrow> exc + 'a option" where
  "nullable f v = (if v = SNull then Inr None else bindR (f v) (\<lambda>x. Inr (Some x)))"

definition col :: "(sql \<Rightarrow> exc + 'a) \<Rightarrow> sql_row \<Rightarrow> string \<Rightarrow> exc + 'a" where
  "col f r n = bindR (row_item r n) f"

definition of_opt :: "('a \<Rightarrow> sql) \<Rightarrow> 'a option \<Rightarrow> sql" where
  "of_opt f x = (case x of None \<Rightarrow> SNull | Some y \<Rightarrow> f y)"

text \<open>\<^verbatim>\<open>json.dumps(x)\<close> as a parameter and \<^verbatim>\<open>json.loads(row[name])\<close>\<close>

definition dump_cell :: "(pyfloat \<Rightarrow> string) \<Rightarrow> json \<Rightarrow> exc + sql" where
  "dump_cell float_repr x = bindR (json_dumps column_style float_repr x) (\<lambda>t. Inr (SText t))"

fun load_cell :: "json_reader \<Rightarrow> sql \<Rightarrow> exc + json" where
  "load_cell reader (SText t) = json_loads reader t"
| "load_cell reader _ = Inl (TypeError ''the JSON object must be str, bytes or bytearray'')"

text \<open>The shapes of the JSON columns.\<close>

definition json_strings :: "string list \<Rightarrow> json" where
  "json_strings xs = JList (map JStr xs)"

fun as_string :: "json \<Rightarrow> exc + string" where
  "as_string (JStr s) = Inr s"
| "as_string _ = Inl unmodelled_cell"

fun as_integer :: "json \<Rightarrow> exc + int" where
  "as_integer (JInt i) = Inr i"
| "as_integer _ = Inl unmodelled_cell"

fun as_object :: "json \<Rightarrow> exc + dict" where
  "as_object (JDict d) = Inr d"
| "as_object _ = Inl unmodelled_cell"

fun as_list :: "(json \<Rightarrow> exc + 'a) \<Rightarrow> json \<Rightarrow> exc + 'a list" where
  "as_list f (JList xs) = mapR f xs"
| "as_list f _ = Inl unmodelled_cell"

definition json_ints :: "(string \<times> int) list \<Rightarrow> json" where
  "json_ints d = JDict (map (\<lambda>(k, i). (k, JInt i)) d)"

definition as_ints :: "json \<Rightarrow> exc + (string \<times> int) list" where
  "as_ints x = bindR (as_object x) (mapR (\<lambda>(k, v). bindR (as_integer v) (\<lambda>i. Inr (k, i))))"

definition load_as :: "json_reader \<Rightarrow> (json \<Rightarrow> exc + 'a) \<Rightarrow> sql \<Rightarrow> exc + 'a" where
  "load_as reader f v = bindR (load_cell reader v) f"

text \<open>A value that is read back as it was written.\<close>

definition storable :: "json_reader \<Rightarrow> (pyfloat \<Rightarrow> string) \<Rightarrow> json \<Rightarrow> bool" where
  "storable reader float_repr x \<longleftrightarrow> readable reader float_repr 0 x"

lemma load_dumped:
  assumes "json_dumps column_style fr x = Inr t" and "storable rd fr x"
  shows "load_as rd f (SText t) = f x"
  using json_roundtrip[OF styles_ok(2) assms(1), of rd] assms(2) by (simp add: load_as_def storable_def)

lemma storable_strings [simp]: "storable rd fr (json_strings xs) \<longleftrightarrow> jr_depth rd > 0"
  by (simp add: storable_def json_strings_def list_all_iff)

lemma storable_ints [simp]: "storable rd fr (json_ints d) \<longleftrightarrow> jr_depth rd > 0 \<and> distinct (map fst d)"
  by (auto simp: storable_def json_ints_def list_all_iff comp_def split_def)

lemma as_list_strings [simp]: "as_list as_string (json_strings xs) = Inr xs"
  by (induction xs) (simp_all add: json_strings_def)

lemma as_ints_ints [simp]: "as_ints (json_ints d) = Inr d"
proof -
  have "mapR (\<lambda>(k, v). bindR (as_integer v) (\<lambda>i. Inr (k, i))) (map (\<lambda>(k, i). (k, JInt i)) d) = Inr d"
    by (induction d) auto
  then show ?thesis by (simp add: as_ints_def json_ints_def)
qed

lemma objects_of_dicts [simp]: "mapR as_object (map JDict ds) = Inr ds"
  by (induction ds) simp_all

lemma storable_depth: "storable rd fr (JDict d) \<Longrightarrow> jr_depth rd > 0"
  by (simp add: storable_def)

lemma nullable_of_opt [simp]:
  "nullable as_text (of_opt SText x) = Inr x" "nullable as_real (of_opt SReal y) = Inr y"
  "nullable as_int (of_opt SInt z) = Inr z"
  by (cases x; cases y; cases z; simp add: nullable_def of_opt_def)+

lemma dump_cell_Inr: "dump_cell fr x = Inr v \<longleftrightarrow> (\<exists>t. json_dumps column_style fr x = Inr t \<and> v = SText t)"
  by (auto simp: dump_cell_def bindR_Inr_iff)

lemma dump_cell_truthy: "dump_cell fr (JDict d) = Inr v \<Longrightarrow> v \<notin> {SNull, SText []}"
  by (auto simp: dump_cell_Inr bindR_Inr_iff)

lemma load_dump:
  assumes "dump_cell fr x = Inr v" and "storable rd fr x"
  shows "load_as rd f v = f x"
proof -
  from assms(1) obtain t where t: "json_dumps column_style fr x = Inr t" "v = SText t" by (auto simp: dump_cell_Inr)
  from load_dumped[OF t(1) assms(2)] t(2) show ?thesis by simp
qed

lemma storable_stringsI: "storable rd fr (JDict d) \<Longrightarrow> storable rd fr (json_strings xs)"
  by (auto dest: storable_depth)

lemmas read_defs = col_def row_item_def

section \<open>The interface of a table\<close>

text \<open>
  What a table promises: a row of values that was written as a row of cells is read back as it
  was, when its JSON values are readable. The lemmas carry it to a whole table and to the
  dictionary a store loads.
\<close>

locale row_codec =
  fixes enc :: "'r \<Rightarrow> exc + sql_row"
    and dec :: "sql_row \<Rightarrow> exc + 'r"
    and ok :: "'r \<Rightarrow> bool"
  assumes read_written: "enc r = Inr cs \<Longrightarrow> ok r \<Longrightarrow> dec cs = Inr r"
begin

lemma read_rows: "mapR enc rs = Inr rows \<Longrightarrow> list_all ok rs \<Longrightarrow> mapR dec rows = Inr rs"
  by (induction rs arbitrary: rows) (auto simp: bindR_Inr_iff read_written)

lemma fold_rows:
  assumes "mapR enc rs = Inr rows" and "list_all ok rs"
  shows "foldR (\<lambda>cs acc. bindR (bindR (dec cs) f) (\<lambda>x. Inr (AList.update (key x) x acc))) rows acc =
    foldR (\<lambda>r acc. bindR (f r) (\<lambda>x. Inr (AList.update (key x) x acc))) rs acc"
  using assms by (induction rs arbitrary: rows acc) (auto simp: bindR_Inr_iff read_written intro!: bindR_cong)

lemma load_rows:
  "mapR enc rs = Inr rows \<Longrightarrow> list_all ok rs \<Longrightarrow>
   load_dict (\<lambda>cs. bindR (dec cs) f) key rows = load_dict f key rs"
  unfolding load_dict_def by (rule fold_rows)

end

section \<open>Tasks\<close>

text \<open>The parameters of \<^verbatim>\<open>_upsert_task\<close> by column, for the row of a task.\<close>

definition task_columns :: "(pyfloat \<Rightarrow> string) \<Rightarrow> task_row \<Rightarrow> exc + sql_row" where
  "task_columns fr r =
     bindR (dump_cell fr (json_strings (tr_success_criteria_json r))) (\<lambda>criteria.
     bindR (dump_cell fr (json_strings (tr_constraints_json r))) (\<lambda>constraints.
     bindR (dump_cell fr (JDict (tr_budget_json r))) (\<lambda>budget.
       Inr [(''task_id'', SText (tr_task_id r)), (''workspace_id'', SText (tr_workspace_id r)),
         (''goal'', SText (tr_goal r)), (''success_criteria_json'', criteria), (''constraints_json'', constraints),
         (''state'', SText (tr_state r)), (''desired_state'', SText (tr_desired_state r)),
         (''phase'', SText (tr_phase r)), (''priority'', SInt (tr_priority r)), (''lane'', SText (tr_lane r)),
         (''queued_at'', of_opt SReal (tr_queued_at r)), (''wait_reason'', of_opt SText (tr_wait_reason r)),
         (''budget_json'', budget), (''revision'', SInt (tr_revision r))])))"

text \<open>\<^verbatim>\<open>json.loads(row["budget_json"] or "{}")\<close>\<close>

definition load_budget :: "json_reader \<Rightarrow> sql \<Rightarrow> exc + dict" where
  "load_budget reader v =
     load_as reader as_object (if v \<in> {SNull, SText []} then SText ''{}'' else v)"

definition read_task_row :: "json_reader \<Rightarrow> sql_row \<Rightarrow> exc + task_row" where
  "read_task_row rd r =
     bindR (col (load_budget rd) r ''budget_json'') (\<lambda>budget.
     bindR (col as_text r ''task_id'') (\<lambda>task_id.
     bindR (col as_text r ''workspace_id'') (\<lambda>workspace_id.
     bindR (col as_text r ''goal'') (\<lambda>goal.
     bindR (col (load_as rd (as_list as_string)) r ''success_criteria_json'') (\<lambda>criteria.
     bindR (col (load_as rd (as_list as_string)) r ''constraints_json'') (\<lambda>constraints.
     bindR (col as_text r ''state'') (\<lambda>state.
     bindR (col as_text r ''desired_state'') (\<lambda>desired_state.
     bindR (col as_text r ''phase'') (\<lambda>phase.
     bindR (col as_int r ''priority'') (\<lambda>priority.
     bindR (col as_text r ''lane'') (\<lambda>lane.
     bindR (col (nullable as_real) r ''queued_at'') (\<lambda>queued_at.
     bindR (col (nullable as_text) r ''wait_reason'') (\<lambda>wait_reason.
     bindR (col as_int r ''revision'') (\<lambda>revision.
       Inr \<lparr>tr_task_id = task_id, tr_workspace_id = workspace_id, tr_goal = goal,
         tr_success_criteria_json = criteria, tr_constraints_json = constraints, tr_state = state,
         tr_desired_state = desired_state, tr_phase = phase, tr_priority = priority, tr_lane = lane,
         tr_queued_at = queued_at, tr_wait_reason = wait_reason, tr_budget_json = budget,
         tr_revision = revision\<rparr>))))))))))))))"

definition task_storable :: "json_reader \<Rightarrow> (pyfloat \<Rightarrow> string) \<Rightarrow> task_row \<Rightarrow> bool" where
  "task_storable rd fr r \<longleftrightarrow> storable rd fr (JDict (tr_budget_json r))"

lemma load_budget_cell:
  assumes "dump_cell fr (JDict d) = Inr v" and "storable rd fr (JDict d)"
  shows "load_budget rd v = Inr d"
  using dump_cell_truthy[OF assms(1)] by (simp add: load_budget_def load_dump[OF assms])

interpretation task_codec: row_codec "task_columns fr" "read_task_row rd" "task_storable rd fr"
  for fr rd
proof
  fix r cs assume w: "task_columns fr r = Inr cs" and "task_storable rd fr r"
  then have ok: "storable rd fr (JDict (tr_budget_json r))" by (simp add: task_storable_def)
  from w show "read_task_row rd cs = Inr r"
    by (auto simp: task_columns_def bindR_Inr_iff read_task_row_def read_defs load_dump[OF _ storable_stringsI[OF ok]]
        load_budget_cell[OF _ ok])
qed

section \<open>Operations\<close>

text \<open>\<^verbatim>\<open>json.dumps(op.result) if op.result is not None else None\<close> and its reading:
  \<^verbatim>\<open>json.loads(row["result_json"]) if row["result_json"] else None\<close>\<close>

definition dump_result :: "(pyfloat \<Rightarrow> string) \<Rightarrow> dict option \<Rightarrow> exc + sql" where
  "dump_result fr x = (case x of None \<Rightarrow> Inr SNull | Some d \<Rightarrow> dump_cell fr (JDict d))"

definition load_result :: "json_reader \<Rightarrow> sql \<Rightarrow> exc + dict option" where
  "load_result rd v =
     (if v \<in> {SNull, SText []} then Inr None else bindR (load_as rd as_object v) (\<lambda>d. Inr (Some d)))"

definition operation_columns :: "(pyfloat \<Rightarrow> string) \<Rightarrow> operation_row \<Rightarrow> exc + sql_row" where
  "operation_columns fr r =
     bindR (dump_cell fr (json_strings (or_object_refs_json r))) (\<lambda>object_refs.
     bindR (dump_cell fr (JDict (or_arguments_json r))) (\<lambda>arguments.
     bindR (dump_cell fr (json_ints (or_expected_revisions_json r))) (\<lambda>expected_revisions.
     bindR (dump_cell fr (JList (map JDict (or_evidence_json r)))) (\<lambda>evidence.
     bindR (dump_result fr (or_result_json r)) (\<lambda>result.
       Inr [(''operation_id'', SText (or_operation_id r)), (''task_id'', SText (or_task_id r)),
         (''workspace_id'', SText (or_workspace_id r)), (''capability'', SText (or_capability r)),
         (''action'', SText (or_action r)), (''object_refs_json'', object_refs),
         (''arguments_json'', arguments), (''risk_class'', SText (or_risk_class r)),
         (''required_permission'', SText (or_required_permission r)),
         (''idempotency_mode'', SText (or_idempotency_mode r)), (''state'', SText (or_state r)),
         (''expected_revisions_json'', expected_revisions), (''evidence_json'', evidence),
         (''result_json'', result), (''error'', of_opt SText (or_error r)),
         (''task_lease_owner_id'', of_opt SText (or_task_lease_owner_id r)),
         (''task_lease_generation'', of_opt SInt (or_task_lease_generation r)),
         (''resource_lease_owner_id'', of_opt SText (or_resource_lease_owner_id r)),
         (''resource_lease_generation'', of_opt SInt (or_resource_lease_generation r))])))))"

definition read_operation_row :: "json_reader \<Rightarrow> sql_row \<Rightarrow> exc + operation_row" where
  "read_operation_row rd r =
     bindR (col as_text r ''operation_id'') (\<lambda>operation_id.
     bindR (col as_text r ''task_id'') (\<lambda>task_id.
     bindR (col as_text r ''workspace_id'') (\<lambda>workspace_id.
     bindR (col as_text r ''capability'') (\<lambda>capability.
     bindR (col as_text r ''action'') (\<lambda>action.
     bindR (col (load_as rd (as_list as_string)) r ''object_refs_json'') (\<lambda>object_refs.
     bindR (col (load_as rd as_object) r ''arguments_json'') (\<lambda>arguments.
     bindR (col as_text r ''risk_class'') (\<lambda>risk_class.
     bindR (col as_text r ''required_permission'') (\<lambda>required_permission.
     bindR (col as_text r ''idempotency_mode'') (\<lambda>idempotency_mode.
     bindR (col as_text r ''state'') (\<lambda>state.
     bindR (col (load_as rd as_ints) r ''expected_revisions_json'') (\<lambda>expected_revisions.
     bindR (col (load_as rd (as_list as_object)) r ''evidence_json'') (\<lambda>evidence.
     bindR (col (load_result rd) r ''result_json'') (\<lambda>result.
     bindR (col (nullable as_text) r ''error'') (\<lambda>error.
     bindR (col (nullable as_text) r ''task_lease_owner_id'') (\<lambda>task_lease_owner_id.
     bindR (col (nullable as_int) r ''task_lease_generation'') (\<lambda>task_lease_generation.
     bindR (col (nullable as_text) r ''resource_lease_owner_id'') (\<lambda>resource_lease_owner_id.
     bindR (col (nullable as_int) r ''resource_lease_generation'') (\<lambda>resource_lease_generation.
       Inr \<lparr>or_operation_id = operation_id, or_task_id = task_id, or_workspace_id = workspace_id,
         or_capability = capability, or_action = action, or_object_refs_json = object_refs,
         or_arguments_json = arguments, or_risk_class = risk_class,
         or_required_permission = required_permission, or_idempotency_mode = idempotency_mode,
         or_state = state, or_expected_revisions_json = expected_revisions,
         or_evidence_json = evidence, or_result_json = result, or_error = error,
         or_task_lease_owner_id = task_lease_owner_id,
         or_task_lease_generation = task_lease_generation,
         or_resource_lease_owner_id = resource_lease_owner_id,
         or_resource_lease_generation = resource_lease_generation\<rparr>)))))))))))))))))))"

definition operation_storable :: "json_reader \<Rightarrow> (pyfloat \<Rightarrow> string) \<Rightarrow> operation_row \<Rightarrow> bool" where
  "operation_storable rd fr r \<longleftrightarrow> storable rd fr (JDict (or_arguments_json r))
     \<and> storable rd fr (json_ints (or_expected_revisions_json r))
     \<and> storable rd fr (JList (map JDict (or_evidence_json r)))
     \<and> (\<forall>d \<in> set_option (or_result_json r). storable rd fr (JDict d))"

lemma load_result_cell:
  assumes "dump_result fr x = Inr v" and "\<forall>d \<in> set_option x. storable rd fr (JDict d)"
  shows "load_result rd v = Inr x"
proof (cases x)
  case None
  with assms(1) show ?thesis by (simp add: dump_result_def load_result_def)
next
  case (Some d)
  with assms have d: "dump_cell fr (JDict d) = Inr v" "storable rd fr (JDict d)" by (simp_all add: dump_result_def)
  with dump_cell_truthy[OF d(1)] Some show ?thesis by (simp add: load_result_def load_dump[OF d])
qed

interpretation operation_codec: row_codec "operation_columns fr" "read_operation_row rd" "operation_storable rd fr"
  for fr rd
proof
  fix r cs assume w: "operation_columns fr r = Inr cs" and "operation_storable rd fr r"
  then have ok: "storable rd fr (JDict (or_arguments_json r))"
    "storable rd fr (json_ints (or_expected_revisions_json r))"
    "storable rd fr (JList (map JDict (or_evidence_json r)))"
    and res: "\<forall>d \<in> set_option (or_result_json r). storable rd fr (JDict d)"
    by (simp_all add: operation_storable_def)
  from w show "read_operation_row rd cs = Inr r"
    by (auto simp: operation_columns_def bindR_Inr_iff read_operation_row_def read_defs
        load_dump[OF _ storable_stringsI[OF ok(1)]] load_dump[OF _ ok(1)] load_dump[OF _ ok(2)]
        load_dump[OF _ ok(3)] load_result_cell[OF _ res])
qed

section \<open>World entities\<close>

definition entity_columns :: "(pyfloat \<Rightarrow> string) \<Rightarrow> entity_row \<Rightarrow> exc + sql_row" where
  "entity_columns fr r =
     bindR (dump_cell fr (JDict (wr_metadata_json r))) (\<lambda>metadata.
     bindR (dump_cell fr (json_strings (wr_permissions_json r))) (\<lambda>permissions.
       Inr [(''entity_id'', SText (wr_entity_id r)), (''entity_type'', SText (wr_entity_type r)),
         (''workspace_id'', SText (wr_workspace_id r)), (''locator'', SText (wr_locator r)),
         (''version'', SInt (wr_version r)), (''status'', SText (wr_status r)),
         (''metadata_json'', metadata), (''permissions_json'', permissions)]))"

definition read_entity_row :: "json_reader \<Rightarrow> sql_row \<Rightarrow> exc + entity_row" where
  "read_entity_row rd r =
     bindR (col as_text r ''entity_id'') (\<lambda>entity_id.
     bindR (col as_text r ''entity_type'') (\<lambda>entity_type.
     bindR (col as_text r ''workspace_id'') (\<lambda>workspace_id.
     bindR (col as_text r ''locator'') (\<lambda>loc.
     bindR (col as_int r ''version'') (\<lambda>version.
     bindR (col as_text r ''status'') (\<lambda>status.
     bindR (col (load_as rd as_object) r ''metadata_json'') (\<lambda>metadata.
     bindR (col (load_as rd (as_list as_string)) r ''permissions_json'') (\<lambda>permissions.
       Inr \<lparr>wr_entity_id = entity_id, wr_entity_type = entity_type, wr_workspace_id = workspace_id,
         wr_locator = loc, wr_version = version, wr_status = status, wr_metadata_json = metadata,
         wr_permissions_json = permissions\<rparr>))))))))"

definition entity_storable :: "json_reader \<Rightarrow> (pyfloat \<Rightarrow> string) \<Rightarrow> entity_row \<Rightarrow> bool" where
  "entity_storable rd fr r \<longleftrightarrow> storable rd fr (JDict (wr_metadata_json r))"

interpretation entity_codec: row_codec "entity_columns fr" "read_entity_row rd" "entity_storable rd fr"
  for fr rd
proof
  fix r cs assume w: "entity_columns fr r = Inr cs" and "entity_storable rd fr r"
  then have ok: "storable rd fr (JDict (wr_metadata_json r))" by (simp add: entity_storable_def)
  from w show "read_entity_row rd cs = Inr r"
    by (auto simp: entity_columns_def bindR_Inr_iff read_entity_row_def read_defs
        load_dump[OF _ storable_stringsI[OF ok]] load_dump[OF _ ok])
qed

section \<open>Outbox and events\<close>

text \<open>
  The parameters of \<^verbatim>\<open>_insert_outbox\<close>, with the key SQLite assigns and \<open>dispatched\<close> 0, and the
  columns \<^verbatim>\<open>pending_outbox\<close> and the dispatch read.
\<close>

definition outbox_columns :: "(pyfloat \<Rightarrow> string) \<Rightarrow> outbox_row \<Rightarrow> exc + sql_row" where
  "outbox_columns fr r =
     bindR (dump_cell fr (json_strings (ob_object_refs_json r))) (\<lambda>object_refs.
     bindR (dump_cell fr (JDict (ob_payload_json r))) (\<lambda>payload.
       Inr [(''outbox_id'', SInt (ob_outbox_id r)), (''event_id'', of_opt SText (ob_event_id r)),
         (''workspace_id'', SText (ob_workspace_id r)), (''event_type'', SText (ob_event_type r)),
         (''actor'', SText (ob_actor r)), (''task_id'', of_opt SText (ob_task_id r)),
         (''operation_id'', of_opt SText (ob_operation_id r)), (''object_refs_json'', object_refs),
         (''payload_json'', payload), (''causation_id'', of_opt SText (ob_causation_id r)),
         (''correlation_id'', of_opt SText (ob_correlation_id r)),
         (''occurred_at'', SReal (ob_occurred_at r)),
         (''learning_allowed'', SInt (ob_learning_allowed r)),
         (''dispatched'', SInt (ob_dispatched r))]))"

definition read_outbox_row :: "json_reader \<Rightarrow> sql_row \<Rightarrow> exc + outbox_row" where
  "read_outbox_row rd r =
     bindR (col as_int r ''outbox_id'') (\<lambda>outbox_id.
     bindR (col (nullable as_text) r ''event_id'') (\<lambda>event_id.
     bindR (col as_text r ''workspace_id'') (\<lambda>workspace_id.
     bindR (col as_text r ''event_type'') (\<lambda>event_type.
     bindR (col as_text r ''actor'') (\<lambda>actor.
     bindR (col (nullable as_text) r ''task_id'') (\<lambda>task_id.
     bindR (col (nullable as_text) r ''operation_id'') (\<lambda>operation_id.
     bindR (col (load_as rd (as_list as_string)) r ''object_refs_json'') (\<lambda>object_refs.
     bindR (col (load_as rd as_object) r ''payload_json'') (\<lambda>payload.
     bindR (col (nullable as_text) r ''causation_id'') (\<lambda>causation_id.
     bindR (col (nullable as_text) r ''correlation_id'') (\<lambda>correlation_id.
     bindR (col as_real r ''occurred_at'') (\<lambda>occurred_at.
     bindR (col as_int r ''learning_allowed'') (\<lambda>learning_allowed.
     bindR (col as_int r ''dispatched'') (\<lambda>dispatched.
       Inr \<lparr>ob_outbox_id = outbox_id, ob_event_id = event_id, ob_workspace_id = workspace_id,
         ob_event_type = event_type, ob_actor = actor, ob_task_id = task_id,
         ob_operation_id = operation_id, ob_object_refs_json = object_refs,
         ob_payload_json = payload, ob_causation_id = causation_id,
         ob_correlation_id = correlation_id, ob_occurred_at = occurred_at,
         ob_learning_allowed = learning_allowed, ob_dispatched = dispatched\<rparr>))))))))))))))"

text \<open>
  The parameters of the insert into \<open>events\<close> on dispatch: the JSON columns are copied as text
  from the row of the outbox, unread.
\<close>

definition dispatched_columns :: "sql_row \<Rightarrow> int \<Rightarrow> string \<Rightarrow> pyfloat \<Rightarrow> exc + sql_row" where
  "dispatched_columns r sequence event_id observed_at =
     bindR (mapR (\<lambda>n. bindR (row_item r n) (\<lambda>v. Inr (n, v)))
       [''workspace_id'', ''event_type'', ''actor'', ''task_id'', ''operation_id'', ''object_refs_json'',
        ''payload_json'', ''causation_id'', ''correlation_id'', ''learning_allowed'']) (\<lambda>copied.
     bindR (row_item r ''occurred_at'') (\<lambda>occurred_at.
       Inr ([(''sequence'', SInt sequence), (''event_id'', SText event_id)] @ copied
         @ [(''occurred_at'', if occurred_at \<in> {SNull, SReal 0, SInt 0} then SReal observed_at else occurred_at),
            (''observed_at'', SReal observed_at)])))"

text \<open>The columns \<^verbatim>\<open>_row_to_event\<close> reads.\<close>

definition read_event_row :: "json_reader \<Rightarrow> sql_row \<Rightarrow> exc + event_row" where
  "read_event_row rd r =
     bindR (col as_int r ''sequence'') (\<lambda>sequence.
     bindR (col as_text r ''event_id'') (\<lambda>event_id.
     bindR (col as_text r ''workspace_id'') (\<lambda>workspace_id.
     bindR (col as_text r ''event_type'') (\<lambda>event_type.
     bindR (col as_text r ''actor'') (\<lambda>actor.
     bindR (col (nullable as_text) r ''task_id'') (\<lambda>task_id.
     bindR (col (nullable as_text) r ''operation_id'') (\<lambda>operation_id.
     bindR (col (load_as rd (as_list as_string)) r ''object_refs_json'') (\<lambda>object_refs.
     bindR (col (load_as rd as_object) r ''payload_json'') (\<lambda>payload.
     bindR (col (nullable as_text) r ''causation_id'') (\<lambda>causation_id.
     bindR (col (nullable as_text) r ''correlation_id'') (\<lambda>correlation_id.
     bindR (col as_real r ''occurred_at'') (\<lambda>occurred_at.
     bindR (col as_real r ''observed_at'') (\<lambda>observed_at.
     bindR (col as_int r ''learning_allowed'') (\<lambda>learning_allowed.
       Inr \<lparr>er_sequence = sequence, er_event_id = event_id, er_workspace_id = workspace_id,
         er_event_type = event_type, er_actor = actor, er_task_id = task_id,
         er_operation_id = operation_id, er_object_refs_json = object_refs,
         er_payload_json = payload, er_causation_id = causation_id,
         er_correlation_id = correlation_id, er_occurred_at = occurred_at,
         er_observed_at = observed_at, er_learning_allowed = learning_allowed\<rparr>))))))))))))))"

definition outbox_storable :: "json_reader \<Rightarrow> (pyfloat \<Rightarrow> string) \<Rightarrow> outbox_row \<Rightarrow> bool" where
  "outbox_storable rd fr r \<longleftrightarrow> storable rd fr (JDict (ob_payload_json r))"

interpretation outbox_codec: row_codec "outbox_columns fr" "read_outbox_row rd" "outbox_storable rd fr"
  for fr rd
proof
  fix r cs assume w: "outbox_columns fr r = Inr cs" and "outbox_storable rd fr r"
  then have ok: "storable rd fr (JDict (ob_payload_json r))" by (simp add: outbox_storable_def)
  from w show "read_outbox_row rd cs = Inr r"
    by (auto simp: outbox_columns_def bindR_Inr_iff read_outbox_row_def read_defs
        load_dump[OF _ storable_stringsI[OF ok]] load_dump[OF _ ok])
qed

text \<open>
  The event a dispatch appends, as text, is read as the row \<^const>\<open>log_entry\<close> says.
\<close>

lemma dispatched_event_read:
  assumes "outbox_columns fr r = Inr cs" and "outbox_storable rd fr r"
    and "dispatched_columns cs sq eid obs = Inr es"
  shows "read_event_row rd es = Inr (log_entry r sq eid obs)"
proof -
  from assms(2) have ok: "storable rd fr (JDict (ob_payload_json r))" by (simp add: outbox_storable_def)
  obtain refs payload where cell: "dump_cell fr (json_strings (ob_object_refs_json r)) = Inr refs"
      "dump_cell fr (JDict (ob_payload_json r)) = Inr payload"
    and cs: "cs = [(''outbox_id'', SInt (ob_outbox_id r)), (''event_id'', of_opt SText (ob_event_id r)),
      (''workspace_id'', SText (ob_workspace_id r)), (''event_type'', SText (ob_event_type r)),
      (''actor'', SText (ob_actor r)), (''task_id'', of_opt SText (ob_task_id r)),
      (''operation_id'', of_opt SText (ob_operation_id r)), (''object_refs_json'', refs), (''payload_json'', payload),
      (''causation_id'', of_opt SText (ob_causation_id r)), (''correlation_id'', of_opt SText (ob_correlation_id r)),
      (''occurred_at'', SReal (ob_occurred_at r)), (''learning_allowed'', SInt (ob_learning_allowed r)),
      (''dispatched'', SInt (ob_dispatched r))]"
    using assms(1) by (auto simp: outbox_columns_def bindR_Inr_iff)
  have es: "es = [(''sequence'', SInt sq), (''event_id'', SText eid), (''workspace_id'', SText (ob_workspace_id r)),
      (''event_type'', SText (ob_event_type r)), (''actor'', SText (ob_actor r)),
      (''task_id'', of_opt SText (ob_task_id r)), (''operation_id'', of_opt SText (ob_operation_id r)),
      (''object_refs_json'', refs), (''payload_json'', payload), (''causation_id'', of_opt SText (ob_causation_id r)),
      (''correlation_id'', of_opt SText (ob_correlation_id r)), (''learning_allowed'', SInt (ob_learning_allowed r)),
      (''occurred_at'', SReal (if ob_occurred_at r = 0 then obs else ob_occurred_at r)), (''observed_at'', SReal obs)]"
    using assms(3) by (simp add: dispatched_columns_def row_item_def cs split: if_splits)
  show ?thesis
    by (simp add: read_event_row_def read_defs es log_entry_def load_dump[OF cell(1) storable_stringsI[OF ok]]
        load_dump[OF cell(2) ok])
qed

section \<open>Memory records\<close>

definition memory_columns :: "(pyfloat \<Rightarrow> string) \<Rightarrow> memory_row \<Rightarrow> exc + sql_row" where
  "memory_columns fr r =
     bindR (dump_cell fr (mr_value_json r)) (\<lambda>val.
     bindR (dump_cell fr (json_strings (mr_source_event_ids_json r))) (\<lambda>source_event_ids.
     bindR (dump_cell fr (json_strings (mr_support_event_ids_json r))) (\<lambda>support_event_ids.
       Inr [(''memory_id'', SText (mr_memory_id r)), (''workspace_id'', SText (mr_workspace_id r)),
         (''kind'', SText (mr_kind r)), (''key'', SText (mr_key r)), (''value_json'', val),
         (''scope'', SText (mr_scope r)), (''source_event_ids_json'', source_event_ids),
         (''confidence'', SReal (mr_confidence r)), (''revision'', SInt (mr_revision r)),
         (''supersedes'', of_opt SText (mr_supersedes r)),
         (''strategy_state'', of_opt SText (mr_strategy_state r)),
         (''support_count'', SInt (mr_support_count r)),
         (''support_event_ids_json'', support_event_ids)])))"

definition read_memory_row :: "json_reader \<Rightarrow> sql_row \<Rightarrow> exc + memory_row" where
  "read_memory_row rd r =
     bindR (col as_text r ''memory_id'') (\<lambda>memory_id.
     bindR (col as_text r ''workspace_id'') (\<lambda>workspace_id.
     bindR (col as_text r ''kind'') (\<lambda>kind.
     bindR (col as_text r ''key'') (\<lambda>key.
     bindR (col (load_as rd Inr) r ''value_json'') (\<lambda>val.
     bindR (col as_text r ''scope'') (\<lambda>scope.
     bindR (col (load_as rd (as_list as_string)) r ''source_event_ids_json'') (\<lambda>source_event_ids.
     bindR (col as_real r ''confidence'') (\<lambda>confidence.
     bindR (col as_int r ''revision'') (\<lambda>revision.
     bindR (col (nullable as_text) r ''supersedes'') (\<lambda>supersedes.
     bindR (col (nullable as_text) r ''strategy_state'') (\<lambda>strategy_state.
     bindR (col as_int r ''support_count'') (\<lambda>support_count.
     bindR (col (load_as rd (as_list as_string)) r ''support_event_ids_json'') (\<lambda>support_event_ids.
       Inr \<lparr>mr_memory_id = memory_id, mr_workspace_id = workspace_id, mr_kind = kind, mr_key = key,
         mr_value_json = val, mr_scope = scope, mr_source_event_ids_json = source_event_ids,
         mr_confidence = confidence, mr_revision = revision, mr_supersedes = supersedes,
         mr_strategy_state = strategy_state, mr_support_count = support_count,
         mr_support_event_ids_json = support_event_ids\<rparr>)))))))))))))"

definition memory_storable :: "json_reader \<Rightarrow> (pyfloat \<Rightarrow> string) \<Rightarrow> memory_row \<Rightarrow> bool" where
  "memory_storable rd fr r \<longleftrightarrow> storable rd fr (mr_value_json r) \<and> jr_depth rd > 0"

interpretation memory_codec: row_codec "memory_columns fr" "read_memory_row rd" "memory_storable rd fr"
  for fr rd
proof
  fix r cs assume w: "memory_columns fr r = Inr cs" and "memory_storable rd fr r"
  then have ok: "storable rd fr (mr_value_json r)" "\<And>xs. storable rd fr (json_strings xs)"
    by (simp_all add: memory_storable_def)
  from w show "read_memory_row rd cs = Inr r"
    by (auto simp: memory_columns_def bindR_Inr_iff read_memory_row_def read_defs
        load_dump[OF _ ok(2)] load_dump[OF _ ok(1)])
qed

section \<open>Loading from text\<close>

text \<open>\<^verbatim>\<open>load_tasks\<close> and \<^verbatim>\<open>load_operations\<close> over the rows of the result.\<close>

definition load_task_rows :: "json_reader \<Rightarrow> sql_row list \<Rightarrow> exc + (string \<times> task) list" where
  "load_task_rows rd rows = load_dict (\<lambda>cs. bindR (read_task_row rd cs) row_to_task) tk_task_id rows"

definition load_operation_rows :: "json_reader \<Rightarrow> sql_row list \<Rightarrow> exc + (string \<times> operation) list" where
  "load_operation_rows rd rows =
     load_dict (\<lambda>cs. bindR (read_operation_row rd cs) row_to_operation) op_operation_id rows"

text \<open>What the older version that knew no budgets wrote, and what it is loaded as.\<close>

definition old_task_cells :: "(pyfloat \<Rightarrow> string) \<Rightarrow> task \<Rightarrow> exc + sql_row" where
  "old_task_cells fr t =
     bindR (task_columns fr (task_to_row t)) (\<lambda>cs.
       Inr (filter (\<lambda>c. fst c \<in> set (map cl_name old_task_columns)) cs))"

definition aged_task :: "task \<Rightarrow> task" where
  "aged_task t = t\<lparr>tk_workspace_id := ''default'', tk_queued_at := None, tk_wait_reason := None,
     tk_budget := \<lparr>max_operations = 64, operations_started = 0, deadline_at = None\<rparr>\<rparr>"

definition added_task_cells :: sql_row where
  "added_task_cells = [(''workspace_id'', SText ''default''), (''queued_at'', SNull), (''wait_reason'', SNull),
     (''budget_json'', SText ''{}'')]"

lemma upgraded_old_tasks:
  "tb_columns t = old_task_columns \<Longrightarrow>
   tb_rows (upgraded ''tasks'' t) = map (\<lambda>r. r @ added_task_cells) (tb_rows t)"
  by (simp add: upgraded_def added_columns_def add_missing_def add_column_def old_task_columns_def column_defs
      added_task_cells_def default_value_def)

lemma load_empty_object [simp]: "jr_depth rd > 0 \<Longrightarrow> load_budget rd (SText ''{}'') = Inr []"
  using load_budget_cell[of "\<lambda>_. []" "[]" "SText ''{}''" rd]
  by (simp add: dump_cell_def storable_def column_style_def key_order_def)

text \<open>A row of the older version, with the added cells behind it, is read as the task with the defaults.\<close>

lemma old_task_read:
  assumes "old_task_cells fr t = Inr cs" and "jr_depth rd > 0"
  shows "bindR (read_task_row rd (cs @ added_task_cells)) row_to_task = Inr (aged_task t)"
proof -
  have strs: "storable rd fr (json_strings xs)" for xs using assms(2) by simp
  show ?thesis
    using assms
    by (auto simp: old_task_cells_def task_columns_def bindR_Inr_iff read_task_row_def read_defs added_task_cells_def
        old_task_columns_def column_defs load_dump[OF _ strs] nullable_def task_to_row_def row_to_task_def
        budget_of_json_def dict_get_or_def dict_get_def aged_task_def)
qed

lemma old_tasks_read:
  assumes "mapR (old_task_cells fr) ts = Inr rows" and "jr_depth rd > 0"
  shows "load_task_rows rd (map (\<lambda>r. r @ added_task_cells) rows) = load_dict Inr tk_task_id (map aged_task ts)"
  unfolding load_task_rows_def load_dict_def
proof -
  show "foldR (\<lambda>cs acc. bindR (bindR (read_task_row rd cs) row_to_task)
      (\<lambda>x. Inr (AList.update (tk_task_id x) x acc))) (map (\<lambda>r. r @ added_task_cells) rows) acc =
    foldR (\<lambda>r acc. bindR (Inr r) (\<lambda>x. Inr (AList.update (tk_task_id x) x acc))) (map aged_task ts) acc" for acc
    using assms by (induction ts arbitrary: rows acc) (auto simp: bindR_Inr_iff old_task_read)
qed

section \<open>Properties\<close>

definition sample_float :: "pyfloat \<Rightarrow> string" where
  "sample_float q = ''0.0''"

definition sample_reader :: json_reader where
  "sample_reader = \<lparr>jr_float = \<lambda>t. 0, jr_depth = 990\<rparr>"

definition stored_task :: task where
  "stored_task = \<lparr>tk_task_id = ''task_1'', tk_workspace_id = ''ws'', tk_goal = ''say \"hi\"'',
     tk_success_criteria = [''done''], tk_constraints = [], tk_state = TS_QUEUED, tk_desired_state = TS_COMPLETED,
     tk_phase = TP_THINKING, tk_priority = 1, tk_lane = ''default'', tk_queued_at = None, tk_wait_reason = None,
     tk_budget = \<lparr>max_operations = 8, operations_started = 2, deadline_at = None\<rparr>, tk_revision = 3\<rparr>"

definition stored_db :: db where
  "stored_db = upsert_operation (sample_operation OS_PREPARED) (upsert_task stored_task empty_db)"

text \<open>
  C13: the tables come back from their text. Whatever tasks and operations the store holds, the
  rows SQLite keeps of them, JSON columns as the text \<open>json.dumps\<close> wrote, are loaded as exactly
  those tasks and operations, every field included, as long as the decoder reads the numbers in
  them back and is deep enough for them.
\<close>

theorem store_reads_its_text:
  assumes "tasks_saved d ts" and "mapR (task_columns fr) (map snd (tasks_tbl d)) = Inr trows"
    and "list_all (task_storable rd fr) (map snd (tasks_tbl d))"
    and "operations_saved d ps" and "mapR (operation_columns fr) (map snd (operations_tbl d)) = Inr prows"
    and "list_all (operation_storable rd fr) (map snd (operations_tbl d))"
  shows "load_task_rows rd trows = Inr ts \<and> load_operation_rows rd prows = Inr ps"
proof
  show "load_task_rows rd trows = Inr ts"
    using task_rows.load_represents[OF assms(1)]
    by (simp add: load_task_rows_def task_codec.load_rows[OF assms(2,3)] load_tasks_def)
  show "load_operation_rows rd prows = Inr ps"
    using operation_rows.load_represents[OF assms(4)]
    by (simp add: load_operation_rows_def operation_codec.load_rows[OF assms(5,6)] load_operations_def)
qed

lemma stored_db_represents:
  "tasks_saved stored_db [(''task_1'', stored_task)]"
  "operations_saved stored_db [(''op_1'', sample_operation OS_PREPARED)]"
  by (simp_all add: stored_db_def tasks_saved_def operations_saved_def keyed_def upsert_operation_def upsert_task_def
      empty_db_def stored_task_def sample_operation_def)

lemma stored_task_writes: "\<exists>cs. task_columns sample_float (task_to_row stored_task) = Inr cs"
  by (simp add: task_columns_def task_to_row_def stored_task_def dump_cell_def json_strings_def budget_to_json_def
      repr_int_small column_style_def key_order_def)

lemma stored_operation_writes:
  "\<exists>cs. operation_columns sample_float (operation_to_row (sample_operation OS_PREPARED)) = Inr cs"
  by (simp add: operation_columns_def operation_to_row_def sample_operation_def dump_cell_def json_strings_def json_ints_def
      dump_result_def column_style_def key_order_def)

lemma stored_storable:
  "task_storable sample_reader sample_float (task_to_row stored_task)"
  "operation_storable sample_reader sample_float (operation_to_row (sample_operation OS_PREPARED))"
  by (simp_all add: task_storable_def operation_storable_def storable_def task_to_row_def stored_task_def
      budget_to_json_def operation_to_row_def sample_operation_def json_ints_def sample_reader_def)

theorem store_reads_its_text_witness:
  "\<exists>trows prows. load_task_rows sample_reader trows = Inr [(''task_1'', stored_task)]
     \<and> load_operation_rows sample_reader prows = Inr [(''op_1'', sample_operation OS_PREPARED)]"
proof -
  note rep = stored_db_represents
  from rep have tb: "map snd (tasks_tbl stored_db) = [task_to_row stored_task]"
    "map snd (operations_tbl stored_db) = [operation_to_row (sample_operation OS_PREPARED)]"
    by (simp_all add: tasks_saved_def operations_saved_def)
  obtain cs ds where "task_columns sample_float (task_to_row stored_task) = Inr cs"
    "operation_columns sample_float (operation_to_row (sample_operation OS_PREPARED)) = Inr ds"
    using stored_task_writes stored_operation_writes by blast
  with store_reads_its_text[OF rep(1) _ _ rep(2), of sample_float "[cs]" sample_reader "[ds]"] stored_storable
  show ?thesis by (auto simp: tb)
qed

text \<open>
  C14: the tasks of an older version survive its upgrade. A store whose task table has the columns
  of the version before workspaces, queues and budgets is migrated and loaded with every task
  in place, its common fields unchanged, in the workspace \<open>default\<close>, unqueued, and with the
  default budget.
\<close>

theorem old_tasks_load:
  assumes "migrate d = Inr d'" and "map_of (sq_tables d) ''tasks'' = Some t" and "tb_columns t = old_task_columns"
    and "mapR (old_task_cells fr) ts = Inr (tb_rows t)" and "distinct (map tk_task_id ts)" and "jr_depth rd > 0"
  shows "\<exists>u. map_of (sq_tables d') ''tasks'' = Some u
    \<and> load_task_rows rd (tb_rows u) = Inr (map (\<lambda>t. (tk_task_id t, aged_task t)) ts)"
proof -
  have up: "map_of (sq_tables d') ''tasks'' = Some (upgraded ''tasks'' t)"
    using migrate_table[OF assms(1,2)] by simp
  have "keyed tk_task_id (map (\<lambda>t. (tk_task_id t, aged_task t)) ts)"
    using assms(5) by (simp add: keyed_def comp_def aged_task_def)
  then have "load_dict Inr tk_task_id (map aged_task ts) = Inr (map (\<lambda>t. (tk_task_id t, aged_task t)) ts)"
    using load_dict_keyed[of "map (\<lambda>t. (tk_task_id t, aged_task t)) ts" Inr id tk_task_id] by (simp add: comp_def)
  with up show ?thesis by (simp add: upgraded_old_tasks[OF assms(3)] old_tasks_read[OF assms(4,6)])
qed

definition old_task :: task where
  "old_task = \<lparr>tk_task_id = ''t1'', tk_workspace_id = ''any'', tk_goal = ''tidy'',
     tk_success_criteria = [], tk_constraints = [], tk_state = TS_QUEUED, tk_desired_state = TS_COMPLETED,
     tk_phase = TP_THINKING, tk_priority = 1, tk_lane = ''default'', tk_queued_at = None, tk_wait_reason = None,
     tk_budget = \<lparr>max_operations = 8, operations_started = 2, deadline_at = None\<rparr>, tk_revision = 3\<rparr>"

lemma old_task_written: "old_task_cells sample_float old_task = Inr old_task_row"
  by (simp add: old_task_cells_def task_columns_def task_to_row_def old_task_def dump_cell_def json_strings_def
      budget_to_json_def repr_int_small column_style_def key_order_def old_task_columns_def column_defs old_task_row_def)

theorem old_tasks_load_witness:
  "\<exists>d' u. migrate old_store = Inr d' \<and> map_of (sq_tables d') ''tasks'' = Some u
     \<and> load_task_rows sample_reader (tb_rows u) = Inr [(''t1'', aged_task old_task)]"
proof -
  obtain d' where d': "migrate old_store = Inr d'" using opening_returns[OF old_store_ready old_store_world] by blast
  have id: "tk_task_id old_task = ''t1''" by (simp add: old_task_def)
  from old_tasks_load[OF d' old_store_tables(1), of sample_float "[old_task]" sample_reader] d' id show ?thesis
    by (simp add: new_table_def old_task_written sample_reader_def)
qed

end
