(* ===== verification/World.thy ===== *)
theory World
  imports Store_Events
begin

text \<open>
  The world model, \<^verbatim>\<open>src/liandanlu_native/world.py\<close>: entities, relations and revisions,
  with or without the SQLite store behind it (\<open>world_durable\<close> is \<open>persistence is not
  None\<close>). Reading operations are functions of the world; writing operations are computations on
  the state, which also write the tables.

  The lemmas show workspace isolation of access and of revision counters, that a revision check
  is exactly equality of every expected revision, and that the durable world is at every
  moment the one \<open>load_world_model\<close> would rebuild.
\<close>

record world_model =
  revisions :: world_revisions
  entities :: "(string \<times> entity) list"
  relations :: "(string \<times> (string \<times> string) list) list"
  workspace_revisions :: "(string \<times> int) list"
  observations :: "dict list"

definition empty_world :: world_model where
  "empty_world = \<lparr>revisions = initial_revisions, entities = [], relations = [],
     workspace_revisions = [], observations = []\<rparr>"

record world_st = store_st +
  world_durable :: bool
  world :: world_model

section \<open>Reading\<close>

definition workspace_revision :: "world_model \<Rightarrow> string \<Rightarrow> int" where
  "workspace_revision w ws = (case map_of (workspace_revisions w) ws of None \<Rightarrow> 0 | Some n \<Rightarrow> n)"

definition get_entity :: "world_model \<Rightarrow> string \<Rightarrow> int option \<Rightarrow> exc + entity" where
  "get_entity w ref expected_version =
     (case map_of (entities w) ref of
        None \<Rightarrow> Inl (UnknownObject ref)
      | Some e \<Rightarrow>
          if en_status e \<noteq> ''active'' then Inl (UnknownObject (ref @ '' is '' @ en_status e))
          else case expected_version of
            None \<Rightarrow> Inr e
          | Some v \<Rightarrow>
              if en_version e \<noteq> v
              then Inl (EntityVersionConflict (ref @ '': expected '' @ int_str v @ '', actual ''
                     @ int_str (en_version e)))
              else Inr e)"

definition assert_access :: "world_model \<Rightarrow> string \<Rightarrow> string \<Rightarrow> string \<Rightarrow> exc + entity" where
  "assert_access w ref permission ws =
     bindR (get_entity w ref None) (\<lambda>e.
       if en_workspace_id e \<noteq> ws
       then Inl (PermissionError (ref @ '' belongs to workspace '' @ en_workspace_id e
              @ '', not '' @ ws))
       else if permission |\<notin>| en_permissions e
       then Inl (PermissionError (ref @ '' lacks '' @ permission))
       else Inr e)"

definition resolve_locator :: "world_model \<Rightarrow> string \<Rightarrow> string \<Rightarrow> string option \<Rightarrow> exc + string" where
  "resolve_locator w ref permission ws =
     (case ws of
        None \<Rightarrow> bindR (get_entity w ref None) (\<lambda>e.
          if permission |\<notin>| en_permissions e
          then Inl (PermissionError (ref @ '' lacks '' @ permission))
          else Inr (en_locator e))
      | Some ws \<Rightarrow> bindR (assert_access w ref permission ws) (\<lambda>e. Inr (en_locator e)))"

definition assert_revision :: "world_model \<Rightarrow> string option \<Rightarrow> string \<times> int \<Rightarrow> exc + unit" where
  "assert_revision w ws item =
     (case item of (domain, value) \<Rightarrow>
      bindR (if domain = ''workspace''
             then (case ws of
                 None \<Rightarrow> Inl (ValueError ''workspace_id is required for workspace revision checks'')
               | Some ws \<Rightarrow> Inr (workspace_revision w ws))
             else (case rev_attr (revisions w) domain of
                 None \<Rightarrow> Inl (KeyError domain)
               | Some actual \<Rightarrow> Inr actual)) (\<lambda>actual.
        if actual \<noteq> value
        then Inl (StaleWorld (domain @ '': expected '' @ int_str value @ '', actual ''
               @ int_str actual))
        else Inr ()))"

definition assert_revisions ::
  "world_model \<Rightarrow> (string \<times> int) list \<Rightarrow> string option \<Rightarrow> exc + unit" where
  "assert_revisions w expected ws = foldR (\<lambda>item _. assert_revision w ws item) expected ()"

section \<open>Writing\<close>

definition modify_world :: "(world_model \<Rightarrow> world_model) \<Rightarrow> ('z world_st_scheme, unit) py" where
  "modify_world f = modify (\<lambda>s. s\<lparr>world := f (world s)\<rparr>)"

definition persist_revisions :: "('z world_st_scheme, unit) py" where
  "persist_revisions =
     bindE (gets world_durable) (\<lambda>durable.
     bindE (gets (\<lambda>s. revisions (world s))) (\<lambda>r.
     whenE durable (save_world_revisions r)))"

definition bump_workspace :: "string \<Rightarrow> ('z world_st_scheme, unit) py" where
  "bump_workspace ws =
     bindE (gets (\<lambda>s. workspace_revision (world s) ws + 1)) (\<lambda>revision.
     thenE (modify_world (\<lambda>w. w\<lparr>workspace_revisions :=
         AList.update ws revision (workspace_revisions w)\<rparr>))
     (thenE (modify_world (\<lambda>w. w\<lparr>revisions := (revisions w)\<lparr>
         rev_workspace := rev_workspace (revisions w) + 1,
         global_revision := global_revision (revisions w) + 1\<rparr>\<rparr>))
     (bindE (gets world_durable) (\<lambda>durable.
     thenE (whenE durable (save_workspace_revision ws revision))
       persist_revisions))))"

definition register_entity :: "entity \<Rightarrow> ('z world_st_scheme, entity) py" where
  "register_entity e =
     thenE (modify_world (\<lambda>w. w\<lparr>entities := AList.update (en_entity_id e) e (entities w)\<rparr>))
     (bindE (gets world_durable) (\<lambda>durable.
     thenE (whenE durable (save_world_entity e))
     (thenE (bump_workspace (en_workspace_id e)) (ret e))))"

text \<open>\<open>revisions.bump(domain)\<close> in place.\<close>

definition bump_revision :: "string \<Rightarrow> ('z world_st_scheme, unit) py" where
  "bump_revision domain =
     bindE (gets (\<lambda>s. revisions (world s))) (\<lambda>r.
     bindE (of_result (bump r domain)) (\<lambda>r'.
     modify_world (\<lambda>w. w\<lparr>revisions := r'\<rparr>)))"

definition observe ::
  "string \<Rightarrow> string \<Rightarrow> dict \<Rightarrow> string \<Rightarrow> string option \<Rightarrow> ('z world_st_scheme, unit) py" where
  "observe source observation_type value domain ws =
     thenE (modify_world (\<lambda>w. w\<lparr>observations := observations w @
         [[(''source'', JStr source), (''type'', JStr observation_type), (''value'', JDict value),
           (''workspace_id'', case ws of None \<Rightarrow> JNull | Some i \<Rightarrow> JStr i)]]\<rparr>))
     (if domain = ''workspace'' then
        (case ws of
           None \<Rightarrow> raise (ValueError ''workspace_id is required for workspace observations'')
         | Some i \<Rightarrow> bump_workspace i)
      else thenE (bump_revision domain) persist_revisions)"

definition bucket :: "world_model \<Rightarrow> string \<Rightarrow> (string \<times> string) list" where
  "bucket w source = (case map_of (relations w) source of None \<Rightarrow> [] | Some b \<Rightarrow> b)"

definition relate :: "string \<Rightarrow> string \<Rightarrow> string \<Rightarrow> ('z world_st_scheme, unit) py" where
  "relate source relation target =
     bindE (gets world) (\<lambda>w.
     bindE (of_result (get_entity w source None)) (\<lambda>source_entity.
     bindE (of_result (get_entity w target None)) (\<lambda>target_entity.
     thenE (raise_if (en_workspace_id source_entity \<noteq> en_workspace_id target_entity)
        (PermissionError ''cross-workspace object relations require an explicit bridge''))
     (let edge = (relation, target) in
      thenE (modify_world (\<lambda>w. w\<lparr>relations :=
          AList.update source (bucket w source) (relations w)\<rparr>))
      (if edge \<in> set (bucket w source) then ret ()
       else thenE (modify_world (\<lambda>w. w\<lparr>relations :=
                AList.update source (bucket w source @ [edge]) (relations w)\<rparr>))
         (bindE (gets world_durable) (\<lambda>durable.
          thenE (whenE durable (save_world_relation source relation target))
            (bump_workspace (en_workspace_id source_entity)))))))))"

section \<open>Rebuilding the world\<close>

definition add_relation ::
  "string \<times> string \<times> string \<Rightarrow> (string \<times> (string \<times> string) list) list
   \<Rightarrow> (string \<times> (string \<times> string) list) list" where
  "add_relation row rels =
     (case row of (source, relation, target) \<Rightarrow>
      AList.update source ((case map_of rels source of None \<Rightarrow> [] | Some b \<Rightarrow> b) @ [(relation, target)])
        rels)"

definition load_world_model :: "db \<Rightarrow> world_model" where
  "load_world_model d =
     \<lparr>revisions = (case revisions_tbl d of None \<Rightarrow> initial_revisions | Some r \<Rightarrow> r),
      entities = fold (\<lambda>r es. AList.update (en_entity_id (row_to_entity r)) (row_to_entity r) es)
        (map snd (entities_tbl d)) [],
      relations = fold add_relation (relations_tbl d) [],
      workspace_revisions = fold (\<lambda>(ws, n) m. AList.update ws n m) (workspace_revisions_tbl d) [],
      observations = []\<rparr>"

section \<open>Access and revisions\<close>

lemma get_entity_Inr:
  "get_entity w ref v = Inr e \<Longrightarrow> map_of (entities w) ref = Some e \<and> en_status e = ''active''
     \<and> (\<forall>n. v = Some n \<longrightarrow> en_version e = n)"
  by (auto simp: get_entity_def split: option.splits if_splits)

lemma assert_access_Inr:
  "assert_access w ref perm ws = Inr e \<longleftrightarrow> map_of (entities w) ref = Some e
     \<and> en_status e = ''active'' \<and> en_workspace_id e = ws \<and> perm |\<in>| en_permissions e"
  by (auto simp: assert_access_def get_entity_def bindR_def split: option.splits if_splits sum.splits)

lemma resolve_locator_Inr:
  "resolve_locator w ref perm (Some ws) = Inr loc \<longleftrightarrow>
   (\<exists>e. assert_access w ref perm ws = Inr e \<and> loc = en_locator e)"
  by (auto simp: resolve_locator_def bindR_Inr_iff)

text \<open>The revision a check of \<open>domain\<close> compares with.\<close>

definition current_revision :: "world_model \<Rightarrow> string \<Rightarrow> string \<Rightarrow> int option" where
  "current_revision w ws domain =
     (if domain = ''workspace'' then Some (workspace_revision w ws)
      else rev_attr (revisions w) domain)"

lemma assert_revision_Inr:
  "assert_revision w (Some ws) (domain, value) = Inr u \<longleftrightarrow> current_revision w ws domain = Some value"
  by (auto simp: assert_revision_def current_revision_def split: option.splits)

lemma assert_revisions_Inr:
  "assert_revisions w expected (Some ws) = Inr u \<longleftrightarrow>
   (\<forall>(domain, value) \<in> set expected. current_revision w ws domain = Some value)"
  unfolding assert_revisions_def
  by (induction expected) (auto simp: bindR_Inr_iff assert_revision_Inr)

lemma assert_revisions_unchanged:
  assumes "\<And>domain. domain \<in> fst ` set expected \<Longrightarrow>
    current_revision w' ws domain = current_revision w ws domain"
  shows "assert_revisions w' expected (Some ws) = Inr u \<longleftrightarrow> assert_revisions w expected (Some ws) = Inr u"
  using assms by (force simp: assert_revisions_Inr)

section \<open>Effects of the writers\<close>

text \<open>The world after a bump of one workspace, and the tables after it.\<close>

definition bumped :: "string \<Rightarrow> world_model \<Rightarrow> world_model" where
  "bumped ws w = w\<lparr>workspace_revisions :=
       AList.update ws (workspace_revision w ws + 1) (workspace_revisions w),
     revisions := (revisions w)\<lparr>rev_workspace := rev_workspace (revisions w) + 1,
       global_revision := global_revision (revisions w) + 1\<rparr>\<rparr>"

definition save_world_tbls :: "string \<Rightarrow> world_model \<Rightarrow> db \<Rightarrow> db" where
  "save_world_tbls ws w d = d\<lparr>workspace_revisions_tbl :=
       AList.update ws (workspace_revision w ws) (workspace_revisions_tbl d),
     revisions_tbl := Some (revisions w)\<rparr>"

lemma run_modify_world [py_simps]: "modify_world f s = (Inr (), s\<lparr>world := f (world s)\<rparr>)"
  by (simp add: modify_world_def py_simps)

lemma run_persist_revisions [py_simps]:
  "persist_revisions s = (Inr (),
     if world_durable s then s\<lparr>db := (db s)\<lparr>revisions_tbl := Some (revisions (world s))\<rparr>\<rparr> else s)"
  by (simp add: persist_revisions_def py_simps)

lemma workspace_revision_bumped:
  "workspace_revision (bumped ws w) ws' = workspace_revision w ws' + (if ws' = ws then 1 else 0)"
  by (simp add: bumped_def workspace_revision_def)

lemma run_bump_workspace [py_simps]:
  "bump_workspace ws s = (Inr (), s\<lparr>world := bumped ws (world s),
     db := (if world_durable s then save_world_tbls ws (bumped ws (world s)) (db s) else db s)\<rparr>)"
  by (simp add: bump_workspace_def py_simps save_workspace_revision_def bumped_def
      save_world_tbls_def workspace_revision_def)

lemma run_bump_revision [py_simps]:
  "bump_revision domain s = (case bump (revisions (world s)) domain of
      Inl e \<Rightarrow> (Inl e, s) | Inr r \<Rightarrow> (Inr (), s\<lparr>world := (world s)\<lparr>revisions := r\<rparr>\<rparr>))"
  by (simp add: bump_revision_def py_simps split: sum.splits)

lemma current_revision_bumped:
  assumes "ws' \<noteq> ws" "domain \<noteq> ''global_revision''"
  shows "current_revision (bumped ws w) ws' domain = current_revision w ws' domain"
  using assms by (simp add: current_revision_def workspace_revision_bumped) (simp add: bumped_def rev_attr_def)

section \<open>The tables mirror the world\<close>

definition mirrors :: "db \<Rightarrow> world_model \<Rightarrow> bool" where
  "mirrors d w \<longleftrightarrow> keyed en_entity_id (entities w)
     \<and> entities_tbl d = map_values entity_to_row (entities w)
     \<and> relations w = fold add_relation (relations_tbl d) []
     \<and> revisions w = (case revisions_tbl d of None \<Rightarrow> initial_revisions | Some r \<Rightarrow> r)
     \<and> distinct (map fst (workspace_revisions w))
     \<and> workspace_revisions_tbl d = workspace_revisions w"

definition world_saved :: "'z world_st_scheme \<Rightarrow> bool" where
  "world_saved s \<longleftrightarrow> (world_durable s \<longrightarrow> mirrors (db s) (world s))"

lemma fold_update_keyed:
  assumes "keyed key m" and "keyed key (acc @ m)"
  shows "fold (\<lambda>x es. AList.update (key x) x es) (map snd m) acc = acc @ m"
  using assms
proof (induction m arbitrary: acc)
  case (Cons p m)
  obtain k x where p: "p = (k, x)" by (cases p)
  with Cons.prems have "AList.update (key x) x acc = acc @ [(k, x)]"
    by (intro trans[OF map_of_None_update]) (auto simp: keyed_def map_of_eq_None_iff)
  with Cons p show ?case by (auto simp: keyed_def)
qed simp

lemma fold_update_pairs:
  assumes "distinct (map fst (acc @ m))"
  shows "fold (\<lambda>(k, v). AList.update k v) m acc = acc @ m"
  using assms
proof (induction m arbitrary: acc)
  case (Cons p m)
  obtain k x where p: "p = (k, x)" by (cases p)
  with Cons.prems have "AList.update k x acc = acc @ [(k, x)]"
    by (intro trans[OF map_of_None_update]) (auto simp: map_of_eq_None_iff)
  with Cons p show ?case by auto
qed simp

lemma mirrors_load:
  assumes "mirrors d w"
  shows "load_world_model d = w\<lparr>observations := []\<rparr>"
proof -
  have "fold (\<lambda>r es. AList.update (en_entity_id (row_to_entity r)) (row_to_entity r) es)
      (map snd (entities_tbl d)) [] = fold (\<lambda>x es. AList.update (en_entity_id x) x es)
      (map snd (entities w)) []"
    using assms by (simp add: mirrors_def fold_map comp_def)
  also have "\<dots> = entities w"
    using fold_update_keyed[of en_entity_id "entities w" "[]"] assms by (simp add: mirrors_def)
  finally show ?thesis
    using assms fold_update_pairs[of "[]" "workspace_revisions w"]
    by (simp add: load_world_model_def mirrors_def)
qed

lemma mirrors_bumped:
  "mirrors d w \<Longrightarrow> mirrors (save_world_tbls ws (bumped ws w) d) (bumped ws w)"
  by (simp add: mirrors_def save_world_tbls_def workspace_revision_bumped) (simp add: bumped_def)

lemma mirrors_entity:
  "mirrors d w \<Longrightarrow>
   mirrors (d\<lparr>entities_tbl := AList.update (en_entity_id e) (entity_to_row e) (entities_tbl d)\<rparr>)
     (w\<lparr>entities := AList.update (en_entity_id e) e (entities w)\<rparr>)"
  by (simp add: mirrors_def keyed_update update_map_values)

lemma mirrors_revisions:
  "mirrors d w \<Longrightarrow> mirrors (d\<lparr>revisions_tbl := Some r\<rparr>) (w\<lparr>revisions := r\<rparr>)"
  by (simp add: mirrors_def)

lemma mirrors_observations [simp]: "mirrors d (w\<lparr>observations := obs\<rparr>) = mirrors d w"
  by (simp add: mirrors_def)

definition edges_of :: "(string \<times> (string \<times> string) list) list \<Rightarrow> string \<Rightarrow> (string \<times> string) list" where
  "edges_of rels src = (case map_of rels src of None \<Rightarrow> [] | Some b \<Rightarrow> b)"

lemma edges_add_relation:
  "edges_of (add_relation (a, r, t) rels) src =
     edges_of rels src @ (if src = a then [(r, t)] else [])"
  by (simp add: edges_of_def add_relation_def)

lemma edges_fold:
  "edges_of (fold add_relation rows rels) src =
     edges_of rels src @ map snd (filter (\<lambda>row. fst row = src) rows)"
  by (induction rows arbitrary: rels) (auto simp: edges_add_relation)

lemma distinct_fold_relations:
  "distinct (map fst rels) \<Longrightarrow> distinct (map fst (fold add_relation rows rels))"
  by (induction rows arbitrary: rels) (auto simp: add_relation_def split: prod.splits)

lemma mirrors_bucket:
  "mirrors d w \<Longrightarrow> bucket w src = map snd (filter (\<lambda>row. fst row = src) (relations_tbl d))"
  using edges_fold[of "relations_tbl d" "[]" src]
  by (simp add: mirrors_def bucket_def edges_of_def)

lemma mirrors_relate:
  assumes "mirrors d w" and "(r, t) \<notin> set (bucket w src)"
  shows "(src, r, t) \<notin> set (relations_tbl d)"
    and "mirrors (d\<lparr>relations_tbl := relations_tbl d @ [(src, r, t)]\<rparr>)
      (w\<lparr>relations := AList.update src (bucket w src @ [(r, t)]) (relations w)\<rparr>)"
proof -
  show "(src, r, t) \<notin> set (relations_tbl d)"
    using assms(2) unfolding mirrors_bucket[OF assms(1)] by force
  show "mirrors (d\<lparr>relations_tbl := relations_tbl d @ [(src, r, t)]\<rparr>)
      (w\<lparr>relations := AList.update src (bucket w src @ [(r, t)]) (relations w)\<rparr>)"
    using assms(1) by (simp add: mirrors_def add_relation_def bucket_def)
qed

lemma mirrors_same_bucket:
  assumes "mirrors d w" and "bucket w src \<noteq> []"
  shows "AList.update src (bucket w src) (relations w) = relations w"
proof -
  have "distinct (map fst (relations w))"
    using assms(1) distinct_fold_relations[of "[]"] by (simp add: mirrors_def)
  then show ?thesis using assms(2) by (auto simp: bucket_def split: option.splits)
qed

lemma keeps_world_register: "keeps world_saved (register_entity e)"
  by (rule keepsI)
    (auto simp: register_entity_def world_saved_def py_simps save_world_entity_def
      intro: mirrors_bumped mirrors_entity)

lemma keeps_world_observe: "keeps world_saved (observe src typ v domain ws)"
  by (rule keepsI)
    (auto simp: observe_def world_saved_def py_simps mirrors_bumped mirrors_revisions
      split: option.splits sum.splits)

lemma keeps_world_relate: "keeps world_saved (relate src r t)"
proof (rule keepsI)
  fix s :: "'z world_st_scheme"
  assume saved: "world_saved s"
  let ?w = "world s"
  show "world_saved (snd (relate src r t s))"
  proof (cases "\<exists>a b. get_entity ?w src None = Inr a \<and> get_entity ?w t None = Inr b
      \<and> en_workspace_id a = en_workspace_id b")
    case False
    then show ?thesis
      using saved by (auto simp: relate_def py_simps Let_def split: sum.splits)
  next
    case True
    then obtain a b where ab: "get_entity ?w src None = Inr a" "get_entity ?w t None = Inr b"
      "en_workspace_id a = en_workspace_id b" by blast
    show ?thesis
    proof (cases "(r, t) \<in> set (bucket ?w src)")
      case mem: True
      then have "bucket ?w src \<noteq> []" by auto
      then show ?thesis
        using saved ab mem mirrors_same_bucket[of "db s" ?w src]
        by (auto simp: relate_def py_simps world_saved_def Let_def)
    next
      case False
      have "mirrors (db s) ?w \<Longrightarrow> (src, r, t) \<notin> set (relations_tbl (db s))"
        using mirrors_relate(1) False by blast
      moreover have "bucket (?w\<lparr>relations := AList.update src (bucket ?w src) (relations ?w)\<rparr>) src =
          bucket ?w src" by (simp add: bucket_def)
      ultimately show ?thesis
        using saved ab False mirrors_relate(2)[of "db s" ?w r t src]
        by (auto simp: relate_def py_simps world_saved_def save_world_relation_def Let_def
            intro: mirrors_bumped)
    qed
  qed
qed

lemma keeps_store_world [wp]:
  "keeps store_ok (modify_world f)" "keeps store_ok persist_revisions"
  "keeps store_ok (bump_workspace ws)" "keeps store_ok (bump_revision domain)"
  by (rule keepsI, auto simp: py_simps save_world_tbls_def same_log_def intro: store_ok_mono
      split: sum.splits)+

section \<open>Runs of the world\<close>

inductive world_step :: "'z world_st_scheme \<Rightarrow> 'z world_st_scheme \<Rightarrow> bool" where
  register: "world_step s (snd (register_entity e s))"
| observe: "world_step s (snd (observe src typ v domain ws s))"
| relate: "world_step s (snd (relate src r t s))"

lemma world_step_saved: "world_step s s' \<Longrightarrow> world_saved s \<Longrightarrow> world_saved s'"
  by (induction rule: world_step.induct)
    (auto intro: keepsD keeps_world_register keeps_world_observe keeps_world_relate)

lemma keeps_durable_world: "world_step s s' \<Longrightarrow> world_durable s' = world_durable s"
  by (induction rule: world_step.induct)
    (auto simp: register_entity_def observe_def relate_def py_simps save_world_entity_def
      save_world_relation_def Let_def split: sum.splits option.splits)

lemma world_run_saved:
  assumes "world_step\<^sup>*\<^sup>* s s'" and "world_saved s"
  shows "world_saved s' \<and> world_durable s' = world_durable s"
  using assms(1)
  by (induction rule: rtranclp_induct) (auto simp: assms(2) keeps_durable_world intro: world_step_saved)

section \<open>Workspaces do not disturb each other\<close>

text \<open>The workspace a writer works in, when it works in one.\<close>

lemma register_revisions:
  "workspace_revision (world (snd (register_entity e s))) ws =
   workspace_revision (world s) ws + (if ws = en_workspace_id e then 1 else 0)"
  by (simp add: register_entity_def py_simps save_world_entity_def workspace_revision_bumped)
    (simp add: workspace_revision_def)

lemma register_current:
  "ws \<noteq> en_workspace_id e \<Longrightarrow> domain \<noteq> ''global_revision'' \<Longrightarrow>
   current_revision (world (snd (register_entity e s))) ws domain = current_revision (world s) ws domain"
  by (simp add: register_entity_def py_simps save_world_entity_def current_revision_bumped)
    (simp add: current_revision_def workspace_revision_def)

lemma observe_workspace_current:
  "ws \<noteq> ws' \<Longrightarrow> domain \<noteq> ''global_revision'' \<Longrightarrow>
   current_revision (world (snd (observe src typ v ''workspace'' (Some ws') s))) ws domain =
   current_revision (world s) ws domain"
  by (simp add: observe_def py_simps current_revision_bumped)
    (simp add: current_revision_def workspace_revision_def)

lemma observe_workspace_revision:
  "workspace_revision (world (snd (observe src typ v ''workspace'' (Some ws) s))) ws =
   workspace_revision (world s) ws + 1"
  by (simp add: observe_def py_simps workspace_revision_bumped) (simp add: workspace_revision_def)

section \<open>Properties\<close>

definition sample_entity :: "string \<Rightarrow> string \<Rightarrow> entity" where
  "sample_entity ref ws = \<lparr>en_entity_id = ref, en_entity_type = ''file'', en_workspace_id = ws,
     en_locator = ''/data/'' @ ref, en_version = 1, en_status = ''active'', en_metadata = [],
     en_permissions = {|''read''|}\<rparr>"

definition fresh_world :: "bool \<Rightarrow> world_st" where
  "fresh_world durable = \<lparr>hex_supply = sample_hex, clock_supply = (\<lambda>n. of_nat n + 1), ids_drawn = 0,
     clock_reads = 0, db = empty_db, world_durable = durable, world = empty_world\<rparr>"

text \<open>
  C9: the durable world is the world of the process. After any sequence of registrations,
  observations and relations, successful or not, a restart that rebuilds the world from the
  tables gets the same revisions, entities, relations and workspace revisions; only the list of
  observations, which is not stored, starts empty.
\<close>

theorem restart_rebuilds_world:
  assumes "world_step\<^sup>*\<^sup>* s s'" and "world_saved s" and "world_durable s"
  shows "load_world_model (db s') = (world s')\<lparr>observations := []\<rparr>"
  using world_run_saved[OF assms(1,2)] assms(3) by (intro mirrors_load) (simp add: world_saved_def)

theorem restart_rebuilds_world_witness:
  "load_world_model (db (snd (register_entity (sample_entity ''doc'' ''ws'') (fresh_world True)))) =
     (world (snd (register_entity (sample_entity ''doc'' ''ws'') (fresh_world True))))\<lparr>observations := []\<rparr>"
proof (rule restart_rebuilds_world)
  show "world_step\<^sup>*\<^sup>* (fresh_world True) (snd (register_entity (sample_entity ''doc'' ''ws'') (fresh_world True)))"
    by (rule r_into_rtranclp, rule world_step.register)
qed (simp_all add: fresh_world_def world_saved_def mirrors_def empty_world_def empty_db_def)

text \<open>
  Access is granted exactly to an active entity of the asking workspace that carries the
  permission, and the locator handed out is that entity's; every other reference, an entity of
  another workspace included, is refused with an exception.
\<close>

theorem locator_access_iff:
  "resolve_locator w ref perm (Some ws) = Inr loc \<longleftrightarrow>
   (\<exists>e. map_of (entities w) ref = Some e \<and> en_status e = ''active'' \<and> en_workspace_id e = ws
      \<and> perm |\<in>| en_permissions e \<and> loc = en_locator e)"
  by (auto simp: resolve_locator_Inr assert_access_Inr)

text \<open>
  A revision check succeeds exactly when every expected value is the current one: the
  revision of the task's own workspace for the domain \<open>workspace\<close>, the world's counter of
  that name for every other domain; an unknown domain never passes.
\<close>

theorem revisions_current_iff:
  "assert_revisions w expected (Some ws) = Inr () \<longleftrightarrow>
   (\<forall>(domain, value) \<in> set expected. (if domain = ''workspace'' then Some (workspace_revision w ws)
      else rev_attr (revisions w) domain) = Some value)"
  by (simp add: assert_revisions_Inr current_revision_def)

theorem revisions_current_iff_witness:
  "assert_revisions empty_world [(''workspace'', 0), (''tasks'', 0)] (Some ''ws'') = Inr ()"
  unfolding revisions_current_iff
  by (simp add: empty_world_def workspace_revision_def rev_attr_def initial_revisions_def)

text \<open>
  Workspaces do not disturb each other. Registering an entity in one workspace moves that
  workspace's revision by one and leaves every revision check of every other workspace as it
  was, the global revision excepted.
\<close>

theorem registration_is_local:
  assumes "ws \<noteq> en_workspace_id e" and "''global_revision'' \<notin> fst ` set expected"
  shows "(assert_revisions (world (snd (register_entity e s))) expected (Some ws) = Inr () \<longleftrightarrow>
      assert_revisions (world s) expected (Some ws) = Inr ()) \<and>
    workspace_revision (world (snd (register_entity e s))) (en_workspace_id e) =
      workspace_revision (world s) (en_workspace_id e) + 1"
proof -
  have "current_revision (world (snd (register_entity e s))) ws domain = current_revision (world s) ws domain"
    if "domain \<in> fst ` set expected" for domain
    using assms that by (intro register_current) blast+
  from assert_revisions_unchanged[OF this] show ?thesis by (simp add: register_revisions)
qed

theorem registration_is_local_witness:
  "assert_revisions (world (snd (register_entity (sample_entity ''doc'' ''a'') (fresh_world True))))
     [(''desktop'', 0)] (Some ''b'') = Inr ()"
  using registration_is_local[of "''b''" "sample_entity ''doc'' ''a''" "[(''desktop'', 0)]" "fresh_world True"]
  by (simp add: sample_entity_def fresh_world_def assert_revisions_Inr current_revision_def empty_world_def
      rev_attr_def initial_revisions_def)

end
