(* ===== verification/Events.thy ===== *)
theory Events
  imports World
begin

text \<open>
  The event facade, \<^verbatim>\<open>src/liandanlu_native/events.py\<close>: with a store behind it
  (\<open>events_durable\<close>) every call goes to the outbox, the log and the cursors of the store,
  without one the facade keeps lists of its own.

  The contract consumers rely on is the locale \<open>event_log\<close>: flushing appends to a log
  numbered from 1, a consumer reads what lies beyond its cursor. The facade interprets it, in
  both modes at once, and the locale's lemmas give exactly-once delivery in order.
\<close>

record events_st = world_st +
  events_durable :: bool
  mem_events :: "event list"
  mem_outbox :: "(string \<times> event_args) list"
  mem_cursors :: "(string \<times> int) list"

definition enqueue_outbox :: "event_args \<Rightarrow> ('z events_st_scheme, string) py" where
  "enqueue_outbox a =
     bindE (gets events_durable) (\<lambda>durable.
     if durable then enqueue_event_outbox a
     else bindE (new_id ''outbox'') (\<lambda>outbox_id.
       thenE (modify (\<lambda>s. s\<lparr>mem_outbox := mem_outbox s @ [(outbox_id, a)]\<rparr>)) (ret outbox_id)))"

definition mem_event :: "event_args \<Rightarrow> int \<Rightarrow> string \<Rightarrow> pyfloat \<Rightarrow> event" where
  "mem_event a sq eid ts =
     \<lparr>ev_sequence = sq, ev_event_id = eid, ev_workspace_id = ea_workspace_id a,
      ev_event_type = ea_event_type a, ev_actor = ea_actor a, ev_task_id = ea_task_id a,
      ev_operation_id = ea_operation_id a, ev_object_refs = ea_object_refs a,
      ev_payload = ea_payload a, ev_causation_id = ea_causation_id a,
      ev_correlation_id = ea_correlation_id a, ev_occurred_at = ts, ev_observed_at = ts,
      ev_learning_allowed = ea_learning_allowed a\<rparr>"

definition emit :: "string \<times> event_args \<Rightarrow> ('z events_st_scheme, event) py" where
  "emit item =
     bindE now (\<lambda>ts.
     bindE (gets (\<lambda>s. int (length (mem_events s)) + 1)) (\<lambda>sq.
     bindE (new_id ''evt'') (\<lambda>eid.
     thenE (modify (\<lambda>s. s\<lparr>mem_events := mem_events s @ [mem_event (snd item) sq eid ts]\<rparr>))
       (ret (mem_event (snd item) sq eid ts)))))"

definition flush_outbox :: "('z events_st_scheme, event list) py" where
  "flush_outbox =
     bindE (gets events_durable) (\<lambda>durable.
     if durable then dispatch_event_outbox 100
     else bindE (gets mem_outbox) (\<lambda>pending.
       thenE (modify (\<lambda>s. s\<lparr>mem_outbox := []\<rparr>)) (mapE emit pending)))"

definition mem_cursor :: "'z events_st_scheme \<Rightarrow> string \<Rightarrow> int" where
  "mem_cursor s c = (case map_of (mem_cursors s) c of None \<Rightarrow> 0 | Some n \<Rightarrow> n)"

definition read_after :: "string \<Rightarrow> 'z events_st_scheme \<Rightarrow> event list" where
  "read_after consumer_id s =
     (if events_durable s then read_events_after consumer_id (db s)
      else filter (\<lambda>e. ev_sequence e > mem_cursor s consumer_id) (mem_events s))"

definition ack :: "string \<Rightarrow> int \<Rightarrow> ('z events_st_scheme, unit) py" where
  "ack consumer_id sequence =
     bindE (gets events_durable) (\<lambda>durable.
     if durable then ack_event_consumer consumer_id sequence
     else bindE (gets (\<lambda>s. mem_cursor s consumer_id)) (\<lambda>current.
       whenE (sequence \<ge> current)
         (modify (\<lambda>s. s\<lparr>mem_cursors := AList.update consumer_id sequence (mem_cursors s)\<rparr>))))"

definition all_events :: "'z events_st_scheme \<Rightarrow> event list" where
  "all_events s =
     (if events_durable s then read_events_after ''__audit_no_ack__'' (db s) else mem_events s)"

section \<open>The contract\<close>

locale event_log =
  fixes inv :: "'s \<Rightarrow> bool"
    and log :: "'s \<Rightarrow> event list"
    and cursor :: "'s \<Rightarrow> string \<Rightarrow> int"
    and flush :: "('s, event list) py"
    and read :: "string \<Rightarrow> 's \<Rightarrow> event list"
    and ack :: "string \<Rightarrow> int \<Rightarrow> ('s, unit) py"
  assumes log_numbered: "inv s \<Longrightarrow> map ev_sequence (log s) = [1..int (length (log s))]"
    and cursor_range: "inv s \<Longrightarrow> 0 \<le> cursor s c \<and> cursor s c \<le> int (length (log s))"
    and read_beyond: "inv s \<Longrightarrow> read c s = drop (nat (cursor s c)) (log s)"
    and flush_appends: "inv s \<Longrightarrow>
      \<exists>es s'. flush s = (Inr es, s') \<and> log s' = log s @ es \<and> cursor s' = cursor s \<and> inv s'"
    and ack_advances: "inv s \<Longrightarrow> cursor s c \<le> n \<Longrightarrow> n \<le> int (length (log s)) \<Longrightarrow>
      \<exists>s'. ack c n s = (Inr (), s') \<and> log s' = log s \<and> cursor s' = (cursor s)(c := n) \<and> inv s'"
begin

text \<open>A consumer's round: read, then acknowledge the last event read.\<close>

definition consume :: "string \<Rightarrow> ('s, event list) py" where
  "consume c = bindE (gets (read c)) (\<lambda>es.
     if es = [] then ret [] else thenE (ack c (ev_sequence (last es))) (ret es))"

lemma last_read:
  assumes "inv s" and "read c s \<noteq> []"
  shows "ev_sequence (last (read c s)) = int (length (log s))"
proof -
  have "log s \<noteq> []" using assms read_beyond by auto
  moreover have "last (read c s) = last (log s)"
    using assms read_beyond[OF assms(1)] by (simp add: last_drop)
  moreover have "ev_sequence (last (log s)) = last (map ev_sequence (log s))"
    using \<open>log s \<noteq> []\<close> by (simp add: last_map)
  moreover have "last [1..int (length (log s))] = int (length (log s))"
    using \<open>log s \<noteq> []\<close> by (subst upto_rec2) (auto simp: Suc_le_eq)
  ultimately show ?thesis by (simp add: log_numbered[OF assms(1)])
qed

lemma consume_run:
  assumes "inv s"
  obtains s' where "consume c s = (Inr (drop (nat (cursor s c)) (log s)), s')" "inv s'"
    "log s' = log s" "cursor s' = (cursor s)(c := int (length (log s)))"
proof (cases "read c s = []")
  case True
  then have "cursor s c = int (length (log s))"
    using read_beyond[OF assms, of c] cursor_range[OF assms, of c] by (simp, linarith)
  then show thesis
    using that[of s] True assms read_beyond[OF assms, of c] by (simp add: consume_def py_simps fun_upd_idem)
next
  case False
  obtain s' where "ack c (int (length (log s))) s = (Inr (), s')" "log s' = log s"
    "cursor s' = (cursor s)(c := int (length (log s)))" "inv s'"
    using ack_advances[OF assms, of c "int (length (log s))"] cursor_range[OF assms, of c] by auto
  with that[of s'] False show thesis
    using last_read[OF assms False] read_beyond[OF assms, of c] by (simp add: consume_def py_simps)
qed

text \<open>Rounds of producing and consuming: the consumer gets the whole log, once and in order.\<close>

primrec rounds :: "nat \<Rightarrow> string \<Rightarrow> ('s, event list) py" where
  "rounds 0 c = ret []"
| "rounds (Suc n) c = bindE (thenE flush (consume c)) (\<lambda>es.
     bindE (rounds n c) (\<lambda>es'. ret (es @ es')))"

lemma rounds_deliver:
  assumes "inv s"
  shows "\<exists>es s'. rounds n c s = (Inr es, s') \<and> inv s'
    \<and> take (nat (cursor s c)) (log s) @ es = take (nat (cursor s' c)) (log s')
    \<and> (n > 0 \<longrightarrow> cursor s' c = int (length (log s')))"
  using assms
proof (induction n arbitrary: s)
  case 0
  then show ?case by (simp add: py_simps)
next
  case (Suc n)
  obtain fl s1 where 1: "flush s = (Inr fl, s1)" "log s1 = log s @ fl" "cursor s1 = cursor s" "inv s1"
    using flush_appends[OF Suc.prems] by blast
  obtain s2 where 2: "consume c s1 = (Inr (drop (nat (cursor s1 c)) (log s1)), s2)" "inv s2"
    "log s2 = log s1" "cursor s2 = (cursor s1)(c := int (length (log s1)))"
    using consume_run[OF 1(4)] by blast
  obtain es s3 where 3: "rounds n c s2 = (Inr es, s3)" "inv s3"
    "take (nat (cursor s2 c)) (log s2) @ es = take (nat (cursor s3 c)) (log s3)"
    "n > 0 \<longrightarrow> cursor s3 c = int (length (log s3))"
    using Suc.IH[OF 2(2)] by blast
  have "take (nat (cursor s c)) (log s) = take (nat (cursor s1 c)) (log s1)"
    using 1 cursor_range[OF Suc.prems, of c] by (simp, linarith)
  then have "take (nat (cursor s c)) (log s) @ drop (nat (cursor s1 c)) (log s1) @ es =
      take (nat (cursor s3 c)) (log s3)"
    using 2 3 by (simp flip: append_assoc)
  moreover have "cursor s3 c = int (length (log s3))"
    using 2 3 by (cases n) (auto simp: py_simps)
  moreover have "rounds (Suc n) c s = (Inr (drop (nat (cursor s1 c)) (log s1) @ es), s3)"
    using 1(1) 2(1) 3(1) by (simp add: py_simps)
  ultimately show ?case using 3(2) by blast
qed

end

section \<open>The facade satisfies it\<close>

definition facade_log :: "'z events_st_scheme \<Rightarrow> event list" where
  "facade_log s = (if events_durable s then map row_to_event (events_tbl (db s)) else mem_events s)"

definition facade_cursor :: "'z events_st_scheme \<Rightarrow> string \<Rightarrow> int" where
  "facade_cursor s c = (if events_durable s then cursor_of (db s) c else mem_cursor s c)"

definition mem_ok :: "'z events_st_scheme \<Rightarrow> bool" where
  "mem_ok s \<longleftrightarrow> map ev_sequence (mem_events s) = [1..int (length (mem_events s))]
     \<and> (\<forall>n \<in> ran (map_of (mem_cursors s)). 0 \<le> n \<and> n \<le> int (length (mem_events s)))"

definition facade_ok :: "'z events_st_scheme \<Rightarrow> bool" where
  "facade_ok s \<longleftrightarrow> (if events_durable s then store_ok s else mem_ok s)"

lemma emit_all:
  assumes "mem_ok s" and "\<not> events_durable s"
  shows "\<exists>es s'. mapE emit items s = (Inr es, s') \<and> mem_events s' = mem_events s @ es
    \<and> mem_cursors s' = mem_cursors s \<and> mem_ok s' \<and> \<not> events_durable s'"
  using assms
proof (induction items arbitrary: s)
  case Nil
  then show ?case by (simp add: py_simps)
next
  case (Cons x items)
  let ?e = "mem_event (snd x) (int (length (mem_events s)) + 1) (''evt_'' @ hex_supply s (ids_drawn s))
      (clock_supply s (clock_reads s))"
  let ?s1 = "s\<lparr>clock_reads := Suc (clock_reads s), ids_drawn := Suc (ids_drawn s),
      mem_events := mem_events s @ [?e]\<rparr>"
  have run: "emit x s = (Inr ?e, ?s1)"
    by (simp add: emit_def py_simps)
  have "mem_ok ?s1"
    using Cons.prems(1) by (auto simp: mem_ok_def mem_event_def upto_rec2[of 1])
  then obtain es s' where "mapE emit items ?s1 = (Inr es, s')" "mem_events s' = mem_events ?s1 @ es"
    "mem_cursors s' = mem_cursors ?s1" "mem_ok s'" "\<not> events_durable s'"
    using Cons.IH[of ?s1] Cons.prems(2) by auto
  with run show ?case by (simp add: py_simps)
qed

lemma mem_read:
  assumes "map ev_sequence es = [1..int (length es)]" and "0 \<le> k"
  shows "filter (\<lambda>e. k < ev_sequence e) es = drop (nat k) es"
proof -
  have nth: "ev_sequence (es ! i) = int i + 1" if "i < length es" for i
    using that arg_cong[OF assms(1), of "\<lambda>xs. xs ! i"] by (simp add: nth_upto)
  have "filter (\<lambda>e. k < ev_sequence e) (take (nat k) es) = []"
    using nth assms(2) by (fastforce simp: filter_empty_conv in_set_conv_nth)
  moreover have "filter (\<lambda>e. k < ev_sequence e) (drop (nat k) es) = drop (nat k) es"
    using nth assms(2) by (fastforce simp: filter_id_conv in_set_conv_nth)
  ultimately show ?thesis by (metis append_Nil append_take_drop_id filter_append)
qed

lemma keeps_durable_dispatch: "keeps (\<lambda>s. events_durable s = d) (dispatch_event_outbox n)"
proof -
  have "keeps (\<lambda>s. events_durable s = d) (dispatch_row r)" for r
    by (rule keepsI) (auto simp: dispatch_row_def py_simps split: option.splits)
  then show ?thesis unfolding dispatch_event_outbox_def by (intro wp)
qed

interpretation facade: event_log facade_ok facade_log facade_cursor flush_outbox read_after ack
proof (standard, goal_cases)
  case (1 s)
  show ?case
  proof (cases "events_durable s")
    case True
    with 1 have "store_ok s" by (simp add: facade_ok_def)
    then have "map er_sequence (events_tbl (db s)) = [1..int (length (events_tbl (db s)))]"
      by (rule log_prefix)
    then show ?thesis using True by (simp add: facade_log_def row_to_event_def comp_def)
  next
    case False
    with 1 show ?thesis by (simp add: facade_ok_def mem_ok_def facade_log_def)
  qed
next
  case (2 s c)
  show ?case
  proof (cases "events_durable s")
    case True
    with 2 have ok: "store_ok s" by (simp add: facade_ok_def)
    then have "events_seq (db s) = int (length (events_tbl (db s)))" by (rule log_prefix)
    with True ok show ?thesis
      by (auto simp: facade_log_def facade_cursor_def cursor_of_def store_ok_def cursors_ok_def
          ran_def split: option.splits)
  next
    case False
    with 2 show ?thesis
      by (auto simp: facade_ok_def mem_ok_def facade_log_def facade_cursor_def mem_cursor_def
          ran_def split: option.splits)
  qed
next
  case (3 s c)
  show ?case
  proof (cases "events_durable s")
    case True
    with 3 show ?thesis
      using read_events_suffix[of s c]
      by (simp add: facade_ok_def read_after_def facade_log_def facade_cursor_def drop_map)
  next
    case False
    with 3 have "0 \<le> mem_cursor s c"
      by (auto simp: facade_ok_def mem_ok_def mem_cursor_def ran_def split: option.splits)
    with 3 False show ?thesis
      by (simp add: facade_ok_def mem_ok_def read_after_def facade_log_def facade_cursor_def mem_read)
  qed
next
  case (4 s)
  show ?case
  proof (cases "events_durable s")
    case True
    with 4 have ok: "store_ok s" by (simp add: facade_ok_def)
    obtain es s' where run: "dispatch_event_outbox 100 s = (Inr (map row_to_event es), s')"
      "events_tbl (db s') = events_tbl (db s) @ es"
      using ok dispatch_run[of s 100] by (metis store_ok_def)
    have "store_ok s'" using keepsE[OF keeps_store_dispatch run(1) ok] .
    moreover have "cursors_tbl (db s') = cursors_tbl (db s)"
      using keepsD[OF keeps_cursors_dispatch[of "ids_drawn s" "cursors_tbl (db s)" "hex_supply s"
            "events_seq (db s)" 100], of s] run(1) by (simp add: cursors_kept_def)
    moreover have "events_durable s'"
      using keepsE[OF keeps_durable_dispatch run(1)] True by simp
    ultimately show ?thesis
      using True run by (simp add: flush_outbox_def py_simps facade_log_def facade_cursor_def
          facade_ok_def cursor_of_def fun_eq_iff)
  next
    case False
    with 4 have "mem_ok (s\<lparr>mem_outbox := []\<rparr>)" by (simp add: facade_ok_def mem_ok_def)
    then obtain es s' where "mapE emit (mem_outbox s) (s\<lparr>mem_outbox := []\<rparr>) = (Inr es, s')"
      "mem_events s' = mem_events s @ es" "mem_cursors s' = mem_cursors s" "mem_ok s'"
      "\<not> events_durable s'"
      using emit_all[of "s\<lparr>mem_outbox := []\<rparr>" "mem_outbox s"] False by auto
    with False show ?thesis
      by (simp add: flush_outbox_def py_simps facade_log_def facade_cursor_def facade_ok_def
          mem_cursor_def fun_eq_iff)
  qed
next
  case (5 s c n)
  show ?case
  proof (cases "events_durable s")
    case True
    with 5 have ok: "store_ok s" by (simp add: facade_ok_def)
    then have "events_seq (db s) = int (length (events_tbl (db s)))" by (rule log_prefix)
    then have "\<not> max_sequence (db s) < n"
      using 5(3) True ok max_sequence_log[of s] by (simp add: facade_log_def store_ok_def)
    then have run: "ack_event_consumer c n s =
        (Inr (), s\<lparr>db := (db s)\<lparr>cursors_tbl := AList.update c n (cursors_tbl (db s))\<rparr>\<rparr>)"
      using 5(2) True by (simp add: ack_event_consumer_def py_simps facade_cursor_def)
    from keepsE[OF keeps_store_ack run ok] run True show ?thesis
      by (simp add: ack_def py_simps facade_log_def facade_cursor_def facade_ok_def cursor_of_def
          fun_eq_iff)
  next
    case False
    with 5 show ?thesis
      by (auto simp: ack_def py_simps facade_log_def facade_cursor_def facade_ok_def mem_ok_def
          mem_cursor_def fun_eq_iff ran_def split: option.splits if_splits)
  qed
qed

lemma keeps_store_enqueue [wp]: "keeps store_ok (enqueue_outbox a)"
  unfolding enqueue_outbox_def by (intro wp) simp_all

lemma keeps_store_emit [wp]: "keeps store_ok (emit item)"
  unfolding emit_def by (intro wp) simp_all

lemma keeps_store_flush [wp]: "keeps store_ok flush_outbox"
  unfolding flush_outbox_def by (intro wp) simp_all

section \<open>Properties\<close>

definition fresh_events :: "bool \<Rightarrow> events_st" where
  "fresh_events durable = world_st.extend (fresh_world durable)
     (events_st.fields durable [] [] [])"

text \<open>
  C8: exactly-once delivery, with a store and without one. A consumer that reads and
  acknowledges what it read, in any number of rounds with flushes of the outbox between them,
  is given, in order and without repetition, exactly the part of the log that lay beyond its
  cursor: what it has seen before and what the rounds gave it make up the log up to its new
  cursor, which after a round is the end of the log. No round fails.
\<close>

theorem delivery_exactly_once:
  assumes "facade_ok s"
  shows "\<exists>es s'. facade.rounds n c s = (Inr es, s') \<and> facade_ok s'
    \<and> take (nat (facade_cursor s c)) (facade_log s) @ es = take (nat (facade_cursor s' c)) (facade_log s')
    \<and> (n > 0 \<longrightarrow> facade_cursor s' c = int (length (facade_log s')))"
  by (rule facade.rounds_deliver[OF assms])

theorem delivery_exactly_once_witness:
  "\<exists>es s'. facade.rounds 1 ''brain'' (snd (enqueue_outbox sample_event (fresh_events False))) = (Inr es, s')
    \<and> es = take (nat (facade_cursor s' ''brain'')) (facade_log s')"
proof -
  let ?s = "snd (enqueue_outbox sample_event (fresh_events False))"
  have ok: "facade_ok ?s"
    by (simp add: facade_ok_def mem_ok_def enqueue_outbox_def py_simps fresh_events_def events_st.defs
        world_st.defs fresh_world_def)
  have "facade_cursor ?s ''brain'' = 0"
    by (simp add: facade_cursor_def mem_cursor_def enqueue_outbox_def py_simps fresh_events_def
        events_st.defs world_st.defs fresh_world_def)
  with delivery_exactly_once[OF ok, of 1 "''brain''"] show ?thesis by auto
qed

end
