(* ===== verification/Task_Runtime.thy ===== *)
theory Task_Runtime
  imports Events
begin

text \<open>
  \<open>TaskRuntime\<close> of \<^verbatim>\<open>src/liandanlu_native/runtime.py\<close>: the tasks, their state machine
  and the record of every change. A Task object is the entry of the dictionary \<open>tasks\<close>
  under its identifier; a reference to it is that identifier. Every method that changes a task
  ends by raising its revision and the world's \<open>tasks\<close> revision, and by saving the task in
  the same transaction as the event that announces the change.

  Shown here: the control state machine with its terminal states, completion exactly on
  evidence for every criterion, and that the durable tables are after every method the
  dictionaries of the process, with the event log intact.
\<close>

record task_st = events_st +
  tasks_durable :: bool
  tasks :: "(string \<times> task) list"

text \<open>The constructor's check that one store serves all three parts.\<close>

definition task_runtime_post_init :: "'z task_st_scheme \<Rightarrow> exc + unit" where
  "task_runtime_post_init s =
     (if tasks_durable s then
        (if \<not> events_durable s
         then Inl (ValueError ''EventStore and TaskRuntime must share one persistence authority'')
         else if \<not> world_durable s
         then Inl (ValueError ''WorldModel and TaskRuntime must share one persistence authority'')
         else Inr ())
      else Inr ())"

definition get_task :: "string \<Rightarrow> ('z task_st_scheme, task) py" where
  "get_task tid = bindE (gets tasks) (\<lambda>m. of_option (KeyError tid) (map_of m tid))"

definition put_task :: "task \<Rightarrow> ('z task_st_scheme, unit) py" where
  "put_task t = modify (\<lambda>s. s\<lparr>tasks := AList.update (tk_task_id t) t (tasks s)\<rparr>)"

definition record_task ::
  "task \<Rightarrow> string \<Rightarrow> string \<Rightarrow> dict \<Rightarrow> ('z task_st_scheme, unit) py" where
  "record_task t event_type actor payload =
     bindE (gets tasks_durable) (\<lambda>durable.
     let a = event_kwargs event_type actor (tk_workspace_id t) payload in
     if durable then thenE (save_task_with_outbox_event t a) (ret ())
     else thenE (enqueue_outbox (a\<lparr>ea_task_id := Some (tk_task_id t)\<rparr>)) (ret ()))"

text \<open>\<^verbatim>\<open>self.world.revisions.bump("tasks")\<close> and its save.\<close>

definition bump_tasks_revision :: "('z task_st_scheme, unit) py" where
  "bump_tasks_revision = thenE (bump_revision ''tasks'') persist_revisions"

definition touch :: "task \<Rightarrow> ('z task_st_scheme, task) py" where
  "touch t =
     (let t' = t\<lparr>tk_revision := tk_revision t + 1\<rparr> in
      thenE (put_task t') (thenE bump_tasks_revision (ret t')))"

text \<open>The two calls that end a method: \<open>_touch\<close>, then \<open>_record\<close>.\<close>

definition touch_and_record ::
  "task \<Rightarrow> string \<Rightarrow> string \<Rightarrow> dict \<Rightarrow> ('z task_st_scheme, task) py" where
  "touch_and_record t event_type actor payload =
     bindE (touch t) (\<lambda>t'. thenE (record_task t' event_type actor payload) (ret t'))"

section \<open>Methods\<close>

definition create ::
  "string \<Rightarrow> string list \<Rightarrow> string \<Rightarrow> string list \<Rightarrow> string \<Rightarrow> int \<Rightarrow> task_budget option
   \<Rightarrow> ('z task_st_scheme, task) py" where
  "create goal success_criteria workspace_id constraints lane priority budget =
     bindE (new_id ''task'') (\<lambda>tid.
     let t = \<lparr>tk_task_id = tid, tk_workspace_id = workspace_id, tk_goal = goal,
           tk_success_criteria = success_criteria, tk_constraints = constraints,
           tk_state = TS_CREATED, tk_desired_state = TS_CREATED, tk_phase = TP_OBSERVING,
           tk_priority = priority, tk_lane = lane, tk_queued_at = None, tk_wait_reason = None,
           tk_budget = (case budget of None \<Rightarrow> default_budget | Some b \<Rightarrow> b),
           tk_revision = 1\<rparr>
     in thenE (put_task t) (thenE bump_tasks_revision
        (thenE (record_task t ''task.created'' ''engine''
            [(''goal'', JStr goal), (''workspace_id'', JStr workspace_id)])
          (ret t))))"

definition queue :: "string \<Rightarrow> ('z task_st_scheme, task) py" where
  "queue tid =
     bindE (get_task tid) (\<lambda>t.
     thenE (raise_if (terminal (tk_state t)) (ValueError ''terminal task cannot be queued''))
     (bindE now (\<lambda>ts.
      touch_and_record (t\<lparr>tk_state := TS_QUEUED, tk_desired_state := TS_RUNNING,
          tk_queued_at := Some ts\<rparr>) ''task.queued'' ''engine''
        [(''lane'', JStr (tk_lane t)), (''priority'', JInt (tk_priority t)),
         (''queued_at'', JFloat ts)])))"

definition wait :: "string \<Rightarrow> string \<Rightarrow> string \<Rightarrow> ('z task_st_scheme, task) py" where
  "wait tid reason event_type =
     bindE (get_task tid) (\<lambda>t.
      touch_and_record (t\<lparr>tk_state := TS_WAITING, tk_wait_reason := Some reason\<rparr>)
        event_type ''engine''
        [(''reason'', JStr reason), (''state'', JStr (task_state_value TS_WAITING))])"

definition update_runtime_state ::
  "string \<Rightarrow> task_state option \<Rightarrow> task_phase option \<Rightarrow> string \<Rightarrow> string
   \<Rightarrow> ('z task_st_scheme, task) py" where
  "update_runtime_state tid state phase event_type actor =
     bindE (get_task tid) (\<lambda>t.
     let t1 = (case state of None \<Rightarrow> t | Some st \<Rightarrow> t\<lparr>tk_state := st\<rparr>);
         t2 = (case phase of None \<Rightarrow> t1 | Some ph \<Rightarrow> t1\<lparr>tk_phase := ph\<rparr>);
         changed = ((case state of None \<Rightarrow> False | Some st \<Rightarrow> tk_state t \<noteq> st)
           \<or> (case phase of None \<Rightarrow> False | Some ph \<Rightarrow> tk_phase t \<noteq> ph))
     in if changed
        then touch_and_record t2 event_type actor
          [(''state'', JStr (task_state_value (tk_state t2))),
           (''phase'', JStr (task_phase_value (tk_phase t2)))]
        else ret t)"

text \<open>What \<open>control\<close> does to a task that is not terminal.\<close>

definition controlled :: "task_state \<Rightarrow> task \<Rightarrow> task" where
  "controlled desired t =
     (let t = t\<lparr>tk_desired_state := desired\<rparr> in
      if desired = TS_PAUSED then
        (if tk_state t = TS_RUNNING then t\<lparr>tk_state := TS_PAUSING\<rparr>
         else if tk_state t \<notin> {TS_CANCELLING, TS_CANCELLED} then t\<lparr>tk_state := TS_PAUSED\<rparr>
         else t)
      else if desired = TS_CANCELLED then
        (if tk_state t \<in> {TS_RUNNING, TS_PAUSING} then t\<lparr>tk_state := TS_CANCELLING\<rparr>
         else t\<lparr>tk_state := TS_CANCELLED\<rparr>)
      else if desired = TS_RUNNING then
        (let t = t\<lparr>tk_wait_reason := None\<rparr> in
         if tk_state t \<in> {TS_PAUSED, TS_PAUSING, TS_WAITING, TS_QUEUED, TS_CREATED}
         then t\<lparr>tk_state := TS_RUNNING\<rparr> else t)
      else t)"

definition control :: "string \<Rightarrow> task_state \<Rightarrow> ('z task_st_scheme, task) py" where
  "control tid desired =
     bindE (get_task tid) (\<lambda>t.
     if terminal (tk_state t) then ret t
     else let t1 = controlled desired t in
       touch_and_record t1 ''task.control_requested'' ''user''
         [(''desired'', JStr (task_state_value desired)),
          (''actual'', JStr (task_state_value (tk_state t1)))])"

definition settled :: "bool \<Rightarrow> bool \<Rightarrow> task \<Rightarrow> task" where
  "settled safe_boundary external_cancel_confirmed t =
     (if tk_desired_state t = TS_PAUSED \<and> safe_boundary then t\<lparr>tk_state := TS_PAUSED\<rparr>
      else if tk_desired_state t = TS_CANCELLED \<and> (safe_boundary \<or> external_cancel_confirmed)
      then t\<lparr>tk_state := TS_CANCELLED\<rparr>
      else t)"

definition settle_control :: "string \<Rightarrow> bool \<Rightarrow> bool \<Rightarrow> ('z task_st_scheme, task) py" where
  "settle_control tid safe_boundary external_cancel_confirmed =
     bindE (get_task tid) (\<lambda>t.
     let t1 = settled safe_boundary external_cancel_confirmed t in
     if tk_state t1 \<noteq> tk_state t
     then touch_and_record t1 ''task.control_settled'' ''engine''
        [(''desired'', JStr (task_state_value (tk_desired_state t1))),
         (''actual'', JStr (task_state_value (tk_state t1)))]
     else ret t1)"

definition claim_missing :: "(string \<times> goal_claim) list \<Rightarrow> string \<Rightarrow> bool" where
  "claim_missing claims criterion =
     (case map_of claims criterion of
        None \<Rightarrow> True
      | Some claim \<Rightarrow> \<not> gc_passed claim \<or> gc_evidence_refs claim = [])"

definition evaluate_goal ::
  "string \<Rightarrow> (string \<times> goal_claim) list \<Rightarrow> ('z task_st_scheme, task) py" where
  "evaluate_goal tid claims =
     bindE (get_task tid) (\<lambda>t.
     let missing = filter (claim_missing claims) (tk_success_criteria t);
         st = (if missing \<noteq> [] then TS_RUNNING else TS_COMPLETED);
         ph = (if missing \<noteq> [] then TP_REPLANNING else tk_phase t)
     in touch_and_record (t\<lparr>tk_state := st, tk_phase := ph\<rparr>) ''task.goal_evaluated'' ''verifier''
       [(''missing'', JList (map JStr missing)), (''state'', JStr (task_state_value st))])"

section \<open>What a method leaves behind\<close>

lemma run_get_task [py_simps]:
  "get_task tid s = (case map_of (tasks s) tid of None \<Rightarrow> (Inl (KeyError tid), s) | Some t \<Rightarrow> (Inr t, s))"
  by (simp add: get_task_def py_simps)

lemma run_put_task [py_simps]:
  "put_task t s = (Inr (), s\<lparr>tasks := AList.update (tk_task_id t) t (tasks s)\<rparr>)"
  by (simp add: put_task_def py_simps)

lemma run_bump_tasks_revision [py_simps]:
  "bump_tasks_revision s =
     (let w = (world s)\<lparr>revisions := (revisions (world s))\<lparr>rev_tasks := rev_tasks (revisions (world s)) + 1,
        global_revision := global_revision (revisions (world s)) + 1\<rparr>\<rparr>
      in (Inr (), s\<lparr>world := w,
        db := (if world_durable s then (db s)\<lparr>revisions_tbl := Some (revisions w)\<rparr> else db s)\<rparr>))"
  by (simp add: bump_tasks_revision_def py_simps bump_tasks Let_def)

text \<open>The tables the world is rebuilt from.\<close>

definition world_part ::
  "db \<Rightarrow> (string \<times> entity_row) list \<times> (string \<times> string \<times> string) list \<times> world_revisions option
    \<times> (string \<times> int) list" where
  "world_part d = (entities_tbl d, relations_tbl d, revisions_tbl d, workspace_revisions_tbl d)"

lemma mirrors_world_part: "world_part d' = world_part d \<Longrightarrow> mirrors d' w = mirrors d w"
  by (simp add: world_part_def mirrors_def)

text \<open>Recording saves the task, appends to an outbox and leaves the rest alone.\<close>

lemma run_record_task:
  obtains s' where "record_task t et actor pl s = (Inr (), s')" "tasks s' = tasks s" "world s' = world s"
    "tasks_durable s' = tasks_durable s" "world_durable s' = world_durable s"
    "events_durable s' = events_durable s" "task_st.more s' = task_st.more s"
    "world_part (db s') = world_part (db s)" "operations_tbl (db s') = operations_tbl (db s)"
    "tasks_tbl (db s') = (if tasks_durable s
       then AList.update (tk_task_id t) (task_to_row t) (tasks_tbl (db s)) else tasks_tbl (db s))"
    "hex_supply s' = hex_supply s" "ids_drawn s \<le> ids_drawn s'"
  by (cases "tasks_durable s"; cases "events_durable s")
    (simp_all add: record_task_def py_simps save_task_with_outbox_event_def insert_outbox_def
      enqueue_outbox_def enqueue_event_outbox_def Let_def world_part_def upsert_task_def)

definition tasks_synced :: "'z task_st_scheme \<Rightarrow> bool" where
  "tasks_synced s \<longleftrightarrow> keyed tk_task_id (tasks s) \<and> (tasks_durable s \<longrightarrow> tasks_saved (db s) (tasks s))"

text \<open>The state a process keeps: log, world and tasks in memory agree with the tables.\<close>

definition runtime_ok :: "'z task_st_scheme \<Rightarrow> bool" where
  "runtime_ok s \<longleftrightarrow> store_ok s \<and> world_saved s \<and> tasks_synced s"

lemma keeps_store_task_parts [wp]:
  "keeps store_ok (put_task t)" "keeps store_ok bump_tasks_revision"
  "keeps store_ok (record_task t et actor pl)"
  unfolding put_task_def bump_tasks_revision_def record_task_def Let_def
  by (intro wp; simp)+

text \<open>The common end of \<open>create\<close> and of \<open>_touch\<close> with \<open>_record\<close>: store, bump, record.\<close>

definition store_task ::
  "task \<Rightarrow> string \<Rightarrow> string \<Rightarrow> dict \<Rightarrow> ('z task_st_scheme, unit) py" where
  "store_task t event_type actor payload =
     thenE (put_task t) (thenE bump_tasks_revision (record_task t event_type actor payload))"

lemma store_task_result:
  obtains s' where "store_task t et actor pl s = (Inr (), s')"
    "tasks s' = AList.update (tk_task_id t) t (tasks s)" "task_st.more s' = task_st.more s"
    "tasks_durable s' = tasks_durable s" "world_durable s' = world_durable s"
    "events_durable s' = events_durable s" "operations_tbl (db s') = operations_tbl (db s)"
    "hex_supply s' = hex_supply s" "ids_drawn s \<le> ids_drawn s'" "runtime_ok s \<longrightarrow> runtime_ok s'"
proof -
  obtain s1 where s1: "thenE (put_task t) bump_tasks_revision s = (Inr (), s1)"
    "tasks s1 = AList.update (tk_task_id t) t (tasks s)" "task_st.more s1 = task_st.more s"
    "tasks_durable s1 = tasks_durable s" "world_durable s1 = world_durable s"
    "events_durable s1 = events_durable s" "tasks_tbl (db s1) = tasks_tbl (db s)"
    "operations_tbl (db s1) = operations_tbl (db s)" "world_saved s \<longrightarrow> world_saved s1"
    "hex_supply s1 = hex_supply s" "ids_drawn s1 = ids_drawn s"
    by (simp add: py_simps Let_def world_saved_def mirrors_revisions)
  obtain s2 where s2: "record_task t et actor pl s1 = (Inr (), s2)" "tasks s2 = tasks s1"
    "world s2 = world s1" "tasks_durable s2 = tasks_durable s1"
    "world_durable s2 = world_durable s1" "events_durable s2 = events_durable s1"
    "task_st.more s2 = task_st.more s1" "world_part (db s2) = world_part (db s1)"
    "operations_tbl (db s2) = operations_tbl (db s1)"
    "tasks_tbl (db s2) = (if tasks_durable s1
       then AList.update (tk_task_id t) (task_to_row t) (tasks_tbl (db s1)) else tasks_tbl (db s1))"
    "hex_supply s2 = hex_supply s1" "ids_drawn s1 \<le> ids_drawn s2"
    by (rule run_record_task)
  have run: "store_task t et actor pl s = (Inr (), s2)"
    using s1(1) s2(1) by (simp add: store_task_def py_simps split: prod.splits sum.splits)
  have "keeps store_ok (store_task t et actor pl :: ('a task_st_scheme, unit) py)"
    unfolding store_task_def by (intro wp)
  then have "store_ok s \<longrightarrow> store_ok s2" using run by (auto dest: keepsE)
  moreover have "world_saved s \<longrightarrow> world_saved s2"
    using s1 s2 mirrors_world_part[OF s2(8)] by (simp add: world_saved_def)
  moreover have "tasks_synced s \<longrightarrow> tasks_synced s2"
    using s1 s2 by (simp add: tasks_synced_def tasks_saved_def keyed_update update_map_values)
  ultimately have "runtime_ok s \<longrightarrow> runtime_ok s2" by (simp add: runtime_ok_def)
  with that run s1 s2 show thesis by metis
qed

lemma touch_and_record_store:
  "touch_and_record t et actor pl =
     thenE (store_task (t\<lparr>tk_revision := tk_revision t + 1\<rparr>) et actor pl)
       (ret (t\<lparr>tk_revision := tk_revision t + 1\<rparr>))"
  by (simp add: touch_and_record_def touch_def store_task_def thenE_def bindE_assoc Let_def)

lemma create_store:
  "create goal sc ws cs lane prio budget =
     bindE (new_id ''task'') (\<lambda>tid.
     let t = \<lparr>tk_task_id = tid, tk_workspace_id = ws, tk_goal = goal, tk_success_criteria = sc,
           tk_constraints = cs, tk_state = TS_CREATED, tk_desired_state = TS_CREATED,
           tk_phase = TP_OBSERVING, tk_priority = prio, tk_lane = lane, tk_queued_at = None,
           tk_wait_reason = None,
           tk_budget = (case budget of None \<Rightarrow> default_budget | Some b \<Rightarrow> b), tk_revision = 1\<rparr>
     in thenE (store_task t ''task.created'' ''engine''
            [(''goal'', JStr goal), (''workspace_id'', JStr ws)]) (ret t))"
  by (simp add: create_def store_task_def thenE_def bindE_assoc Let_def)

lemma touch_and_record_result:
  obtains s' where
    "touch_and_record t et actor pl s = (Inr (t\<lparr>tk_revision := tk_revision t + 1\<rparr>), s')"
    "tasks s' = AList.update (tk_task_id t) (t\<lparr>tk_revision := tk_revision t + 1\<rparr>) (tasks s)"
    "task_st.more s' = task_st.more s" "tasks_durable s' = tasks_durable s"
    "world_durable s' = world_durable s" "events_durable s' = events_durable s"
    "operations_tbl (db s') = operations_tbl (db s)"
    "hex_supply s' = hex_supply s" "ids_drawn s \<le> ids_drawn s'" "runtime_ok s \<longrightarrow> runtime_ok s'"
  by (rule store_task_result[of "t\<lparr>tk_revision := tk_revision t + 1\<rparr>" et actor pl s])
    (simp add: touch_and_record_store py_simps)

section \<open>The tables after every method\<close>

lemma keeps_runtime_store_task [wp]: "keeps runtime_ok (store_task t et actor pl)"
  by (rule keepsI) (metis store_task_result snd_conv)

lemma keeps_runtime_touch_and_record [wp]: "keeps runtime_ok (touch_and_record t et actor pl)"
  unfolding touch_and_record_store by (intro wp)

lemma keeps_runtime_host [wp]: "keeps runtime_ok (new_id p)" "keeps runtime_ok now"
  using keepsD[OF keeps_store_new_id] keepsD[OF keeps_store_now]
  by (auto intro!: keepsI simp: runtime_ok_def py_simps world_saved_def tasks_synced_def)

lemma keeps_runtime_get_task [wp]: "keeps runtime_ok (get_task tid)"
  unfolding get_task_def by (intro wp)

lemma keeps_runtime_methods [wp]:
  "keeps runtime_ok (create goal sc ws cs lane prio budget)"
  "keeps runtime_ok (queue tid)"
  "keeps runtime_ok (wait tid reason et)"
  "keeps runtime_ok (update_runtime_state tid st ph et actor)"
  "keeps runtime_ok (control tid desired)"
  "keeps runtime_ok (settle_control tid sb ec)"
  "keeps runtime_ok (evaluate_goal tid claims)"
  unfolding create_store queue_def wait_def update_runtime_state_def control_def
    settle_control_def evaluate_goal_def Let_def
  by (intro wp)+

section \<open>The control state machine\<close>

lemma controlled_fields [simp]:
  "tk_revision (controlled desired t) = tk_revision t"
  "tk_task_id (controlled desired t) = tk_task_id t"
  "tk_budget (controlled desired t) = tk_budget t"
  "tk_desired_state (controlled desired t) = desired"
  by (simp_all add: controlled_def Let_def)

lemma settled_fields [simp]:
  "tk_task_id (settled sb ec t) = tk_task_id t"
  "tk_desired_state (settled sb ec t) = tk_desired_state t"
  "tk_revision (settled sb ec t) = tk_revision t"
  "tk_budget (settled sb ec t) = tk_budget t"
  by (simp_all add: settled_def)

text \<open>The state \<open>control\<close> leaves, as the table of the source's cases.\<close>

lemma controlled_state:
  "tk_state (controlled TS_PAUSED t) = (case tk_state t of
      TS_RUNNING \<Rightarrow> TS_PAUSING | TS_CANCELLING \<Rightarrow> TS_CANCELLING | TS_CANCELLED \<Rightarrow> TS_CANCELLED
    | _ \<Rightarrow> TS_PAUSED)"
  "tk_state (controlled TS_CANCELLED t) = (case tk_state t of
      TS_RUNNING \<Rightarrow> TS_CANCELLING | TS_PAUSING \<Rightarrow> TS_CANCELLING | _ \<Rightarrow> TS_CANCELLED)"
  "tk_state (controlled TS_RUNNING t) = (case tk_state t of
      TS_PAUSED \<Rightarrow> TS_RUNNING | TS_PAUSING \<Rightarrow> TS_RUNNING | TS_WAITING \<Rightarrow> TS_RUNNING
    | TS_QUEUED \<Rightarrow> TS_RUNNING | TS_CREATED \<Rightarrow> TS_RUNNING | st \<Rightarrow> st)"
  by (cases "tk_state t"; simp add: controlled_def Let_def)+

text \<open>A method that reads one task and records the changed task.\<close>

lemma keyed_task: "runtime_ok s \<Longrightarrow> map_of (tasks s) tid = Some t \<Longrightarrow> tk_task_id t = tid"
  by (auto simp: runtime_ok_def tasks_synced_def dest: keyed_lookup)

lemma control_terminal:
  "map_of (tasks s) tid = Some t \<Longrightarrow> terminal (tk_state t) \<Longrightarrow> control tid desired s = (Inr t, s)"
  by (simp add: control_def py_simps)

lemma control_run:
  assumes "map_of (tasks s) tid = Some t" and "\<not> terminal (tk_state t)"
  obtains t' s' where "control tid desired s = (Inr t', s')"
    "t' = (controlled desired t)\<lparr>tk_revision := tk_revision t + 1\<rparr>"
    "tasks s' = AList.update (tk_task_id t) t' (tasks s)"
proof -
  let ?t = "controlled desired t"
  obtain s' where "touch_and_record ?t ''task.control_requested'' ''user''
      [(''desired'', JStr (task_state_value desired)),
       (''actual'', JStr (task_state_value (tk_state ?t)))] s =
      (Inr (?t\<lparr>tk_revision := tk_revision ?t + 1\<rparr>), s')"
    "tasks s' = AList.update (tk_task_id ?t) (?t\<lparr>tk_revision := tk_revision ?t + 1\<rparr>) (tasks s)"
    by (rule touch_and_record_result)
  with assms that show thesis by (simp add: control_def Let_def py_simps)
qed

lemma evaluate_goal_run:
  assumes "map_of (tasks s) tid = Some t"
  obtains t' s' where "evaluate_goal tid claims s = (Inr t', s')"
    "tasks s' = AList.update (tk_task_id t) t' (tasks s)"
    "tk_state t' = (if \<forall>c \<in> set (tk_success_criteria t). \<not> claim_missing claims c
       then TS_COMPLETED else TS_RUNNING)"
    "tk_phase t' = (if \<forall>c \<in> set (tk_success_criteria t). \<not> claim_missing claims c
       then tk_phase t else TP_REPLANNING)"
proof -
  let ?missing = "filter (claim_missing claims) (tk_success_criteria t)"
  let ?st = "if ?missing \<noteq> [] then TS_RUNNING else TS_COMPLETED"
  let ?t = "t\<lparr>tk_state := ?st, tk_phase := if ?missing \<noteq> [] then TP_REPLANNING else tk_phase t\<rparr>"
  obtain s' where "touch_and_record ?t ''task.goal_evaluated'' ''verifier''
      [(''missing'', JList (map JStr ?missing)), (''state'', JStr (task_state_value ?st))] s =
      (Inr (?t\<lparr>tk_revision := tk_revision ?t + 1\<rparr>), s')"
    "tasks s' = AList.update (tk_task_id ?t) (?t\<lparr>tk_revision := tk_revision ?t + 1\<rparr>) (tasks s)"
    by (rule touch_and_record_result)
  with assms that show thesis
    by (auto simp: evaluate_goal_def Let_def py_simps filter_empty_conv)
qed

section \<open>Properties\<close>

definition sample_task :: "string \<Rightarrow> task_state \<Rightarrow> task_state \<Rightarrow> task" where
  "sample_task tid st desired =
     \<lparr>tk_task_id = tid, tk_workspace_id = ''ws'', tk_goal = ''goal'', tk_success_criteria = [''done''],
      tk_constraints = [], tk_state = st, tk_desired_state = desired, tk_phase = TP_OBSERVING,
      tk_priority = 50, tk_lane = ''background'', tk_queued_at = None, tk_wait_reason = None,
      tk_budget = default_budget, tk_revision = 1\<rparr>"

definition sample_tasks :: "task list \<Rightarrow> task_st" where
  "sample_tasks ts = events_st.extend (fresh_events False)
     (task_st.fields False (map (\<lambda>t. (tk_task_id t, t)) ts))"

lemma tasks_sample [simp]: "tasks (sample_tasks ts) = map (\<lambda>t. (tk_task_id t, t)) ts"
  by (simp add: sample_tasks_def events_st.defs task_st.defs)

text \<open>
  What a user's control request does, on every state. A terminal task is returned as it is
  and nothing is recorded. Otherwise the wish is stored and the state moves by the table: a
  running task is paused or cancelled only through PAUSING and CANCELLING, so that its
  operation can reach a safe boundary; a task that is being cancelled is not paused; resuming
  restarts a task that is paused, pausing, waiting, queued or new and clears its wait reason.
  The revision of the task rises by one.
\<close>

theorem control_table:
  assumes "map_of (tasks s) tid = Some t"
  shows "\<exists>t' s'. control tid desired s = (Inr t', s') \<and>
    (if terminal (tk_state t) then t' = t \<and> s' = s
     else tasks s' = AList.update (tk_task_id t) t' (tasks s)
       \<and> tk_desired_state t' = desired \<and> tk_revision t' = tk_revision t + 1
       \<and> (desired = TS_PAUSED \<longrightarrow> tk_state t' = (case tk_state t of TS_RUNNING \<Rightarrow> TS_PAUSING
            | TS_CANCELLING \<Rightarrow> TS_CANCELLING | _ \<Rightarrow> TS_PAUSED))
       \<and> (desired = TS_CANCELLED \<longrightarrow> tk_state t' = (case tk_state t of TS_RUNNING \<Rightarrow> TS_CANCELLING
            | TS_PAUSING \<Rightarrow> TS_CANCELLING | _ \<Rightarrow> TS_CANCELLED))
       \<and> (desired = TS_RUNNING \<longrightarrow> tk_wait_reason t' = None \<and>
            tk_state t' = (case tk_state t of TS_CANCELLING \<Rightarrow> TS_CANCELLING
              | TS_BLOCKED \<Rightarrow> TS_BLOCKED | _ \<Rightarrow> TS_RUNNING)))"
proof (cases "terminal (tk_state t)")
  case True
  with control_terminal[OF assms] show ?thesis by simp
next
  case False
  obtain t' s' where run: "control tid desired s = (Inr t', s')"
    "t' = (controlled desired t)\<lparr>tk_revision := tk_revision t + 1\<rparr>"
    "tasks s' = AList.update (tk_task_id t) t' (tasks s)"
    using control_run[OF assms False] by blast
  show ?thesis
    using run False
    by (auto simp: controlled_state terminal_def split: task_state.splits)
      (auto simp: controlled_def Let_def)
qed

theorem control_table_witness:
  "\<exists>t' s'. control ''t'' TS_CANCELLED (sample_tasks [sample_task ''t'' TS_RUNNING TS_RUNNING]) = (Inr t', s')
    \<and> tk_state t' = TS_CANCELLING"
  using control_table[of "sample_tasks [sample_task ''t'' TS_RUNNING TS_RUNNING]" "''t''"
      "sample_task ''t'' TS_RUNNING TS_RUNNING" TS_CANCELLED]
  by (auto simp: sample_task_def terminal_def)

text \<open>
  A goal is complete exactly on evidence. Evaluating a task's goal ends it as COMPLETED if
  and only if every success criterion has a claim that passed and refers to some evidence;
  otherwise the task goes on, replanning. The evaluation itself never fails.
\<close>

theorem completed_iff_evidence:
  assumes "map_of (tasks s) tid = Some t"
  shows "\<exists>t' s'. evaluate_goal tid claims s = (Inr t', s')
    \<and> tasks s' = AList.update (tk_task_id t) t' (tasks s)
    \<and> (tk_state t' = TS_COMPLETED \<longleftrightarrow> (\<forall>c \<in> set (tk_success_criteria t).
         \<exists>claim. map_of claims c = Some claim \<and> gc_passed claim \<and> gc_evidence_refs claim \<noteq> []))
    \<and> (tk_state t' \<noteq> TS_COMPLETED \<longrightarrow> tk_state t' = TS_RUNNING \<and> tk_phase t' = TP_REPLANNING)"
proof -
  obtain t' s' where run: "evaluate_goal tid claims s = (Inr t', s')"
    "tasks s' = AList.update (tk_task_id t) t' (tasks s)"
    "tk_state t' = (if \<forall>c \<in> set (tk_success_criteria t). \<not> claim_missing claims c
       then TS_COMPLETED else TS_RUNNING)"
    "tk_phase t' = (if \<forall>c \<in> set (tk_success_criteria t). \<not> claim_missing claims c
       then tk_phase t else TP_REPLANNING)"
    using evaluate_goal_run[OF assms] by blast
  moreover have "\<not> claim_missing claims c \<longleftrightarrow>
      (\<exists>claim. map_of claims c = Some claim \<and> gc_passed claim \<and> gc_evidence_refs claim \<noteq> [])" for c
    by (auto simp: claim_missing_def split: option.splits)
  ultimately show ?thesis by auto
qed

theorem completed_iff_evidence_witness:
  "\<exists>t' s'. evaluate_goal ''t'' [(''done'', \<lparr>gc_criterion = ''done'', gc_passed = True, gc_evidence_refs = []\<rparr>)]
      (sample_tasks [sample_task ''t'' TS_RUNNING TS_RUNNING]) = (Inr t', s') \<and> tk_state t' = TS_RUNNING"
  using completed_iff_evidence[of "sample_tasks [sample_task ''t'' TS_RUNNING TS_RUNNING]" "''t''"
      "sample_task ''t'' TS_RUNNING TS_RUNNING"
      "[(''done'', \<lparr>gc_criterion = ''done'', gc_passed = True, gc_evidence_refs = []\<rparr>)]"]
  by (auto simp: sample_task_def)

section \<open>Two ways around the state machine\<close>

text \<open>
  Neither \<open>settle_control\<close> nor \<open>wait\<close> looks whether a task is terminal, and a second
  request to cancel does not wait for the safe boundary that the first one waits for.
\<close>

lemma settle_reopens_completed:
  "tk_state (settled True False (sample_task ''t'' TS_COMPLETED TS_PAUSED)) = TS_PAUSED"
  by (simp add: settled_def sample_task_def)

lemma cancel_twice_skips_boundary:
  "tk_state (controlled TS_CANCELLED (controlled TS_CANCELLED (sample_task ''t'' TS_RUNNING TS_RUNNING))) =
     TS_CANCELLED"
  by (simp add: controlled_def sample_task_def)

end
