(* ===== verification/Lease_Protocol.thy ===== *)
theory Lease_Protocol
  imports Models
begin

text \<open>
  The contract that the four lease tables of the program share: the task leases and the
  resource leases of the SQLite store, the leases of the in-memory scheduler and those of the
  in-memory resource broker. A table gives, per task, the holder: owner, generation and the
  time until which the lease runs. A claim takes the next generation, a renewal moves the end
  of a lease that still runs, a release ends it and keeps the row.

  The clients rely on fencing: the generation of a task never goes back and belongs to one
  owner, so the holder of an older generation is refused for ever, however often the lease is
  claimed, released and claimed again. The theories of the four tables interpret the locales
  on their own operations.
\<close>

type_synonym holder = "(string \<times> int \<times> pyfloat) option"

definition next_generation :: "holder \<Rightarrow> int" where
  "next_generation h = (case h of None \<Rightarrow> 1 | Some (_, g, _) \<Rightarrow> g + 1)"

text \<open>What every validation of a lease identity asks.\<close>

definition holds :: "holder \<Rightarrow> string \<Rightarrow> int \<Rightarrow> pyfloat \<Rightarrow> bool" where
  "holds h own g ts = (case h of None \<Rightarrow> False | Some (own', g', u) \<Rightarrow> own' = own \<and> g' = g \<and> ts < u)"

lemma holds_iff: "holds h own g ts \<longleftrightarrow> (\<exists>u. h = Some (own, g, u) \<and> ts < u)"
  by (auto simp: holds_def split: option.splits)

lemma holds_unique: "holds h own g ts \<Longrightarrow> holds h own' g' ts' \<Longrightarrow> own = own' \<and> g = g'"
  by (auto simp: holds_iff)

locale fencing =
  fixes holder :: "'s \<Rightarrow> string \<Rightarrow> holder"
    and step :: "'s \<Rightarrow> 's \<Rightarrow> bool"
  assumes step_holder:
    "step s s' \<Longrightarrow> holder s t = Some (own, g, u) \<Longrightarrow>
     \<exists>own' g' u'. holder s' t = Some (own', g', u') \<and> (g' = g + 1 \<or> g' = g \<and> own' = own)"
begin

lemma generations_grow:
  assumes "step\<^sup>*\<^sup>* s s'" and "holder s t = Some (own, g, u)"
  obtains own' g' u' where "holder s' t = Some (own', g', u')" "g \<le> g'" "g' = g \<longrightarrow> own' = own"
  using assms
proof (induction arbitrary: thesis rule: rtranclp_induct)
  case base
  then show ?case by auto
next
  case (step s1 s2)
  obtain own1 g1 u1 where 1: "holder s1 t = Some (own1, g1, u1)" "g \<le> g1" "g1 = g \<longrightarrow> own1 = own"
    using step.IH step.prems(2) by blast
  from step_holder[OF step.hyps(2) 1(1)] obtain own2 g2 u2 where
    "holder s2 t = Some (own2, g2, u2)" "g2 = g1 + 1 \<or> g2 = g1 \<and> own2 = own1"
    by blast
  with 1 step.prems(1)[of own2 g2 u2] show ?case by auto
qed

text \<open>ABA safety: an identity that has been superseded never validates again.\<close>

lemma superseded_forever:
  assumes "step\<^sup>*\<^sup>* s s'" and "holder s t = Some (own, g, u)"
    and "g0 < g \<or> g0 = g \<and> own0 \<noteq> own"
  shows "\<not> holds (holder s' t) own0 g0 ts"
proof -
  obtain own' g' u' where "holder s' t = Some (own', g', u')" "g \<le> g'" "g' = g \<longrightarrow> own' = own"
    using assms(1,2) by (rule generations_grow)
  with assms(3) show ?thesis by (auto simp: holds_iff)
qed

end

locale lease_store =
  fixes holder :: "'s \<Rightarrow> string \<Rightarrow> holder"
    and claim :: "'a \<Rightarrow> string \<Rightarrow> pyfloat \<Rightarrow> pyfloat \<Rightarrow> 's \<Rightarrow> 'l option \<times> 's"
    and renew :: "'l \<Rightarrow> pyfloat \<Rightarrow> pyfloat \<Rightarrow> 's \<Rightarrow> 'l option \<times> 's"
    and release :: "'l \<Rightarrow> 's \<Rightarrow> bool \<times> 's"
    and ident :: "'l \<Rightarrow> string \<times> string \<times> int"
  assumes claim_grant:
    "claim a own secs ts s = (Some l, s') \<Longrightarrow>
     \<exists>t g. ident l = (t, own, g) \<and> g = next_generation (holder s t)
       \<and> holder s' = (holder s)(t \<mapsto> (own, g, ts + secs))"
    and claim_refuse: "claim a own secs ts s = (None, s') \<Longrightarrow> holder s' = holder s"
    and renew_grant:
    "renew l secs ts s = (Some l', s') \<Longrightarrow> ident l = (t, own, g) \<Longrightarrow>
     ident l' = (t, own, g) \<and> holds (holder s t) own g ts
       \<and> holder s' = (holder s)(t \<mapsto> (own, g, ts + secs))"
    and renew_refuse: "renew l secs ts s = (None, s') \<Longrightarrow> holder s' = holder s"
    and release_done:
    "release l s = (b, s') \<Longrightarrow> ident l = (t, own, g) \<Longrightarrow>
     b = (\<exists>u. holder s t = Some (own, g, u)) \<and>
     holder s' = (if b then (holder s)(t \<mapsto> (own, g, 0)) else holder s)"
begin

definition lease_step :: "'s \<Rightarrow> 's \<Rightarrow> bool" where
  "lease_step s s' \<longleftrightarrow> (\<exists>a own secs ts r. claim a own secs ts s = (r, s'))
     \<or> (\<exists>l secs ts r. renew l secs ts s = (r, s')) \<or> (\<exists>l b. release l s = (b, s'))"

lemma claim_step:
  assumes "claim a own' secs ts s = (r, s')" and "holder s t = Some (own, g, u)"
  shows "\<exists>own' g' u'. holder s' t = Some (own', g', u') \<and> (g' = g + 1 \<or> g' = g \<and> own' = own)"
proof (cases r)
  case None
  then have "holder s' = holder s" using claim_refuse assms(1) by blast
  with assms(2) show ?thesis by simp
next
  case (Some l)
  obtain t' g' where
    "g' = next_generation (holder s t')" "holder s' = (holder s)(t' \<mapsto> (own', g', ts + secs))"
    using claim_grant[OF assms(1)[unfolded Some]] by blast
  with assms(2) show ?thesis by (cases "t' = t") (auto simp: next_generation_def)
qed

lemma renew_step:
  assumes "renew l secs ts s = (r, s')" and "holder s t = Some (own, g, u)"
  shows "\<exists>u'. holder s' t = Some (own, g, u')"
proof (cases r)
  case None
  then have "holder s' = holder s" using renew_refuse assms(1) by blast
  with assms(2) show ?thesis by simp
next
  case (Some l')
  obtain t' own' g' where l: "ident l = (t', own', g')" by (cases "ident l")
  then have "holds (holder s t') own' g' ts"
    "holder s' = (holder s)(t' \<mapsto> (own', g', ts + secs))"
    using renew_grant[OF assms(1)[unfolded Some]] by simp_all
  with assms(2) show ?thesis by (cases "t' = t") (auto simp: holds_iff)
qed

lemma release_step:
  assumes "release l s = (b, s')" and "holder s t = Some (own, g, u)"
  shows "\<exists>u'. holder s' t = Some (own, g, u')"
proof -
  obtain t' own' g' where l: "ident l = (t', own', g')" by (cases "ident l")
  then have "b = (\<exists>u. holder s t' = Some (own', g', u))"
    "holder s' = (if b then (holder s)(t' \<mapsto> (own', g', 0)) else holder s)"
    using release_done[OF assms(1)] by simp_all
  with assms(2) show ?thesis by (cases "t' = t") auto
qed

sublocale fencing holder lease_step
proof
  fix s s' t own g u
  assume step: "lease_step s s'" and h: "holder s t = Some (own, g, u)"
  show "\<exists>own' g' u'. holder s' t = Some (own', g', u') \<and> (g' = g + 1 \<or> g' = g \<and> own' = own)"
    using step unfolding lease_step_def
    using claim_step[OF _ h] renew_step[OF _ h] release_step[OF _ h] by blast
qed

text \<open>A granted claim holds until its end; a released lease holds at no later time.\<close>

lemma claim_holds:
  assumes "claim a own secs ts s = (Some l, s')" and "ident l = (t, own', g)"
  shows "own' = own" "holder s' t = Some (own, g, ts + secs)"
  using claim_grant[OF assms(1)] assms(2) by auto

lemma claim_fences_previous:
  assumes "claim a own secs ts s = (Some l, s')" and "ident l = (t, own, g)"
    and "holder s t = Some (own0, g0, u0)" and "lease_step\<^sup>*\<^sup>* s' s''"
  shows "\<not> holds (holder s'' t) own0 g0 ts'"
proof -
  have "holder s' t = Some (own, g, ts + secs)" "g = g0 + 1"
    using claim_grant[OF assms(1)] assms(2,3) by (auto simp: next_generation_def)
  with assms(4) show ?thesis by (intro superseded_forever) auto
qed

lemma release_ends:
  assumes "release l s = (b, s')" and "ident l = (t, own, g)" and "0 \<le> ts"
  shows "\<not> holds (holder s' t) own g ts"
  using release_done[OF assms(1,2)] assms(3) by (auto simp: holds_iff split: if_splits)

end

text \<open>The stores that refuse to claim a task whose lease still runs.\<close>

locale exclusive_lease_store = lease_store +
  assumes claim_free:
    "claim a own secs ts s = (Some l, s') \<Longrightarrow> ident l = (t, own', g) \<Longrightarrow>
     holder s t = Some (own0, g0, u) \<Longrightarrow> u \<le> ts"
begin

lemma claim_keeps_running:
  assumes "claim a own secs ts s = (r, s')" and "holds (holder s t) own0 g0 ts"
  shows "holder s' t = holder s t"
proof (cases r)
  case None
  then have "holder s' = holder s" using claim_refuse assms(1) by blast
  then show ?thesis by simp
next
  case (Some l)
  then obtain t' g where l: "ident l = (t', own, g)"
    "holder s' = (holder s)(t' \<mapsto> (own, g, ts + secs))"
    using claim_grant assms(1) by blast
  have "t' \<noteq> t"
    using claim_free[OF assms(1)[unfolded Some] l(1)] assms(2) by (auto simp: holds_iff)
  with l(2) show ?thesis by simp
qed

end

end
