(* ===== verification/Store_Leases.thy ===== *)
theory Store_Leases
  imports Store_Events Lease_Protocol
begin

text \<open>
  The task leases and the resource leases of the SQLite store. Each method is split as the
  source writes it: the argument checks and the clock, then one transaction on the tables. The
  transactions are the functions that interpret the lease contract; the methods are computed
  from them.

  Shown here: both tables are lease stores that refuse to claim a running lease; generations
  of the two tables are fenced along every run of the store; a claim takes the first eligible
  task of the queue order; the resource table never admits more than the capacity nor two
  running leases with a common exclusive label.
\<close>

section \<open>Task leases\<close>

text \<open>\<^verbatim>\<open>WHERE t.state=? AND t.desired_state=? AND t.queued_at IS NOT NULL AND \<dots>\<close>\<close>

definition claimable :: "db \<Rightarrow> pyfloat \<Rightarrow> task_row \<Rightarrow> bool" where
  "claimable d ts r \<longleftrightarrow>
     tr_state r = task_state_value TS_QUEUED
     \<and> tr_desired_state r = task_state_value TS_RUNNING
     \<and> tr_queued_at r \<noteq> None
     \<and> (case map_of (task_leases_tbl d) (tr_task_id r) of
          None \<Rightarrow> True | Some l \<Rightarrow> tl_lease_until l \<le> ts)"

text \<open>\<^verbatim>\<open>ORDER BY CASE WHEN lane='interactive' THEN 0 ELSE 1 END, priority DESC, queued_at, task_id\<close>\<close>

definition claim_order :: "task_row \<Rightarrow> int \<times> int \<times> pyfloat \<times> string" where
  "claim_order r = (if tr_lane r = ''interactive'' then 0 else 1, - tr_priority r,
     the (tr_queued_at r), tr_task_id r)"

definition claim_queue :: "db \<Rightarrow> pyfloat \<Rightarrow> task_row list" where
  "claim_queue d ts = sort_key claim_order (filter (claimable d ts) (map snd (tasks_tbl d)))"

definition claim_task_tx ::
  "unit \<Rightarrow> string \<Rightarrow> pyfloat \<Rightarrow> pyfloat \<Rightarrow> db \<Rightarrow> task_lease option \<times> db" where
  "claim_task_tx u owner_id lease_seconds ts d =
     (case claim_queue d ts of
        [] \<Rightarrow> (None, d)
      | r # _ \<Rightarrow>
          (let generation = (case map_of (task_leases_tbl d) (tr_task_id r) of
                 None \<Rightarrow> 1 | Some l \<Rightarrow> tl_generation l + 1);
               lease = \<lparr>tl_task_id = tr_task_id r, tl_owner_id = owner_id,
                 tl_generation = generation, tl_claimed_at = ts,
                 tl_lease_until = ts + lease_seconds\<rparr>
           in (Some lease, d\<lparr>task_leases_tbl :=
                 AList.update (tl_task_id lease) lease (task_leases_tbl d)\<rparr>)))"

definition claim_next_task ::
  "string \<Rightarrow> pyfloat \<Rightarrow> pyfloat option \<Rightarrow> ('z store_st_scheme, task_lease option) py" where
  "claim_next_task owner_id lease_seconds now_ts =
     thenE (raise_if (owner_id = []) (ValueError ''owner_id is required''))
     (thenE (raise_if (lease_seconds \<le> 0) (ValueError ''lease_seconds must be positive''))
     (bindE (resolve_ts now_ts) (\<lambda>ts.
     transaction (claim_task_tx () owner_id lease_seconds ts))))"

text \<open>\<^verbatim>\<open>UPDATE task_leases SET lease_until=? WHERE task_id=? AND owner_id=? AND generation=? AND lease_until>?\<close>\<close>

definition renew_task_tx ::
  "task_lease \<Rightarrow> pyfloat \<Rightarrow> pyfloat \<Rightarrow> db \<Rightarrow> task_lease option \<times> db" where
  "renew_task_tx lease lease_seconds ts d =
     (case map_of (task_leases_tbl d) (tl_task_id lease) of
        None \<Rightarrow> (None, d)
      | Some row \<Rightarrow>
          if tl_owner_id row = tl_owner_id lease \<and> tl_generation row = tl_generation lease
             \<and> tl_lease_until row > ts
          then (Some (lease\<lparr>tl_lease_until := ts + lease_seconds\<rparr>),
                d\<lparr>task_leases_tbl := AList.update (tl_task_id lease)
                    (row\<lparr>tl_lease_until := ts + lease_seconds\<rparr>) (task_leases_tbl d)\<rparr>)
          else (None, d))"

definition renew_task_lease ::
  "task_lease \<Rightarrow> pyfloat \<Rightarrow> pyfloat option \<Rightarrow> ('z store_st_scheme, task_lease option) py" where
  "renew_task_lease lease lease_seconds now_ts =
     thenE (raise_if (lease_seconds \<le> 0) (ValueError ''lease_seconds must be positive''))
     (bindE (resolve_ts now_ts) (\<lambda>ts.
     transaction (renew_task_tx lease lease_seconds ts)))"

definition release_task_tx :: "task_lease \<Rightarrow> db \<Rightarrow> bool \<times> db" where
  "release_task_tx lease d =
     (case map_of (task_leases_tbl d) (tl_task_id lease) of
        None \<Rightarrow> (False, d)
      | Some row \<Rightarrow>
          if tl_owner_id row = tl_owner_id lease \<and> tl_generation row = tl_generation lease
          then (True, d\<lparr>task_leases_tbl := AList.update (tl_task_id lease)
                    (row\<lparr>tl_lease_until := 0\<rparr>) (task_leases_tbl d)\<rparr>)
          else (False, d))"

definition release_task_lease :: "task_lease \<Rightarrow> ('z store_st_scheme, bool) py" where
  "release_task_lease lease =
     transaction (release_task_tx lease)"

definition get_task_lease :: "string \<Rightarrow> db \<Rightarrow> task_lease option" where
  "get_task_lease task_id d = map_of (task_leases_tbl d) task_id"

definition task_identity_valid :: "db \<Rightarrow> string \<Rightarrow> string \<Rightarrow> int \<Rightarrow> pyfloat \<Rightarrow> bool" where
  "task_identity_valid d task_id owner_id generation ts =
     (case map_of (task_leases_tbl d) task_id of
        None \<Rightarrow> False
      | Some row \<Rightarrow> tl_owner_id row = owner_id \<and> tl_generation row = generation
          \<and> tl_lease_until row > ts)"

definition validate_task_lease ::
  "task_lease \<Rightarrow> pyfloat option \<Rightarrow> ('z store_st_scheme, bool) py" where
  "validate_task_lease lease now_ts =
     bindE (resolve_ts now_ts) (\<lambda>ts.
       gets (\<lambda>s. task_identity_valid (db s) (tl_task_id lease) (tl_owner_id lease)
         (tl_generation lease) ts))"

definition validate_task_lease_identity ::
  "string \<Rightarrow> string \<Rightarrow> int \<Rightarrow> pyfloat option \<Rightarrow> ('z store_st_scheme, bool) py" where
  "validate_task_lease_identity task_id owner_id generation now_ts =
     bindE (resolve_ts now_ts) (\<lambda>ts.
       gets (\<lambda>s. task_identity_valid (db s) task_id owner_id generation ts))"

section \<open>Resource leases\<close>

definition exceeds_capacity :: "resource_request \<Rightarrow> resource_capacity \<Rightarrow> bool" where
  "exceeds_capacity request capacity \<longleftrightarrow>
     rq_cpu_units request > rc_cpu_units capacity
     \<or> rq_memory_mb request > rc_memory_mb capacity
     \<or> rq_gpu_units request > rc_gpu_units capacity"

definition acquire_resource_tx ::
  "string \<times> resource_request \<times> resource_capacity \<Rightarrow> string \<Rightarrow> pyfloat \<Rightarrow> pyfloat \<Rightarrow> db
   \<Rightarrow> resource_lease option \<times> db" where
  "acquire_resource_tx arg owner_id lease_seconds ts d =
     (let (task_id, request, capacity) = arg;
          existing = map_of (resource_leases_tbl d) task_id
      in if (case existing of None \<Rightarrow> False | Some e \<Rightarrow> rl_lease_until e > ts) then (None, d)
      else
        (let rows = map snd (filter (\<lambda>(k, l). rl_lease_until l > ts \<and> k \<noteq> task_id)
               (resource_leases_tbl d));
             used_cpu = (\<Sum>l\<leftarrow>rows. rq_cpu_units (rl_request l));
             used_memory = (\<Sum>l\<leftarrow>rows. rq_memory_mb (rl_request l));
             used_gpu = (\<Sum>l\<leftarrow>rows. rq_gpu_units (rl_request l));
             active_labels = concat (map (\<lambda>l. rq_exclusive_labels (rl_request l)) rows)
         in if used_cpu + rq_cpu_units request > rc_cpu_units capacity
               \<or> used_memory + rq_memory_mb request > rc_memory_mb capacity
               \<or> used_gpu + rq_gpu_units request > rc_gpu_units capacity
               \<or> set active_labels \<inter> set (rq_exclusive_labels request) \<noteq> {}
            then (None, d)
            else
              (let generation = (case existing of None \<Rightarrow> 1 | Some e \<Rightarrow> rl_generation e + 1);
                   lease = \<lparr>rl_task_id = task_id, rl_owner_id = owner_id,
                     rl_generation = generation, rl_request = request, rl_claimed_at = ts,
                     rl_lease_until = ts + lease_seconds\<rparr>
               in (Some lease, d\<lparr>resource_leases_tbl :=
                     AList.update task_id lease (resource_leases_tbl d)\<rparr>))))"

definition acquire_resource_lease ::
  "string \<Rightarrow> string \<Rightarrow> resource_request \<Rightarrow> resource_capacity \<Rightarrow> pyfloat \<Rightarrow> pyfloat option
   \<Rightarrow> ('z store_st_scheme, resource_lease option) py" where
  "acquire_resource_lease task_id owner_id request capacity lease_seconds now_ts =
     thenE (raise_if (task_id = [] \<or> owner_id = [])
       (ValueError ''task_id and owner_id are required''))
     (thenE (raise_if (lease_seconds \<le> 0) (ValueError ''lease_seconds must be positive''))
     (if exceeds_capacity request capacity then ret None
      else bindE (resolve_ts now_ts) (\<lambda>ts.
        transaction (acquire_resource_tx (task_id, request, capacity) owner_id
            lease_seconds ts))))"

definition renew_resource_tx ::
  "resource_lease \<Rightarrow> pyfloat \<Rightarrow> pyfloat \<Rightarrow> db \<Rightarrow> resource_lease option \<times> db" where
  "renew_resource_tx lease lease_seconds ts d =
     (case map_of (resource_leases_tbl d) (rl_task_id lease) of
        None \<Rightarrow> (None, d)
      | Some row \<Rightarrow>
          if rl_owner_id row = rl_owner_id lease \<and> rl_generation row = rl_generation lease
             \<and> rl_lease_until row > ts
          then (Some (lease\<lparr>rl_lease_until := ts + lease_seconds\<rparr>),
                d\<lparr>resource_leases_tbl := AList.update (rl_task_id lease)
                    (row\<lparr>rl_lease_until := ts + lease_seconds\<rparr>) (resource_leases_tbl d)\<rparr>)
          else (None, d))"

definition renew_resource_lease ::
  "resource_lease \<Rightarrow> pyfloat \<Rightarrow> pyfloat option \<Rightarrow> ('z store_st_scheme, resource_lease option) py" where
  "renew_resource_lease lease lease_seconds now_ts =
     thenE (raise_if (lease_seconds \<le> 0) (ValueError ''lease_seconds must be positive''))
     (bindE (resolve_ts now_ts) (\<lambda>ts.
     transaction (renew_resource_tx lease lease_seconds ts)))"

definition release_resource_tx :: "resource_lease \<Rightarrow> db \<Rightarrow> bool \<times> db" where
  "release_resource_tx lease d =
     (case map_of (resource_leases_tbl d) (rl_task_id lease) of
        None \<Rightarrow> (False, d)
      | Some row \<Rightarrow>
          if rl_owner_id row = rl_owner_id lease \<and> rl_generation row = rl_generation lease
          then (True, d\<lparr>resource_leases_tbl := AList.update (rl_task_id lease)
                    (row\<lparr>rl_lease_until := 0\<rparr>) (resource_leases_tbl d)\<rparr>)
          else (False, d))"

definition release_resource_lease :: "resource_lease \<Rightarrow> ('z store_st_scheme, bool) py" where
  "release_resource_lease lease =
     transaction (release_resource_tx lease)"

definition validate_resource_lease ::
  "resource_lease \<Rightarrow> pyfloat option \<Rightarrow> ('z store_st_scheme, bool) py" where
  "validate_resource_lease lease now_ts =
     bindE (resolve_ts now_ts) (\<lambda>ts.
       gets (\<lambda>s. case map_of (resource_leases_tbl (db s)) (rl_task_id lease) of
           None \<Rightarrow> False
         | Some row \<Rightarrow> rl_owner_id row = rl_owner_id lease
             \<and> rl_generation row = rl_generation lease
             \<and> rl_lease_until row > ts
             \<and> rq_cpu_units (rl_request row) = rq_cpu_units (rl_request lease)
             \<and> rq_memory_mb (rl_request row) = rq_memory_mb (rl_request lease)
             \<and> rq_gpu_units (rl_request row) = rq_gpu_units (rl_request lease)
             \<and> rq_exclusive_labels (rl_request row) = rq_exclusive_labels (rl_request lease)))"

definition resource_identity_valid :: "db \<Rightarrow> string \<Rightarrow> string \<Rightarrow> int \<Rightarrow> pyfloat \<Rightarrow> bool" where
  "resource_identity_valid d task_id owner_id generation ts =
     (case map_of (resource_leases_tbl d) task_id of
        None \<Rightarrow> False
      | Some row \<Rightarrow> rl_owner_id row = owner_id \<and> rl_generation row = generation
          \<and> rl_lease_until row > ts)"

definition validate_resource_lease_identity ::
  "string \<Rightarrow> string \<Rightarrow> int \<Rightarrow> pyfloat option \<Rightarrow> ('z store_st_scheme, bool) py" where
  "validate_resource_lease_identity task_id owner_id generation now_ts =
     bindE (resolve_ts now_ts) (\<lambda>ts.
       gets (\<lambda>s. resource_identity_valid (db s) task_id owner_id generation ts))"

section \<open>Both tables are lease stores\<close>

definition task_holder :: "db \<Rightarrow> string \<Rightarrow> holder" where
  "task_holder d t = map_option (\<lambda>l. (tl_owner_id l, tl_generation l, tl_lease_until l))
     (map_of (task_leases_tbl d) t)"

definition resource_holder :: "db \<Rightarrow> string \<Rightarrow> holder" where
  "resource_holder d t = map_option (\<lambda>l. (rl_owner_id l, rl_generation l, rl_lease_until l))
     (map_of (resource_leases_tbl d) t)"

definition task_lease_ident :: "task_lease \<Rightarrow> string \<times> string \<times> int" where
  "task_lease_ident l = (tl_task_id l, tl_owner_id l, tl_generation l)"

definition resource_lease_ident :: "resource_lease \<Rightarrow> string \<times> string \<times> int" where
  "resource_lease_ident l = (rl_task_id l, rl_owner_id l, rl_generation l)"

lemma task_identity_valid_holds: "task_identity_valid d t own g ts = holds (task_holder d t) own g ts"
  by (simp add: task_identity_valid_def holds_def task_holder_def split: option.splits)

lemma resource_identity_valid_holds:
  "resource_identity_valid d t own g ts = holds (resource_holder d t) own g ts"
  by (simp add: resource_identity_valid_def holds_def resource_holder_def split: option.splits)

lemma task_holder_update:
  "task_holder (d\<lparr>task_leases_tbl := AList.update t l (task_leases_tbl d)\<rparr>) =
   (task_holder d)(t \<mapsto> (tl_owner_id l, tl_generation l, tl_lease_until l))"
  by (simp add: task_holder_def fun_eq_iff)

lemma resource_holder_update:
  "resource_holder (d\<lparr>resource_leases_tbl := AList.update t l (resource_leases_tbl d)\<rparr>) =
   (resource_holder d)(t \<mapsto> (rl_owner_id l, rl_generation l, rl_lease_until l))"
  by (simp add: resource_holder_def fun_eq_iff)

lemma next_generation_task:
  "next_generation (task_holder d t) =
   (case map_of (task_leases_tbl d) t of None \<Rightarrow> 1 | Some l \<Rightarrow> tl_generation l + 1)"
  by (simp add: next_generation_def task_holder_def split: option.splits)

lemma next_generation_resource:
  "next_generation (resource_holder d t) =
   (case map_of (resource_leases_tbl d) t of None \<Rightarrow> 1 | Some l \<Rightarrow> rl_generation l + 1)"
  by (simp add: next_generation_def resource_holder_def split: option.splits)

lemma set_claim_queue: "set (claim_queue d ts) = {r \<in> snd ` set (tasks_tbl d). claimable d ts r}"
  by (auto simp: claim_queue_def)

lemma claim_queue_claimable: "claim_queue d ts = r # rs \<Longrightarrow> claimable d ts r"
  using set_claim_queue[of d ts] by auto

interpretation task_leases: exclusive_lease_store
  task_holder claim_task_tx renew_task_tx release_task_tx task_lease_ident
proof (standard, goal_cases)
  case (1 a own secs ts s l s')
  then show ?case
    by (auto simp: claim_task_tx_def Let_def task_lease_ident_def task_holder_update
        next_generation_task split: list.splits)
next
  case (2 a own secs ts s s')
  then show ?case by (auto simp: claim_task_tx_def Let_def split: list.splits)
next
  case (3 l secs ts s l' s' t own g)
  then show ?case
    by (auto simp: renew_task_tx_def task_lease_ident_def task_holder_update holds_def
        task_holder_def[of s t] split: option.splits if_splits)
next
  case (4 l secs ts s s')
  then show ?case by (auto simp: renew_task_tx_def split: option.splits if_splits)
next
  case (5 l s b s' t own g)
  then show ?case
    by (auto simp: release_task_tx_def task_lease_ident_def task_holder_update
        task_holder_def[of s t] split: option.splits if_splits)
next
  case (6 a own secs ts s l s' t own' g own0 g0 u)
  then show ?case
    by (auto simp: claim_task_tx_def Let_def task_lease_ident_def task_holder_def claimable_def
        dest!: claim_queue_claimable split: list.splits)
qed

interpretation resource_leases: exclusive_lease_store
  resource_holder acquire_resource_tx renew_resource_tx release_resource_tx resource_lease_ident
proof (standard, goal_cases)
  case (1 a own secs ts s l s')
  then show ?case
    by (auto simp: acquire_resource_tx_def Let_def resource_lease_ident_def
        resource_holder_update next_generation_resource split: prod.splits if_splits)
next
  case (2 a own secs ts s s')
  then show ?case by (auto simp: acquire_resource_tx_def Let_def split: prod.splits if_splits)
next
  case (3 l secs ts s l' s' t own g)
  then show ?case
    by (auto simp: renew_resource_tx_def resource_lease_ident_def resource_holder_update holds_def
        resource_holder_def[of s t] split: option.splits if_splits)
next
  case (4 l secs ts s s')
  then show ?case by (auto simp: renew_resource_tx_def split: option.splits if_splits)
next
  case (5 l s b s' t own g)
  then show ?case
    by (auto simp: release_resource_tx_def resource_lease_ident_def resource_holder_update
        resource_holder_def[of s t] split: option.splits if_splits)
next
  case (6 a own secs ts s l s' t own' g own0 g0 u)
  then show ?case
    by (auto simp: acquire_resource_tx_def Let_def resource_lease_ident_def resource_holder_def
        split: prod.splits if_splits)
qed

section \<open>Fencing along runs of the store\<close>

text \<open>
  Any transaction of any process on the database: the six lease transactions, and every other
  one, which leaves both lease tables alone.
\<close>

inductive store_step :: "db \<Rightarrow> db \<Rightarrow> bool" where
  claim: "claim_task_tx u own secs ts d = (r, d') \<Longrightarrow> store_step d d'"
| renew: "renew_task_tx l secs ts d = (r, d') \<Longrightarrow> store_step d d'"
| release: "release_task_tx l d = (b, d') \<Longrightarrow> store_step d d'"
| acquire: "acquire_resource_tx a own secs ts d = (q, d') \<Longrightarrow> store_step d d'"
| renew_resource: "renew_resource_tx m secs ts d = (q, d') \<Longrightarrow> store_step d d'"
| release_resource: "release_resource_tx m d = (b, d') \<Longrightarrow> store_step d d'"
| other: "task_leases_tbl d' = task_leases_tbl d \<Longrightarrow>
    resource_leases_tbl d' = resource_leases_tbl d \<Longrightarrow> store_step d d'"

lemma resource_tx_task_leases:
  "acquire_resource_tx a own secs ts d = (q, d') \<Longrightarrow> task_holder d' = task_holder d"
  "renew_resource_tx m secs ts d = (q, d') \<Longrightarrow> task_holder d' = task_holder d"
  "release_resource_tx m d = (b, d') \<Longrightarrow> task_holder d' = task_holder d"
  by (auto simp: acquire_resource_tx_def renew_resource_tx_def release_resource_tx_def Let_def
      task_holder_def fun_eq_iff split: prod.splits if_splits option.splits)

lemma task_tx_resource_leases:
  "claim_task_tx u own secs ts d = (r, d') \<Longrightarrow> resource_holder d' = resource_holder d"
  "renew_task_tx l secs ts d = (r, d') \<Longrightarrow> resource_holder d' = resource_holder d"
  "release_task_tx l d = (b, d') \<Longrightarrow> resource_holder d' = resource_holder d"
  by (auto simp: claim_task_tx_def renew_task_tx_def release_task_tx_def Let_def
      resource_holder_def fun_eq_iff split: list.splits if_splits option.splits)

interpretation task_runs: fencing task_holder store_step
proof
  fix d d' t own g u
  assume "store_step d d'" and h: "task_holder d t = Some (own, g, u)"
  then show "\<exists>own' g' u'. task_holder d' t = Some (own', g', u') \<and> (g' = g + 1 \<or> g' = g \<and> own' = own)"
  proof (induction rule: store_step.induct)
    case claim
    then show ?case by (rule task_leases.claim_step)
  next
    case renew
    then show ?case using task_leases.renew_step by blast
  next
    case release
    then show ?case using task_leases.release_step by blast
  next
    case (other d' d)
    then have "task_holder d' = task_holder d" by (simp add: task_holder_def fun_eq_iff)
    with other show ?case by simp
  qed (simp_all add: resource_tx_task_leases)
qed

interpretation resource_runs: fencing resource_holder store_step
proof
  fix d d' t own g u
  assume "store_step d d'" and h: "resource_holder d t = Some (own, g, u)"
  then show "\<exists>own' g' u'. resource_holder d' t = Some (own', g', u')
      \<and> (g' = g + 1 \<or> g' = g \<and> own' = own)"
  proof (induction rule: store_step.induct)
    case acquire
    then show ?case by (rule resource_leases.claim_step)
  next
    case renew_resource
    then show ?case using resource_leases.renew_step by blast
  next
    case release_resource
    then show ?case using resource_leases.release_step by blast
  next
    case (other d' d)
    then have "resource_holder d' = resource_holder d" by (simp add: resource_holder_def fun_eq_iff)
    with other show ?case by simp
  qed (simp_all add: task_tx_resource_leases)
qed

section \<open>Queue order\<close>

lemma claim_queue_first:
  assumes "claim_queue d ts = r # rs" and "r' \<in> snd ` set (tasks_tbl d)" and "claimable d ts r'"
  shows "claim_order r \<le> claim_order r'"
proof -
  have "sorted (map claim_order (claim_queue d ts))" by (simp add: claim_queue_def)
  moreover have "r' \<in> set (claim_queue d ts)" using assms(2,3) set_claim_queue[of d ts] by blast
  ultimately show ?thesis using assms(1) by auto
qed

section \<open>Admission\<close>

text \<open>
  The invariant of a table of resource leases at a time \<open>ts\<close>: what the running leases use
  fits the capacity, and no two of them share an exclusive label. The table is the one of the
  store or the dictionary of the in-memory broker.
\<close>

type_synonym resource_table = "(string \<times> resource_lease) list"

definition used :: "(resource_request \<Rightarrow> int) \<Rightarrow> pyfloat \<Rightarrow> resource_table \<Rightarrow> int" where
  "used f ts tbl = (\<Sum>(t, l)\<leftarrow>tbl. if rl_lease_until l > ts then f (rl_request l) else 0)"

definition others :: "string \<Rightarrow> resource_table \<Rightarrow> resource_table" where
  "others t tbl = filter (\<lambda>p. fst p \<noteq> t) tbl"

definition fits :: "resource_capacity \<Rightarrow> pyfloat \<Rightarrow> resource_table \<Rightarrow> bool" where
  "fits cap ts tbl \<longleftrightarrow> used rq_cpu_units ts tbl \<le> rc_cpu_units cap
     \<and> used rq_memory_mb ts tbl \<le> rc_memory_mb cap
     \<and> used rq_gpu_units ts tbl \<le> rc_gpu_units cap"

definition label_clash :: "resource_lease \<Rightarrow> resource_lease \<Rightarrow> bool" where
  "label_clash l l' \<longleftrightarrow>
     set (rq_exclusive_labels (rl_request l)) \<inter> set (rq_exclusive_labels (rl_request l')) \<noteq> {}"

definition labels_exclusive :: "pyfloat \<Rightarrow> resource_table \<Rightarrow> bool" where
  "labels_exclusive ts tbl \<longleftrightarrow> (\<forall>(t, l) \<in> set tbl. \<forall>(t', l') \<in> set tbl.
     t \<noteq> t' \<longrightarrow> rl_lease_until l > ts \<longrightarrow> rl_lease_until l' > ts \<longrightarrow> \<not> label_clash l l')"

definition admitted :: "resource_capacity \<Rightarrow> pyfloat \<Rightarrow> resource_table \<Rightarrow> bool" where
  "admitted cap ts tbl \<longleftrightarrow> distinct (map fst tbl) \<and> (\<forall>(t, l) \<in> set tbl. request_ok (rl_request l))
     \<and> fits cap ts tbl \<and> labels_exclusive ts tbl"

lemma admitted_labelsD:
  "admitted cap ts tbl \<Longrightarrow> (t, l) \<in> set tbl \<Longrightarrow> (t', l') \<in> set tbl \<Longrightarrow> t \<noteq> t' \<Longrightarrow>
   rl_lease_until l > ts \<Longrightarrow> rl_lease_until l' > ts \<Longrightarrow> \<not> label_clash l l'"
  by (auto simp: admitted_def labels_exclusive_def)

lemma admitted_labels_active:
  assumes "admitted cap ts tbl"
    and "\<And>t l. (t, l) \<in> set tbl' \<Longrightarrow> rl_lease_until l > ts \<Longrightarrow> (t, l) \<in> set tbl"
  shows "labels_exclusive ts tbl'"
  unfolding labels_exclusive_def
  by (clarify) (metis admitted_labelsD[OF assms(1)] assms(2))

lemma used_Cons: "used f ts ((t, l) # tbl) =
    (if rl_lease_until l > ts then f (rl_request l) else 0) + used f ts tbl"
  by (simp add: used_def)

lemma used_others_rows:
  "(\<Sum>l\<leftarrow>map snd (filter (\<lambda>(k, l). rl_lease_until l > ts \<and> k \<noteq> t) tbl). f (rl_request l)) =
   used f ts (others t tbl)"
  by (induction tbl) (auto simp: used_def others_def split: if_splits)

lemma used_update:
  "distinct (map fst tbl) \<Longrightarrow> used f ts (AList.update t l tbl) =
   used f ts (others t tbl) + (if rl_lease_until l > ts then f (rl_request l) else 0)"
proof (induction tbl)
  case (Cons p tbl)
  obtain k m where p: "p = (k, m)" by (cases p)
  have "others k tbl = tbl" if "k \<notin> fst ` set tbl"
    using that by (auto simp: others_def filter_id_conv image_iff)
  with Cons p show ?case by (auto simp: used_Cons others_def)
qed (simp add: used_def others_def)

lemma used_split:
  "distinct (map fst tbl) \<Longrightarrow> map_of tbl t = Some l \<Longrightarrow> used f ts tbl =
   used f ts (others t tbl) + (if rl_lease_until l > ts then f (rl_request l) else 0)"
  using used_update[of tbl f ts t l] by simp

lemma used_mono:
  assumes "ts \<le> ts'" and "\<And>t l. (t, l) \<in> set tbl \<Longrightarrow> 0 \<le> f (rl_request l)"
  shows "used f ts' tbl \<le> used f ts tbl"
  unfolding used_def using assms by (intro sum_list_mono) (auto simp: split_def)

lemma used_others_le:
  assumes "distinct (map fst tbl)" and "\<And>t l. (t, l) \<in> set tbl \<Longrightarrow> 0 \<le> f (rl_request l)"
  shows "used f ts (others t tbl) \<le> used f ts tbl"
proof (cases "map_of tbl t")
  case None
  then have "others t tbl = tbl"
    by (auto simp: others_def filter_id_conv map_of_eq_None_iff image_iff)
  then show ?thesis by simp
next
  case (Some l)
  then have "0 \<le> f (rl_request l)" using assms(2) by (auto dest: map_of_SomeD)
  with used_split[OF assms(1) Some, of f ts] show ?thesis by simp
qed

lemma admitted_mono:
  assumes "admitted cap ts tbl" and "ts \<le> ts'"
  shows "admitted cap ts' tbl"
proof -
  have ok: "request_ok (rl_request l)" if "(t, l) \<in> set tbl" for t l
    using assms(1) that by (auto simp: admitted_def)
  have "used f ts' tbl \<le> used f ts tbl"
    if "\<And>r. request_ok r \<Longrightarrow> 0 \<le> f r" for f
    using assms(2) ok that by (intro used_mono) auto
  from this[of rq_cpu_units] this[of rq_memory_mb] this[of rq_gpu_units]
  have "fits cap ts' tbl"
    using assms(1) by (auto simp: admitted_def fits_def request_ok_def)
  moreover have "labels_exclusive ts' tbl"
    using assms unfolding admitted_def labels_exclusive_def by (fastforce intro: le_less_trans)
  ultimately show ?thesis using assms(1) by (simp add: admitted_def)
qed

lemma set_update: "set (AList.update t l tbl) \<subseteq> insert (t, l) (set (others t tbl))" if "distinct (map fst tbl)"
  using that by (induction tbl) (auto simp: others_def image_iff)

text \<open>Putting a lease into the row of a task, over whatever was there.\<close>

lemma admitted_update:
  assumes adm: "admitted cap ts tbl" and ok: "request_ok (rl_request l)"
    and cpu: "used rq_cpu_units ts (others t tbl) + rq_cpu_units (rl_request l) \<le> rc_cpu_units cap"
    and mem: "used rq_memory_mb ts (others t tbl) + rq_memory_mb (rl_request l) \<le> rc_memory_mb cap"
    and gpu: "used rq_gpu_units ts (others t tbl) + rq_gpu_units (rl_request l) \<le> rc_gpu_units cap"
    and lab: "\<And>t' l'. (t', l') \<in> set tbl \<Longrightarrow> t' \<noteq> t \<Longrightarrow> rl_lease_until l' > ts \<Longrightarrow>
      rl_lease_until l > ts \<Longrightarrow> \<not> label_clash l' l"
  shows "admitted cap ts (AList.update t l tbl)"
proof -
  have dist: "distinct (map fst tbl)" using adm by (simp add: admitted_def)
  have fits: "fits cap ts (AList.update t l tbl)"
    using cpu mem gpu ok by (auto simp: fits_def used_update[OF dist] request_ok_def)
  have sub: "set (AList.update t l tbl) \<subseteq> insert (t, l) (set (others t tbl))"
    using dist by (rule set_update)
  have sym: "label_clash a b = label_clash b a" for a b by (auto simp: label_clash_def)
  have old: "\<not> label_clash a b" if "(x, a) \<in> set (others t tbl)" "(y, b) \<in> set (others t tbl)"
    "x \<noteq> y" "rl_lease_until a > ts" "rl_lease_until b > ts" for x y a b
    using that by (intro admitted_labelsD[OF adm]) (auto simp: others_def)
  have new: "\<not> label_clash a l" "\<not> label_clash l a" if "(x, a) \<in> set (others t tbl)"
    "rl_lease_until a > ts" "rl_lease_until l > ts" for x a
    using that lab[of x a] sym[of a l] by (auto simp: others_def)
  have "labels_exclusive ts tbl'" if "set tbl' \<subseteq> insert (t, l) (set (others t tbl))"
    for tbl'
    unfolding labels_exclusive_def
  proof (clarify)
    fix x a y b
    assume "(x, a) \<in> set tbl'" "(y, b) \<in> set tbl'" and xy: "x \<noteq> y"
      and act: "rl_lease_until a > ts" "rl_lease_until b > ts" and clash: "label_clash a b"
    with that consider "(x, a) \<in> set (others t tbl)" "(y, b) \<in> set (others t tbl)"
      | "a = l" "(y, b) \<in> set (others t tbl)" | "(x, a) \<in> set (others t tbl)" "b = l"
      by blast
    then show False using xy act clash by cases (use old new in blast)+
  qed
  with sub have "labels_exclusive ts (AList.update t l tbl)" by blast
  moreover have "request_ok (rl_request m)" if "(x, m) \<in> set (AList.update t l tbl)" for x m
  proof -
    from that sub consider "m = l" | "(x, m) \<in> set tbl" by (auto simp: others_def)
    then show ?thesis using adm ok by cases (auto simp: admitted_def)
  qed
  ultimately show ?thesis using dist fits by (auto simp: admitted_def)
qed

lemma acquire_admitted:
  assumes adm: "admitted cap ts (resource_leases_tbl d)" and ok: "request_ok req"
    and run: "acquire_resource_tx (t, req, cap) own secs ts d = (r, d')"
  shows "admitted cap ts (resource_leases_tbl d')"
proof (cases r)
  case None
  with run have "d' = d" by (auto simp: acquire_resource_tx_def Let_def split: if_splits)
  with adm show ?thesis by simp
next
  case (Some l)
  with run have l: "rl_request l = req"
    and tbl: "resource_leases_tbl d' = AList.update t l (resource_leases_tbl d)"
    by (auto simp: acquire_resource_tx_def Let_def split: if_splits)
  note run = run[unfolded Some acquire_resource_tx_def Let_def prod.case used_others_rows]
  have "\<not> label_clash l' l" if "(t', l') \<in> set (resource_leases_tbl d)" "t' \<noteq> t"
    "rl_lease_until l' > ts" for t' l'
    using run that l by (fastforce simp: label_clash_def split: if_splits)
  then show ?thesis
    unfolding tbl using adm ok run l by (intro admitted_update) (auto split: if_splits)
qed

text \<open>A row rewritten with an end that does not make it run when it did not run before.\<close>

lemma rewrite_admitted:
  assumes adm: "admitted cap ts tbl" and row: "map_of tbl t = Some row"
    and run: "ts < u \<Longrightarrow> ts < rl_lease_until row"
  shows "admitted cap ts (AList.update t (row\<lparr>rl_lease_until := u\<rparr>) tbl)"
proof (cases "ts < u")
  case True
  have dist: "distinct (map fst tbl)" using adm by (simp add: admitted_def)
  have mem: "(t, row) \<in> set tbl" using row by (rule map_of_SomeD)
  have "\<not> label_clash l' row" if "(t', l') \<in> set tbl" "t' \<noteq> t" "rl_lease_until l' > ts" for t' l'
    using admitted_labelsD[OF adm that(1) mem that(2) that(3) run[OF True]] .
  then have "\<not> label_clash l' (row\<lparr>rl_lease_until := u\<rparr>)"
    if "(t', l') \<in> set tbl" "t' \<noteq> t" "rl_lease_until l' > ts" for t' l'
    using that by (simp add: label_clash_def)
  moreover have "used rq_cpu_units ts (others t tbl) + rq_cpu_units (rl_request row) \<le> rc_cpu_units cap"
    "used rq_memory_mb ts (others t tbl) + rq_memory_mb (rl_request row) \<le> rc_memory_mb cap"
    "used rq_gpu_units ts (others t tbl) + rq_gpu_units (rl_request row) \<le> rc_gpu_units cap"
    using adm run[OF True] used_split[OF dist row, of rq_cpu_units ts]
      used_split[OF dist row, of rq_memory_mb ts] used_split[OF dist row, of rq_gpu_units ts]
    by (simp_all add: admitted_def fits_def)
  moreover have "request_ok (rl_request row)" using adm mem by (auto simp: admitted_def)
  ultimately show ?thesis
    using adm by (intro admitted_update) simp_all
next
  case False
  have dist: "distinct (map fst tbl)" using adm by (simp add: admitted_def)
  have mem: "(t, row) \<in> set tbl" using row by (rule map_of_SomeD)
  have sub: "set (AList.update t (row\<lparr>rl_lease_until := u\<rparr>) tbl)
      \<subseteq> insert (t, row\<lparr>rl_lease_until := u\<rparr>) (set tbl)"
    using set_update[OF dist, of t "row\<lparr>rl_lease_until := u\<rparr>"] by (auto simp: others_def)
  have "used f ts (AList.update t (row\<lparr>rl_lease_until := u\<rparr>) tbl) \<le> used f ts tbl"
    if "\<And>r. request_ok r \<Longrightarrow> 0 \<le> f r" for f
    using used_others_le[OF dist, of f ts t] that adm False
    by (auto simp: used_update[OF dist] admitted_def)
  from this[of rq_cpu_units] this[of rq_memory_mb] this[of rq_gpu_units]
  have "fits cap ts (AList.update t (row\<lparr>rl_lease_until := u\<rparr>) tbl)"
    using adm by (auto simp: admitted_def fits_def request_ok_def)
  moreover have "labels_exclusive ts (AList.update t (row\<lparr>rl_lease_until := u\<rparr>) tbl)"
    using sub False by (intro admitted_labels_active[OF adm]) auto
  moreover have "request_ok (rl_request m)"
    if "(x, m) \<in> set (AList.update t (row\<lparr>rl_lease_until := u\<rparr>) tbl)" for x m
  proof -
    from that sub consider "m = row\<lparr>rl_lease_until := u\<rparr>" | "(x, m) \<in> set tbl" by blast
    then show ?thesis using adm mem by cases (auto simp: admitted_def)
  qed
  ultimately show ?thesis using dist by (auto simp: admitted_def)
qed

lemma renew_admitted:
  assumes "admitted cap ts (resource_leases_tbl d)" and "renew_resource_tx l secs ts d = (r, d')"
  shows "admitted cap ts (resource_leases_tbl d')"
  using assms by (auto simp: renew_resource_tx_def intro: rewrite_admitted
      split: option.splits if_splits)

lemma release_admitted:
  assumes "admitted cap ts (resource_leases_tbl d)" and "release_resource_tx l d = (b, d')"
    and "0 \<le> ts"
  shows "admitted cap ts (resource_leases_tbl d')"
  using assms by (auto simp: release_resource_tx_def intro!: rewrite_admitted
      split: option.splits if_splits)

text \<open>
  The states of the resource table that a run can reach at a time: the capacity is the one of
  the broker, requests passed their constructor, and the clock does not run backwards.
\<close>

inductive resource_reach :: "resource_capacity \<Rightarrow> pyfloat \<Rightarrow> db \<Rightarrow> bool" for cap where
  start: "0 \<le> ts \<Longrightarrow> resource_leases_tbl d = [] \<Longrightarrow> resource_reach cap ts d"
| pass: "resource_reach cap ts d \<Longrightarrow> ts \<le> ts' \<Longrightarrow> resource_reach cap ts' d"
| acquire: "resource_reach cap ts d \<Longrightarrow> request_ok req \<Longrightarrow>
    acquire_resource_tx (t, req, cap) own secs ts d = (r, d') \<Longrightarrow> resource_reach cap ts d'"
| renew: "resource_reach cap ts d \<Longrightarrow> renew_resource_tx l secs ts d = (r, d') \<Longrightarrow>
    resource_reach cap ts d'"
| release: "resource_reach cap ts d \<Longrightarrow> release_resource_tx l d = (b, d') \<Longrightarrow>
    resource_reach cap ts d'"
| other: "resource_reach cap ts d \<Longrightarrow> resource_leases_tbl d' = resource_leases_tbl d \<Longrightarrow>
    resource_reach cap ts d'"

definition capacity_ok :: "resource_capacity \<Rightarrow> bool" where
  "capacity_ok cap \<longleftrightarrow> 0 \<le> rc_cpu_units cap \<and> 0 \<le> rc_memory_mb cap \<and> 0 \<le> rc_gpu_units cap"

lemma reach_admitted:
  assumes "resource_reach cap ts d" and "capacity_ok cap"
  shows "0 \<le> ts \<and> admitted cap ts (resource_leases_tbl d)"
  using assms(1)
proof (induction rule: resource_reach.induct)
  case (start ts d)
  with assms(2) show ?case
    by (simp add: admitted_def fits_def used_def labels_exclusive_def capacity_ok_def)
next
  case (pass ts d ts')
  then show ?case by (auto intro: admitted_mono)
next
  case acquire
  then show ?case by (auto intro: acquire_admitted)
next
  case renew
  then show ?case by (auto intro: renew_admitted)
next
  case release
  then show ?case by (auto intro: release_admitted)
qed simp

section \<open>Lease methods and the event log\<close>

lemma lease_tx_same_log:
  "same_log d (snd (claim_task_tx u own secs ts d))"
  "same_log d (snd (renew_task_tx l secs ts d))"
  "same_log d (snd (release_task_tx l d))"
  "same_log d (snd (acquire_resource_tx a own secs ts d))"
  "same_log d (snd (renew_resource_tx m secs ts d))"
  "same_log d (snd (release_resource_tx m d))"
  by (auto simp: claim_task_tx_def renew_task_tx_def release_task_tx_def acquire_resource_tx_def
      renew_resource_tx_def release_resource_tx_def Let_def same_log_def
      split: list.splits option.splits if_splits prod.splits)

lemma keeps_store_lease_methods [wp]:
  "keeps store_ok (claim_next_task own secs now_ts)"
  "keeps store_ok (renew_task_lease l secs now_ts)"
  "keeps store_ok (release_task_lease l)"
  "keeps store_ok (validate_task_lease l now_ts)"
  "keeps store_ok (validate_task_lease_identity t own g now_ts)"
  "keeps store_ok (acquire_resource_lease t own req cap secs now_ts)"
  "keeps store_ok (renew_resource_lease m secs now_ts)"
  "keeps store_ok (release_resource_lease m)"
  "keeps store_ok (validate_resource_lease m now_ts)"
  "keeps store_ok (validate_resource_lease_identity t own g now_ts)"
  unfolding claim_next_task_def renew_task_lease_def release_task_lease_def
    validate_task_lease_def validate_task_lease_identity_def acquire_resource_lease_def
    renew_resource_lease_def release_resource_lease_def validate_resource_lease_def
    validate_resource_lease_identity_def
  by (intro wp lease_tx_same_log)+

section \<open>Properties\<close>

definition sample_row :: "string \<Rightarrow> string \<Rightarrow> int \<Rightarrow> task_row" where
  "sample_row tid lane priority =
     \<lparr>tr_task_id = tid, tr_workspace_id = ''ws'', tr_goal = ''goal'', tr_success_criteria_json = [],
      tr_constraints_json = [], tr_state = ''QUEUED'', tr_desired_state = ''RUNNING'',
      tr_phase = ''OBSERVING'', tr_priority = priority, tr_lane = lane, tr_queued_at = Some 1,
      tr_wait_reason = None, tr_budget_json = [], tr_revision = 1\<rparr>"

definition sample_db :: db where
  "sample_db = empty_db\<lparr>tasks_tbl := [(''t1'', sample_row ''t1'' ''background'' 90),
     (''t2'', sample_row ''t2'' ''interactive'' 10)]\<rparr>"

definition leased_db :: "string \<Rightarrow> int \<Rightarrow> pyfloat \<Rightarrow> db" where
  "leased_db own g u = sample_db\<lparr>task_leases_tbl := [(''t2'', \<lparr>tl_task_id = ''t2'', tl_owner_id = own,
     tl_generation = g, tl_claimed_at = 0, tl_lease_until = u\<rparr>)]\<rparr>"

text \<open>
  C7: fencing of task leases, safe against ABA. Once a task's lease has been claimed under a
  generation, an older generation, or the same generation under another owner, never validates
  again, however the database is changed afterwards: by any sequence of claims, renewals and
  releases of task and resource leases by any owner, and of transactions on other tables.
\<close>

theorem stale_task_lease_refused:
  assumes "store_step\<^sup>*\<^sup>* d d'" and "task_holder d t = Some (own, g, u)"
    and "g0 < g \<or> g0 = g \<and> own0 \<noteq> own"
  shows "\<not> task_identity_valid d' t own0 g0 ts"
  unfolding task_identity_valid_holds by (rule task_runs.superseded_forever[OF assms])

theorem stale_task_lease_refused_witness:
  "\<not> task_identity_valid (snd (release_task_tx \<lparr>tl_task_id = ''t2'', tl_owner_id = ''b'',
      tl_generation = 2, tl_claimed_at = 0, tl_lease_until = 9\<rparr> (leased_db ''b'' 2 9))) ''t2'' ''a'' 1 5"
proof -
  let ?l = "\<lparr>tl_task_id = ''t2'', tl_owner_id = ''b'', tl_generation = 2, tl_claimed_at = 0,
    tl_lease_until = 9\<rparr>"
  have "store_step\<^sup>*\<^sup>* (leased_db ''b'' 2 9) (snd (release_task_tx ?l (leased_db ''b'' 2 9)))"
    by (rule r_into_rtranclp, rule store_step.release[OF surjective_pairing])
  moreover have "task_holder (leased_db ''b'' 2 9) ''t2'' = Some (''b'', 2, 9)"
    by (simp add: task_holder_def leased_db_def)
  ultimately show ?thesis
    by (rule stale_task_lease_refused) simp
qed

text \<open>The same fencing for resource leases.\<close>

theorem stale_resource_lease_refused:
  assumes "store_step\<^sup>*\<^sup>* d d'" and "resource_holder d t = Some (own, g, u)"
    and "g0 < g \<or> g0 = g \<and> own0 \<noteq> own"
  shows "\<not> resource_identity_valid d' t own0 g0 ts"
  unfolding resource_identity_valid_holds by (rule resource_runs.superseded_forever[OF assms])

definition resource_db :: db where
  "resource_db = snd (acquire_resource_tx (''t2'', empty_request,
     \<lparr>rc_cpu_units = 1, rc_memory_mb = 1, rc_gpu_units = 0\<rparr>) ''b'' 10 1 empty_db)"

theorem stale_resource_lease_refused_witness:
  "\<not> resource_identity_valid resource_db ''t2'' ''a'' 1 5 \<and> resource_identity_valid resource_db ''t2'' ''b'' 1 5"
proof -
  have h: "resource_holder resource_db ''t2'' = Some (''b'', 1, 11)"
    by (simp add: resource_db_def resource_holder_def acquire_resource_tx_def empty_request_def empty_db_def
        Let_def)
  have "\<not> resource_identity_valid resource_db ''t2'' ''a'' 1 5"
    by (rule stale_resource_lease_refused[OF rtranclp.rtrancl_refl h]) simp
  with h show ?thesis by (simp add: resource_identity_valid_holds holds_def)
qed

text \<open>
  C29: \<open>claim_next_task\<close> takes the first claimable task of the queue order: interactive
  lane before background, then higher priority, then earlier queued, then smaller identifier.
  The lease it returns carries the next generation of that task, runs for the asked time and is
  the row of the table; no other row changes. It returns nothing exactly when no task is
  queued, wanted running and free of a running lease.
\<close>

theorem claim_takes_first:
  assumes "own \<noteq> []" and "0 < secs"
  shows "case claim_next_task own secs (Some ts) s of (Inl e, s') \<Rightarrow> False
    | (Inr None, s') \<Rightarrow> s' = s \<and> (\<forall>r \<in> snd ` set (tasks_tbl (db s)). \<not> claimable (db s) ts r)
    | (Inr (Some l), s') \<Rightarrow> \<exists>r \<in> snd ` set (tasks_tbl (db s)). claimable (db s) ts r
        \<and> (\<forall>r' \<in> snd ` set (tasks_tbl (db s)). claimable (db s) ts r' \<longrightarrow> claim_order r \<le> claim_order r')
        \<and> task_lease_ident l = (tr_task_id r, own, next_generation (task_holder (db s) (tr_task_id r)))
        \<and> tl_lease_until l = ts + secs
        \<and> s' = s\<lparr>db := (db s)\<lparr>task_leases_tbl := AList.update (tr_task_id r) l (task_leases_tbl (db s))\<rparr>\<rparr>"
proof (cases "claim_queue (db s) ts")
  case Nil
  then have "\<forall>r \<in> snd ` set (tasks_tbl (db s)). \<not> claimable (db s) ts r"
    using set_claim_queue[of "db s" ts] by auto
  with Nil assms show ?thesis by (simp add: claim_next_task_def claim_task_tx_def py_simps)
next
  case (Cons r rs)
  then have "r \<in> snd ` set (tasks_tbl (db s))" "claimable (db s) ts r"
    using set_claim_queue[of "db s" ts] by auto
  with Cons assms claim_queue_first[OF Cons] show ?thesis
    by (auto simp: claim_next_task_def claim_task_tx_def py_simps Let_def task_lease_ident_def
        next_generation_task)
qed

theorem claim_takes_first_witness:
  "fst (claim_next_task ''a'' 10 (Some 5) (fresh_store sample_hex (\<lambda>n. 0)\<lparr>db := sample_db\<rparr>)) =
     Inr (Some \<lparr>tl_task_id = ''t2'', tl_owner_id = ''a'', tl_generation = 1, tl_claimed_at = 5, tl_lease_until = 15\<rparr>)
   \<and> (\<exists>r \<in> snd ` set (tasks_tbl sample_db). claimable sample_db 5 r \<and> tr_task_id r = ''t2'')"
proof -
  let ?s = "fresh_store sample_hex (\<lambda>n. 0)\<lparr>db := sample_db\<rparr>"
  have run: "fst (claim_next_task ''a'' 10 (Some 5) ?s) =
     Inr (Some \<lparr>tl_task_id = ''t2'', tl_owner_id = ''a'', tl_generation = 1, tl_claimed_at = 5, tl_lease_until = 15\<rparr>)"
    by (simp add: claim_next_task_def claim_task_tx_def claim_queue_def claimable_def claim_order_def
        sample_db_def sample_row_def empty_db_def py_simps Let_def)
  with claim_takes_first[of "''a''" 10 ?s 5] show ?thesis
    by (auto simp: task_lease_ident_def split: prod.splits sum.splits)
qed

text \<open>
  Exclusive ownership. A claim by anybody leaves a task whose lease still runs with its
  holder: owner, generation and end of the lease are as before.
\<close>

theorem claim_leaves_running_leases:
  assumes "task_identity_valid (db s) t own g ts"
  shows "task_holder (db (snd (claim_next_task own' secs (Some ts) s))) t = task_holder (db s) t"
proof -
  obtain r d' where tx: "claim_task_tx () own' secs ts (db s) = (r, d')" by fastforce
  have "task_holder d' t = task_holder (db s) t"
    by (rule task_leases.claim_keeps_running[OF tx assms[unfolded task_identity_valid_holds]])
  with tx show ?thesis by (simp add: claim_next_task_def py_simps)
qed

theorem claim_leaves_running_leases_witness:
  "task_holder (db (snd (claim_next_task ''b'' 10 (Some 5)
     (fresh_store sample_hex (\<lambda>n. 0)\<lparr>db := leased_db ''a'' 1 9\<rparr>)))) ''t2'' = Some (''a'', 1, 9)"
  using claim_leaves_running_leases[of "fresh_store sample_hex (\<lambda>n. 0)\<lparr>db := leased_db ''a'' 1 9\<rparr>" "''t2''"
      "''a''" 1 5 "''b''" 10]
  by (simp add: task_identity_valid_def leased_db_def task_holder_def)

text \<open>
  C5: admission. In every state the resource table reaches, with requests and capacity as
  their constructors check them and a clock that does not run backwards, the running leases
  together fit the capacity in each of the three units, and no two running leases of different
  tasks share an exclusive label.
\<close>

theorem capacity_never_exceeded:
  assumes "resource_reach cap ts d" and "capacity_ok cap"
  shows "used rq_cpu_units ts (resource_leases_tbl d) \<le> rc_cpu_units cap
    \<and> used rq_memory_mb ts (resource_leases_tbl d) \<le> rc_memory_mb cap
    \<and> used rq_gpu_units ts (resource_leases_tbl d) \<le> rc_gpu_units cap
    \<and> labels_exclusive ts (resource_leases_tbl d)"
  using reach_admitted[OF assms] by (simp add: admitted_def fits_def)

theorem capacity_never_exceeded_witness:
  "used rq_cpu_units 1 (resource_leases_tbl resource_db) \<le> 1"
proof -
  let ?cap = "\<lparr>rc_cpu_units = 1, rc_memory_mb = 1, rc_gpu_units = 0\<rparr>"
  have "resource_reach ?cap 1 empty_db"
    by (rule resource_reach.start) (simp_all add: empty_db_def)
  then have "resource_reach ?cap 1 resource_db"
    unfolding resource_db_def
    by (rule resource_reach.acquire[OF _ _ surjective_pairing]) (simp add: request_ok_def empty_request_def)
  moreover have "capacity_ok ?cap" by (simp add: capacity_ok_def)
  ultimately show ?thesis using capacity_never_exceeded[of ?cap 1 resource_db] by simp
qed

end
