(* ===== verification/Policy.thy ===== *)
theory Policy
  imports Models
begin

text \<open>
  The workspace policy, \<^verbatim>\<open>src/liandanlu_native/policy.py\<close>, and the action registry,
  \<^verbatim>\<open>src/liandanlu_native/capabilities.py\<close>: which action a model may propose, with which
  arguments, and what the policy of a workspace says about it.

  The lemmas show that the policy denies by default, and that a proposal the registry resolves
  matches the registered specification exactly and carries no locator-like argument at any
  depth of its arguments.
\<close>

section \<open>Policy\<close>

datatype policy_decision = ALLOW | DENY | REQUIRE_CONFIRMATION

record workspace_policy =
  wp_allowed_capabilities :: "string fset"
  wp_denied_actions :: "string fset"
  wp_confirm_risks :: "risk_class fset"
  wp_allow_risks :: "risk_class fset"

definition default_policy :: workspace_policy where
  "default_policy = \<lparr>wp_allowed_capabilities = {||}, wp_denied_actions = {||},
     wp_confirm_risks = {|RC_MUTATING, RC_EXTERNAL, RC_DESTRUCTIVE|},
     wp_allow_risks = {|RC_READ, RC_REVERSIBLE|}\<rparr>"

type_synonym policy_engine = "(string \<times> workspace_policy) list"

definition evaluate :: "policy_engine \<Rightarrow> string \<Rightarrow> string \<Rightarrow> string \<Rightarrow> risk_class \<Rightarrow> policy_decision" where
  "evaluate policies workspace_id capability action risk =
     (case map_of policies workspace_id of
        None \<Rightarrow> DENY
      | Some policy \<Rightarrow>
          if action |\<in>| wp_denied_actions policy then DENY
          else if capability |\<notin>| wp_allowed_capabilities policy then DENY
          else if risk |\<in>| wp_confirm_risks policy then REQUIRE_CONFIRMATION
          else if risk |\<in>| wp_allow_risks policy then ALLOW
          else DENY)"

lemma evaluate_ALLOW_iff:
  "evaluate policies ws cap act risk = ALLOW \<longleftrightarrow>
   (\<exists>p. map_of policies ws = Some p \<and> act |\<notin>| wp_denied_actions p
      \<and> cap |\<in>| wp_allowed_capabilities p \<and> risk |\<notin>| wp_confirm_risks p
      \<and> risk |\<in>| wp_allow_risks p)"
  by (auto simp: evaluate_def split: option.splits)

section \<open>Action specifications\<close>

datatype idempotency_mode = SAFE_REPEAT | KEYED | RECONCILABLE | NON_RECONCILABLE

fun idempotency_mode_value :: "idempotency_mode \<Rightarrow> string" where
  "idempotency_mode_value SAFE_REPEAT = ''SAFE_REPEAT''"
| "idempotency_mode_value KEYED = ''KEYED''"
| "idempotency_mode_value RECONCILABLE = ''RECONCILABLE''"
| "idempotency_mode_value NON_RECONCILABLE = ''NON_RECONCILABLE''"

record action_spec =
  as_capability :: string
  as_action :: string
  as_risk_class :: risk_class
  as_required_permission :: string
  as_allowed_arguments :: "string fset"
  as_required_arguments :: "string fset"
  as_revision_domains :: "string fset"
  as_resource_request :: resource_request
  as_idempotency_mode :: idempotency_mode
  as_forbidden_arguments :: "string fset"

definition default_forbidden :: "string fset" where
  "default_forbidden = {|''path'', ''file_path'', ''absolute_path'', ''locator'',
     ''filesystem_path'', ''source_path'', ''target_path'', ''shell_command''|}"

lemma size_json_items: "(k, v) \<in> set items \<Longrightarrow> size v < size (JDict items)"
proof (induction items)
  case (Cons p items)
  then show ?case by (cases p) auto
qed simp

lemma size_json_elems: "v \<in> set xs \<Longrightarrow> size v < size (JList xs)"
  by (induction xs) auto

lemma size_json_nth: "i < length xs \<Longrightarrow> size (xs ! i) < size (JList xs)"
  by (rule size_json_elems) simp

lemma enumerate_all:
  "(\<forall>p \<in> set (enumerate 0 xs). P p) \<longleftrightarrow> (\<forall>i < length xs. P (i, xs ! i))"
  by (force simp: in_set_enumerate_eq)

text \<open>
  The keys at any depth whose lower-case form is forbidden, as locations: \<open>a.b\<close> below a
  mapping, \<open>a[0]\<close> below a sequence.
\<close>

function find_forbidden_keys :: "string fset \<Rightarrow> json \<Rightarrow> string \<Rightarrow> string list" where
  "find_forbidden_keys forbidden (JDict items) prefix =
     concat (map (\<lambda>(key, child).
       let location = (if prefix \<noteq> [] then prefix @ ''.'' @ key else key)
       in (if lower key |\<in>| forbidden then [location] else [])
          @ find_forbidden_keys forbidden child location) items)"
| "find_forbidden_keys forbidden (JList xs) prefix =
     concat (map (\<lambda>(index, child).
       find_forbidden_keys forbidden child (prefix @ ''['' @ nat_str index @ '']''))
       (enumerate 0 xs))"
| "find_forbidden_keys forbidden JNull prefix = []"
| "find_forbidden_keys forbidden (JBool b) prefix = []"
| "find_forbidden_keys forbidden (JInt i) prefix = []"
| "find_forbidden_keys forbidden (JFloat q) prefix = []"
| "find_forbidden_keys forbidden (JStr s) prefix = []"
  by pat_completeness auto
termination
  by (relation "measure (\<lambda>(_, v, _). size v)")
    (auto intro: size_json_items size_json_nth simp: in_set_enumerate_eq simp del: json.size)

definition validate :: "action_spec \<Rightarrow> action_proposal \<Rightarrow> exc + unit" where
  "validate spec proposal =
     (if ap_capability proposal \<noteq> as_capability spec \<or> ap_action proposal \<noteq> as_action spec
      then Inl (InvalidAction ''proposal does not match action spec'')
      else
        (let keys = fset_of_list (map fst (ap_arguments proposal));
             unknown = keys |-| as_allowed_arguments spec;
             missing = as_required_arguments spec |-| keys;
             forbidden = find_forbidden_keys (as_forbidden_arguments spec)
               (JDict (ap_arguments proposal)) []
         in if unknown \<noteq> {||}
            then Inl (InvalidAction (''unknown arguments: '' @ repr_list (sorted_list_of_fset unknown)))
            else if missing \<noteq> {||}
            then Inl (InvalidAction (''missing required arguments: ''
                   @ repr_list (sorted_list_of_fset missing)))
            else if forbidden \<noteq> []
            then Inl (InvalidAction (''forbidden locator-like arguments: ''
                   @ repr_list (sort forbidden)))
            else Inr ()))"

section \<open>Registry\<close>

type_synonym registry = "((string \<times> string) \<times> action_spec) list"

definition register_action :: "action_spec \<Rightarrow> registry \<Rightarrow> exc + registry" where
  "register_action spec actions =
     (let key = (as_capability spec, as_action spec)
      in if map_of actions key \<noteq> None
         then Inl (ValueError (''duplicate action spec: ('' @ quoted (fst key) @ '', ''
                @ quoted (snd key) @ '')''))
         else Inr (AList.update key spec actions))"

definition resolve_action :: "registry \<Rightarrow> action_proposal \<Rightarrow> exc + action_spec" where
  "resolve_action actions proposal =
     (case map_of actions (ap_capability proposal, ap_action proposal) of
        None \<Rightarrow> Inl (InvalidAction (''unregistered action: '' @ ap_capability proposal @ ''.''
                  @ ap_action proposal))
      | Some spec \<Rightarrow> bindR (validate spec proposal) (\<lambda>_. Inr spec))"

section \<open>No locator-like key at any depth\<close>

text \<open>The reference: every key of every mapping inside a value.\<close>

function nested_keys :: "json \<Rightarrow> string list" where
  "nested_keys (JDict items) = concat (map (\<lambda>(k, v). k # nested_keys v) items)"
| "nested_keys (JList xs) = concat (map nested_keys xs)"
| "nested_keys JNull = []"
| "nested_keys (JBool b) = []"
| "nested_keys (JInt i) = []"
| "nested_keys (JFloat q) = []"
| "nested_keys (JStr s) = []"
  by pat_completeness auto
termination
  by (relation "measure size") (auto intro: size_json_items size_json_elems simp del: json.size)

lemma find_forbidden_keys_Nil_iff:
  "find_forbidden_keys F v p = [] \<longleftrightarrow> (\<forall>k \<in> set (nested_keys v). lower k |\<notin>| F)"
proof (induction v arbitrary: p rule: nested_keys.induct)
  case (1 items)
  have "(if lower k |\<in>| F then [l] else []) @ find_forbidden_keys F v l = [] \<longleftrightarrow>
      (\<forall>k' \<in> set (k # nested_keys v). lower k' |\<notin>| F)" if "(k, v) \<in> set items" for k v l
    using 1[OF that refl] by simp
  then show ?case by (fastforce simp: Let_def)
next
  case (2 xs)
  have "find_forbidden_keys F (xs ! i) q = [] \<longleftrightarrow> (\<forall>k \<in> set (nested_keys (xs ! i)). lower k |\<notin>| F)"
    if "i < length xs" for i q
    using 2[of "xs ! i" q] that by simp
  then have "find_forbidden_keys F (JList xs) p = [] \<longleftrightarrow>
      (\<forall>i < length xs. \<forall>k \<in> set (nested_keys (xs ! i)). lower k |\<notin>| F)"
    by (simp add: enumerate_all)
  then show ?case by (auto simp: in_set_conv_nth all_set_conv_all_nth)
qed simp_all

lemma validate_Inr:
  assumes "validate spec proposal = Inr u"
  shows "ap_capability proposal = as_capability spec" "ap_action proposal = as_action spec"
    "fst ` set (ap_arguments proposal) \<subseteq> fset (as_allowed_arguments spec)"
    "fset (as_required_arguments spec) \<subseteq> fst ` set (ap_arguments proposal)"
    "\<forall>k \<in> set (nested_keys (JDict (ap_arguments proposal))). lower k |\<notin>| as_forbidden_arguments spec"
proof -
  note v = assms[unfolded validate_def Let_def]
  show "ap_capability proposal = as_capability spec" "ap_action proposal = as_action spec"
    using v by (auto split: if_splits)
  have "fset_of_list (map fst (ap_arguments proposal)) |-| as_allowed_arguments spec = {||}"
    "as_required_arguments spec |-| fset_of_list (map fst (ap_arguments proposal)) = {||}"
    "find_forbidden_keys (as_forbidden_arguments spec) (JDict (ap_arguments proposal)) [] = []"
    using v by (auto split: if_splits)
  note eqs = this
  show "\<forall>k \<in> set (nested_keys (JDict (ap_arguments proposal))). lower k |\<notin>| as_forbidden_arguments spec"
    using eqs(3) by (simp only: find_forbidden_keys_Nil_iff)
  show "fst ` set (ap_arguments proposal) \<subseteq> fset (as_allowed_arguments spec)"
    using arg_cong[OF eqs(1), of fset] by (simp add: fset_of_list.rep_eq)
  show "fset (as_required_arguments spec) \<subseteq> fst ` set (ap_arguments proposal)"
    using arg_cong[OF eqs(2), of fset] by (simp add: fset_of_list.rep_eq)
qed

lemma resolve_action_Inr:
  "resolve_action actions proposal = Inr spec \<Longrightarrow>
   map_of actions (ap_capability proposal, ap_action proposal) = Some spec \<and>
   validate spec proposal = Inr ()"
  by (auto simp: resolve_action_def bindR_def split: option.splits sum.splits)

section \<open>Properties\<close>

text \<open>
  The policy denies by default. An action is allowed exactly when the workspace has a
  policy that does not deny the action, lists the capability, does not ask for confirmation of
  the risk class, and allows the risk class.
\<close>

theorem allowed_iff:
  "evaluate policies ws cap act risk = ALLOW \<longleftrightarrow>
   (\<exists>p. map_of policies ws = Some p \<and> act |\<notin>| wp_denied_actions p
      \<and> cap |\<in>| wp_allowed_capabilities p \<and> risk |\<notin>| wp_confirm_risks p
      \<and> risk |\<in>| wp_allow_risks p)"
  by (rule evaluate_ALLOW_iff)

definition sample_spec :: action_spec where
  "sample_spec = \<lparr>as_capability = ''files'', as_action = ''read'', as_risk_class = RC_READ,
     as_required_permission = ''read'', as_allowed_arguments = {|''options''|},
     as_required_arguments = {||}, as_revision_domains = {|''workspace''|},
     as_resource_request = empty_request, as_idempotency_mode = RECONCILABLE,
     as_forbidden_arguments = default_forbidden\<rparr>"

definition sample_proposal :: action_proposal where
  "sample_proposal = \<lparr>ap_proposal_id = ''p'', ap_capability = ''files'', ap_action = ''read'',
     ap_object_refs = [''doc''], ap_arguments = [(''options'', JDict [(''depth'', JInt 1)])],
     ap_expected_outcome = [], ap_confidence = 1\<rparr>"

text \<open>
  C40: a proposal the registry resolves is registered under its capability and action, names
  only allowed arguments and all required ones, and no key of its arguments, at any depth of
  nested mappings and sequences and in any mixture of cases, is a forbidden locator-like one.
\<close>

theorem resolved_proposal_is_clean:
  assumes "resolve_action actions proposal = Inr spec"
  shows "map_of actions (ap_capability proposal, ap_action proposal) = Some spec
    \<and> fst ` set (ap_arguments proposal) \<subseteq> fset (as_allowed_arguments spec)
    \<and> fset (as_required_arguments spec) \<subseteq> fst ` set (ap_arguments proposal)
    \<and> (\<forall>k \<in> set (nested_keys (JDict (ap_arguments proposal))). lower k |\<notin>| as_forbidden_arguments spec)"
  using resolve_action_Inr[OF assms] validate_Inr[of spec proposal "()"] by blast

theorem resolved_proposal_is_clean_witness:
  "lower ''options'' |\<notin>| as_forbidden_arguments sample_spec \<and> lower ''depth'' |\<notin>| as_forbidden_arguments sample_spec"
proof -
  have "find_forbidden_keys default_forbidden (JDict (ap_arguments sample_proposal)) [] = []"
    by (simp add: find_forbidden_keys_Nil_iff sample_proposal_def default_forbidden_def lower_def
        lower_char_def Let_def)
  then have "validate sample_spec sample_proposal = Inr ()"
    by (simp add: validate_def sample_spec_def sample_proposal_def)
  then have "resolve_action [((''files'', ''read''), sample_spec)] sample_proposal = Inr sample_spec"
    by (simp add: resolve_action_def sample_proposal_def)
  from resolved_proposal_is_clean[OF this] show ?thesis by (simp add: sample_proposal_def)
qed

end
