(* ===== verification/Operation_Runtime.thy ===== *)
theory Operation_Runtime
  imports Task_Runtime Store_Leases Policy
begin

text \<open>
  \<open>OperationRuntime\<close> of \<^verbatim>\<open>src/liandanlu_native/runtime.py\<close>: preparing an operation from a
  proposal, executing it behind the lease, revision and permission checks, verifying it by
  evidence, and recovering it after a restart.

  The capabilities are code outside the repository: a \<open>capability\<close> is a record of three
  functions on a state \<open>'w\<close> of the world outside the process, of which nothing is assumed
  (each may raise, and each may change \<open>'w\<close>). They receive the operation and do not change
  it. An Operation or Task object is the entry of its dictionary, a reference is its identifier.

  Shown here: no capability runs unless the leases, the revisions and every permission hold at
  that moment; a budget is never overrun; an operation is VERIFIED only with evidence; and the
  tables hold the operations of the process after every method.
\<close>

record 'w capability =
  cap_execute :: "operation \<Rightarrow> string list \<Rightarrow> 'w \<Rightarrow> (exc + dict) \<times> 'w"
  cap_verify :: "operation \<Rightarrow> dict \<Rightarrow> 'w \<Rightarrow> (exc + dict list) \<times> 'w"
  cap_reconcile :: "operation \<Rightarrow> string list \<Rightarrow> 'w \<Rightarrow> (exc + bool \<times> dict) \<times> 'w"

record 'w op_st = task_st +
  ops_durable :: bool
  registry :: registry
  capabilities :: "(string \<times> 'w capability) list"
  operations :: "(string \<times> operation) list"
  ext :: 'w

definition operation_runtime_post_init :: "('w, 'z) op_st_scheme \<Rightarrow> exc + unit" where
  "operation_runtime_post_init s =
     (if ops_durable s then
        (if \<not> events_durable s
         then Inl (ValueError ''EventStore and OperationRuntime must share one persistence authority'')
         else if \<not> world_durable s
         then Inl (ValueError ''WorldModel and OperationRuntime must share one persistence authority'')
         else Inr ())
      else Inr ())"

text \<open>A call of a capability: it acts on the world outside.\<close>

definition call :: "('w \<Rightarrow> (exc + 'a) \<times> 'w) \<Rightarrow> (('w, 'z) op_st_scheme, 'a) py" where
  "call f = (\<lambda>s. case f (ext s) of (r, w) \<Rightarrow> (r, s\<lparr>ext := w\<rparr>))"

definition get_operation :: "string \<Rightarrow> (('w, 'z) op_st_scheme, operation) py" where
  "get_operation oid = bindE (gets operations) (\<lambda>m. of_option (KeyError oid) (map_of m oid))"

definition get_capability :: "string \<Rightarrow> (('w, 'z) op_st_scheme, 'w capability) py" where
  "get_capability name =
     bindE (gets capabilities) (\<lambda>m. of_option (KeyError name) (map_of m name))"

text \<open>An assignment to fields of the operation object.\<close>

definition put_operation :: "operation \<Rightarrow> (('w, 'z) op_st_scheme, unit) py" where
  "put_operation p = modify (\<lambda>s. s\<lparr>operations := AList.update (op_operation_id p) p (operations s)\<rparr>)"

definition save_op :: "operation \<Rightarrow> (('w, 'z) op_st_scheme, unit) py" where
  "save_op p = bindE (gets ops_durable) (\<lambda>durable. whenE durable (save_operation p))"

definition record_operation ::
  "operation \<Rightarrow> string \<Rightarrow> string \<Rightarrow> dict \<Rightarrow> (('w, 'z) op_st_scheme, unit) py" where
  "record_operation p event_type actor payload =
     bindE (gets ops_durable) (\<lambda>durable.
     let a = event_kwargs event_type actor (op_workspace_id p) payload in
     if durable then thenE (save_operation_with_outbox_event p a) (ret ())
     else thenE (enqueue_outbox (operation_event p a)) (ret ()))"

text \<open>Changed fields, then \<open>_record\<close>; changed fields, then \<open>_save\<close>.\<close>

definition put_and_record ::
  "operation \<Rightarrow> string \<Rightarrow> string \<Rightarrow> dict \<Rightarrow> (('w, 'z) op_st_scheme, operation) py" where
  "put_and_record p event_type actor payload =
     thenE (put_operation p) (thenE (record_operation p event_type actor payload) (ret p))"

definition put_and_save :: "operation \<Rightarrow> (('w, 'z) op_st_scheme, operation) py" where
  "put_and_save p = thenE (put_operation p) (thenE (save_op p) (ret p))"

section \<open>Preparing\<close>

definition assert_accesses :: "world_model \<Rightarrow> string list \<Rightarrow> string \<Rightarrow> string \<Rightarrow> exc + unit" where
  "assert_accesses w refs permission ws =
     foldR (\<lambda>ref _. bindR (assert_access w ref permission ws) (\<lambda>_. Inr ())) refs ()"

definition check_task_lease :: "task \<Rightarrow> task_lease option \<Rightarrow> (('w, 'z) op_st_scheme, unit) py" where
  "check_task_lease t lease =
     (case lease of None \<Rightarrow> ret ()
      | Some l \<Rightarrow>
          thenE (raise_if (tl_task_id l \<noteq> tk_task_id t)
            (LeaseLost ''task lease belongs to another task''))
          (bindE (gets ops_durable) (\<lambda>durable.
           whenE durable
            (bindE (validate_task_lease_identity (tk_task_id t) (tl_owner_id l) (tl_generation l) None)
              (\<lambda>ok. raise_if (\<not> ok) (LeaseLost ''task lease is stale or expired''))))))"

definition check_resource_lease ::
  "task \<Rightarrow> resource_lease option \<Rightarrow> (('w, 'z) op_st_scheme, unit) py" where
  "check_resource_lease t lease =
     (case lease of None \<Rightarrow> ret ()
      | Some l \<Rightarrow>
          thenE (raise_if (rl_task_id l \<noteq> tk_task_id t)
            (LeaseLost ''resource lease belongs to another task''))
          (bindE (gets ops_durable) (\<lambda>durable.
           whenE durable
            (bindE (validate_resource_lease_identity (tk_task_id t) (rl_owner_id l)
                (rl_generation l) None)
              (\<lambda>ok. raise_if (\<not> ok) (LeaseLost ''resource lease is stale or expired''))))))"

definition new_operation ::
  "string \<Rightarrow> task \<Rightarrow> action_proposal \<Rightarrow> action_spec \<Rightarrow> (string \<times> int) list
   \<Rightarrow> task_lease option \<Rightarrow> resource_lease option \<Rightarrow> operation" where
  "new_operation oid t proposal spec expected_revisions task_lease resource_lease =
     \<lparr>op_operation_id = oid, op_task_id = tk_task_id t, op_workspace_id = tk_workspace_id t,
      op_capability = ap_capability proposal, op_action = ap_action proposal,
      op_object_refs = ap_object_refs proposal, op_arguments = ap_arguments proposal,
      op_risk_class = as_risk_class spec, op_required_permission = as_required_permission spec,
      op_idempotency_mode = idempotency_mode_value (as_idempotency_mode spec),
      op_state = OS_PREPARED, op_expected_revisions = expected_revisions, op_evidence = [],
      op_result = None, op_error = None,
      op_task_lease_owner_id = map_option tl_owner_id task_lease,
      op_task_lease_generation = map_option tl_generation task_lease,
      op_resource_lease_owner_id = map_option rl_owner_id resource_lease,
      op_resource_lease_generation = map_option rl_generation resource_lease\<rparr>"

definition prepared_event :: "task \<Rightarrow> operation \<Rightarrow> event_args" where
  "prepared_event t p = event_kwargs ''operation.prepared'' ''engine'' (op_workspace_id p)
     [(''budget_operations_started'', JInt (operations_started (tk_budget t))),
      (''budget_max_operations'', JInt (max_operations (tk_budget t)))]"

definition record_prepared :: "task \<Rightarrow> operation \<Rightarrow> (('w, 'z) op_st_scheme, unit) py" where
  "record_prepared t p =
     bindE (gets ops_durable) (\<lambda>durable.
     if durable
     then thenE (save_task_and_operation_with_outbox_event t p (prepared_event t p)) (ret ())
     else thenE (enqueue_outbox (operation_event p (prepared_event t p))) (ret ()))"

definition charged :: "task \<Rightarrow> task" where
  "charged t = t\<lparr>tk_budget := (tk_budget t)\<lparr>operations_started :=
     operations_started (tk_budget t) + 1\<rparr>, tk_revision := tk_revision t + 1\<rparr>"

definition prepare ::
  "string \<Rightarrow> action_proposal \<Rightarrow> (string \<times> int) list \<Rightarrow> task_lease option \<Rightarrow> resource_lease option
   \<Rightarrow> (('w, 'z) op_st_scheme, operation) py" where
  "prepare tid proposal expected_revisions task_lease resource_lease =
     bindE (get_task tid) (\<lambda>t.
     bindE (gets registry) (\<lambda>reg.
     bindE (of_result (resolve_action reg proposal)) (\<lambda>spec.
     bindE (gets world) (\<lambda>w.
     thenE (of_result (assert_revisions w expected_revisions (Some (tk_workspace_id t))))
     (thenE (of_result (assert_accesses w (ap_object_refs proposal) (as_required_permission spec)
         (tk_workspace_id t)))
     (thenE (check_task_lease t task_lease)
     (thenE (check_resource_lease t resource_lease)
     (bindE (new_id ''op'') (\<lambda>oid.
     let p = new_operation oid t proposal spec expected_revisions task_lease resource_lease in
     bindE now (\<lambda>ts.
     case block_reason (tk_budget t) ts of
       Some reason \<Rightarrow> raise (BudgetExceeded reason)
     | None \<Rightarrow>
         thenE (put_task (charged t))
         (thenE bump_tasks_revision
         (thenE (put_operation p)
         (thenE (record_prepared (charged t) p) (ret p))))))))))))))"

section \<open>Executing\<close>

definition passes :: "dict list \<Rightarrow> bool" where
  "passes evidence \<longleftrightarrow> evidence \<noteq> [] \<and> (\<forall>item \<in> set evidence. eq_str (dict_get item ''status'') ''pass'')"

definition verify_operation ::
  "operation \<Rightarrow> 'w capability \<Rightarrow> (('w, 'z) op_st_scheme, operation) py" where
  "verify_operation p cap =
     (case op_result p of
        None \<Rightarrow> put_and_record (p\<lparr>op_state := OS_UNKNOWN\<rparr>) ''operation.verify_missing_result'' ''verifier'' []
      | Some result \<Rightarrow>
          bindE (put_and_save (p\<lparr>op_state := OS_VERIFYING\<rparr>)) (\<lambda>p1.
          bindE (attempt (call (cap_verify cap p1 result))) (\<lambda>outcome.
          case outcome of
            Inl e \<Rightarrow> put_and_record (p1\<lparr>op_error := Some (exc_repr e)\<rparr>)
              ''operation.verify_error'' ''verifier'' [(''error'', JStr (exc_repr e))]
          | Inr evidence \<Rightarrow>
              put_and_record (p1\<lparr>op_evidence := op_evidence p1 @ evidence,
                  op_state := (if passes evidence then OS_VERIFIED else OS_FAILED)\<rparr>)
                (if passes evidence then ''operation.verified'' else ''operation.verification_failed'')
                ''verifier'' [(''evidence'', JList (map JDict evidence))])))"

definition lease_check ::
  "string option \<Rightarrow> int option \<Rightarrow> (string \<Rightarrow> int \<Rightarrow> (('w, 'z) op_st_scheme, bool) py) \<Rightarrow> string
   \<Rightarrow> (('w, 'z) op_st_scheme, unit) py" where
  "lease_check owner generation valid message =
     bindE (gets ops_durable) (\<lambda>durable.
     case owner of
       None \<Rightarrow> ret ()
     | Some own \<Rightarrow> whenE durable
         (bindE (of_option (TypeError ''int() argument must be a string or a real number'') generation)
           (\<lambda>g. bindE (valid own g) (\<lambda>ok. raise_if (\<not> ok) (LeaseLost message)))))"

definition resolve_locators :: "world_model \<Rightarrow> operation \<Rightarrow> exc + string list" where
  "resolve_locators w p =
     foldR (\<lambda>ref acc. bindR (resolve_locator w ref (op_required_permission p) (Some (op_workspace_id p)))
       (\<lambda>loc. Inr (acc @ [loc]))) (op_object_refs p) []"

text \<open>The checks of \<open>execute\<close> and the record that execution starts, up to the call.\<close>

definition begin_execution ::
  "string \<Rightarrow> (('w, 'z) op_st_scheme, operation \<times> 'w capability \<times> string list) py" where
  "begin_execution oid =
     bindE (get_operation oid) (\<lambda>p.
     thenE (lease_check (op_task_lease_owner_id p) (op_task_lease_generation p)
        (\<lambda>own g. validate_task_lease_identity (op_task_id p) own g None)
        ''task lease was lost before side effect execution'')
     (thenE (lease_check (op_resource_lease_owner_id p) (op_resource_lease_generation p)
        (\<lambda>own g. validate_resource_lease_identity (op_task_id p) own g None)
        ''resource lease was lost before side effect execution'')
     (bindE (get_capability (op_capability p)) (\<lambda>cap.
     bindE (gets world) (\<lambda>w.
     thenE (of_result (assert_revisions w (op_expected_revisions p) (Some (op_workspace_id p))))
     (bindE (of_result (resolve_locators w p)) (\<lambda>locators.
     bindE (put_and_record (p\<lparr>op_state := OS_RUNNING\<rparr>) ''operation.started'' ''engine'' []) (\<lambda>p1.
     ret (p1, cap, locators)))))))))"

definition execute :: "string \<Rightarrow> (('w, 'z) op_st_scheme, operation) py" where
  "execute oid =
     bindE (begin_execution oid) (\<lambda>(p, cap, locators).
     bindE (attempt (call (cap_execute cap p locators))) (\<lambda>outcome.
     case outcome of
       Inl e \<Rightarrow> put_and_record (p\<lparr>op_state := OS_UNKNOWN, op_error := Some (exc_repr e)\<rparr>)
         ''operation.unknown'' ''engine'' [(''error'', JStr (exc_repr e))]
     | Inr result \<Rightarrow>
         bindE (put_and_save (p\<lparr>op_result := Some result, op_state := OS_OBSERVED\<rparr>)) (\<lambda>p1.
         verify_operation p1 cap)))"

section \<open>Recovering\<close>

definition reconcile_operation ::
  "operation \<Rightarrow> 'w capability \<Rightarrow> (('w, 'z) op_st_scheme, operation) py" where
  "reconcile_operation p cap =
     bindE (put_and_record (p\<lparr>op_state := OS_RECONCILING\<rparr>) ''operation.reconciling'' ''recovery'' []) (\<lambda>p1.
     bindE (gets world) (\<lambda>w.
     bindE (attempt (bindE (of_result (resolve_locators w p1)) (\<lambda>locators.
        call (cap_reconcile cap p1 locators)))) (\<lambda>outcome.
     case outcome of
       Inl e \<Rightarrow> put_and_record (p1\<lparr>op_state := OS_UNKNOWN, op_error := Some (exc_repr e)\<rparr>)
         ''operation.reconcile_error'' ''recovery'' [(''error'', JStr (exc_repr e))]
     | Inr (verified, result) \<Rightarrow>
         put_and_record (p1\<lparr>op_result := Some result,
             op_state := (if verified then OS_VERIFIED else OS_FAILED)\<rparr>)
           ''operation.reconciled'' ''recovery'' [(''verified'', JBool verified)])))"

definition recover_operation :: "string \<Rightarrow> (('w, 'z) op_st_scheme, operation) py" where
  "recover_operation oid =
     bindE (get_operation oid) (\<lambda>p.
     if op_state p = OS_PREPARED
     then put_and_record (p\<lparr>op_state := OS_CANCELLED\<rparr>) ''operation.abandoned_prepared'' ''recovery''
        [(''reason'', JStr ''no external execution was recorded before restart'')]
     else bindE (get_capability (op_capability p)) (\<lambda>cap.
       if op_state p \<in> {OS_OBSERVED, OS_VERIFYING} \<and> op_result p \<noteq> None
       then verify_operation p cap
       else if op_state p \<notin> {OS_RUNNING, OS_UNKNOWN, OS_RECONCILING} then ret p
       else reconcile_operation p cap))"

section \<open>The tables hold the operations\<close>

lemma dom_update_keys: "fst ` set (AList.update k v d) = insert k (fst ` set d)"
  using arg_cong[OF keys_update[of k v d], of set] by (auto split: if_splits)

text \<open>An identifier this run has drawn for an operation.\<close>

definition op_drawn :: "'z host_st_scheme \<Rightarrow> string \<Rightarrow> bool" where
  "op_drawn s k \<longleftrightarrow> (\<exists>i < ids_drawn s. k = ''op_'' @ hex_supply s i)"

lemma op_drawn_mono:
  "op_drawn s k \<Longrightarrow> hex_supply s' = hex_supply s \<Longrightarrow> ids_drawn s \<le> ids_drawn s' \<Longrightarrow> op_drawn s' k"
  unfolding op_drawn_def by (metis order_less_le_trans)

definition ops_ok :: "('w, 'z) op_st_scheme \<Rightarrow> bool" where
  "ops_ok s \<longleftrightarrow> keyed op_operation_id (operations s)
     \<and> (\<forall>k \<in> fst ` set (operations s). op_drawn s k)
     \<and> (ops_durable s \<longrightarrow> operations_saved (db s) (operations s))
     \<and> ops_durable s = tasks_durable s"

text \<open>The state of a process with both runtimes on one store.\<close>

definition engine_ok :: "('w, 'z) op_st_scheme \<Rightarrow> bool" where
  "engine_ok s \<longleftrightarrow> runtime_ok s \<and> ops_ok s"

lemma same_origin_refl [simp]: "same_origin p p"
  by (simp add: same_origin_def)

lemma same_origin_trans: "same_origin p q \<Longrightarrow> same_origin q r \<Longrightarrow> same_origin p r"
  by (simp add: same_origin_def)

lemma same_origin_id: "same_origin p q \<Longrightarrow> op_operation_id p = op_operation_id q"
  by (simp add: same_origin_def)

lemma same_origin_fields [simp]:
  "same_origin (p\<lparr>op_state := st\<rparr>) q = same_origin p q"
  "same_origin (p\<lparr>op_error := er\<rparr>) q = same_origin p q"
  "same_origin (p\<lparr>op_result := rs\<rparr>) q = same_origin p q"
  "same_origin (p\<lparr>op_evidence := ev\<rparr>) q = same_origin p q"
  by (simp_all add: same_origin_def)

text \<open>The state while a method works on operation \<open>p0\<close>.\<close>

definition works_on :: "operation \<Rightarrow> ('w, 'z) op_st_scheme \<Rightarrow> bool" where
  "works_on p0 s \<longleftrightarrow> engine_ok s
     \<and> (\<exists>q. map_of (operations s) (op_operation_id p0) = Some q \<and> same_origin p0 q)"

lemma run_put_operation [py_simps]:
  "put_operation p s = (Inr (), s\<lparr>operations := AList.update (op_operation_id p) p (operations s)\<rparr>)"
  by (simp add: put_operation_def py_simps)

lemma run_get_operation [py_simps]:
  "get_operation oid s = (case map_of (operations s) oid of
      None \<Rightarrow> (Inl (KeyError oid), s) | Some p \<Rightarrow> (Inr p, s))"
  by (simp add: get_operation_def py_simps)

lemma run_get_capability [py_simps]:
  "get_capability c s = (case map_of (capabilities s) c of
      None \<Rightarrow> (Inl (KeyError c), s) | Some cap \<Rightarrow> (Inr cap, s))"
  by (simp add: get_capability_def py_simps)

lemma run_call [py_simps]: "call f s = (case f (ext s) of (r, w) \<Rightarrow> (r, s\<lparr>ext := w\<rparr>))"
  by (simp add: call_def)

lemma operations_saved_put:
  assumes "operations_saved d m" and "\<And>q. map_of m (op_operation_id p) = Some q \<Longrightarrow> same_origin p q"
    and "operations_tbl d' = operations_tbl (upsert_operation p d)"
  shows "operations_saved d' (AList.update (op_operation_id p) p m)"
  using operation_rows.upsert_represents[OF assms(1), of p] assms(2,3)
  by (simp add: operations_saved_def)

text \<open>
  What \<open>_save\<close>, \<open>_record\<close> and the record of a prepared operation do to the state: the
  operation's row is written, the task's row only by the last.
\<close>

definition wrote :: "operation \<Rightarrow> ('w, 'z) op_st_scheme \<Rightarrow> ('w, 'z) op_st_scheme \<Rightarrow> bool" where
  "wrote p s s' \<longleftrightarrow> operations s' = operations s \<and> tasks s' = tasks s \<and> world s' = world s
     \<and> ops_durable s' = ops_durable s \<and> tasks_durable s' = tasks_durable s
     \<and> world_durable s' = world_durable s \<and> registry s' = registry s
     \<and> capabilities s' = capabilities s \<and> ext s' = ext s
     \<and> world_part (db s') = world_part (db s)
     \<and> operations_tbl (db s') = (if ops_durable s then operations_tbl (upsert_operation p (db s))
         else operations_tbl (db s))
     \<and> task_leases_tbl (db s') = task_leases_tbl (db s)
     \<and> resource_leases_tbl (db s') = resource_leases_tbl (db s)
     \<and> hex_supply s' = hex_supply s \<and> ids_drawn s \<le> ids_drawn s'"

lemma run_save_op:
  obtains s' where "save_op p s = (Inr (), s')" "wrote p s s'" "tasks_tbl (db s') = tasks_tbl (db s)"
  by (cases "ops_durable s")
    (simp_all add: save_op_def save_operation_def py_simps wrote_def world_part_def upsert_operation_def)

lemma run_record_operation:
  obtains s' where "record_operation p et actor pl s = (Inr (), s')" "wrote p s s'"
    "tasks_tbl (db s') = tasks_tbl (db s)"
  by (cases "ops_durable s"; cases "events_durable s")
    (simp_all add: record_operation_def py_simps save_operation_with_outbox_event_def
      insert_outbox_def enqueue_outbox_def enqueue_event_outbox_def Let_def wrote_def
      world_part_def upsert_operation_def)

lemma keeps_store_ops [wp]:
  "keeps store_ok (put_operation p)" "keeps store_ok (save_op p)"
  "keeps store_ok (record_operation p et actor pl)" "keeps store_ok (record_prepared t p)"
  unfolding put_operation_def save_op_def save_operation_def record_operation_def
    record_prepared_def Let_def
  by (intro wp; simp)+

lemma engine_ok_wrote:
  assumes ok: "engine_ok s" and store: "store_ok s'"
    and wrote: "wrote p (s\<lparr>operations := AList.update (op_operation_id p) p (operations s)\<rparr>) s'"
    and tbl: "tasks_tbl (db s') = tasks_tbl (db s)"
    and fresh: "\<And>q. map_of (operations s) (op_operation_id p) = Some q \<Longrightarrow> same_origin p q"
    and drawn: "op_drawn s (op_operation_id p)"
  shows "engine_ok s'"
proof -
  note w = wrote[unfolded wrote_def, simplified]
  have "world_saved s'"
    using ok w mirrors_world_part[of "db s'" "db s"]
    by (simp add: engine_ok_def runtime_ok_def world_saved_def)
  moreover have "tasks_synced s'"
    using ok w tbl by (simp add: engine_ok_def runtime_ok_def tasks_synced_def tasks_saved_def)
  moreover have "operations_saved (db s') (operations s')" if "ops_durable s'"
    using ok w that operations_saved_put[OF _ fresh, of "db s" "operations s" "db s'"]
    by (simp add: engine_ok_def ops_ok_def)
  moreover have "op_drawn s' k" if "k \<in> fst ` set (operations s')" for k
  proof -
    have "k = op_operation_id p \<or> k \<in> fst ` set (operations s)"
      using that w by (simp add: dom_update_keys)
    then have "op_drawn s k" using ok drawn by (auto simp: engine_ok_def ops_ok_def)
    then show ?thesis by (rule op_drawn_mono) (use w in simp_all)
  qed
  ultimately show ?thesis
    using ok w store by (auto simp: engine_ok_def runtime_ok_def ops_ok_def keyed_update)
qed

lemma works_on_engine: "works_on p0 s \<Longrightarrow> engine_ok s"
  by (simp add: works_on_def)

lemma works_on_lookup: "engine_ok s \<Longrightarrow> map_of (operations s) oid = Some p \<Longrightarrow> works_on p s"
  by (auto simp: works_on_def engine_ok_def ops_ok_def dest: keyed_lookup)

lemma works_on_wrote:
  assumes "works_on p0 s" "same_origin p p0" "store_ok s'"
    "wrote p (s\<lparr>operations := AList.update (op_operation_id p) p (operations s)\<rparr>) s'"
    "tasks_tbl (db s') = tasks_tbl (db s)"
  shows "works_on p0 s'"
proof -
  obtain q where q: "map_of (operations s) (op_operation_id p) = Some q" "same_origin p q"
    using assms(1,2) same_origin_trans[OF assms(2)] same_origin_id[OF assms(2)]
    by (auto simp: works_on_def)
  moreover have "op_drawn s (op_operation_id p)"
    using assms(1) q(1) by (auto simp: works_on_def engine_ok_def ops_ok_def dest!: map_of_SomeD)
  ultimately have "engine_ok s'"
    using assms engine_ok_wrote[of s s' p] works_on_engine by force
  moreover have "operations s' = AList.update (op_operation_id p) p (operations s)"
    using assms(4) by (simp add: wrote_def)
  ultimately show ?thesis
    using assms(2) by (auto simp: works_on_def same_origin_def)
qed

lemma keeps_works_put_and_record [wp]:
  assumes "same_origin p p0"
  shows "keeps (works_on p0) (put_and_record p et actor pl)"
proof (rule keepsI)
  fix s :: "('w, 'z) op_st_scheme"
  assume on: "works_on p0 s"
  let ?s = "s\<lparr>operations := AList.update (op_operation_id p) p (operations s)\<rparr>"
  obtain s' where s': "record_operation p et actor pl ?s = (Inr (), s')" "wrote p ?s s'"
    "tasks_tbl (db s') = tasks_tbl (db ?s)" by (rule run_record_operation)
  have "store_ok ?s" using on keepsD[OF keeps_store_ops(1), of s p]
    by (simp add: works_on_def engine_ok_def runtime_ok_def py_simps)
  then have "store_ok s'" using keepsE[OF keeps_store_ops(3) s'(1)] by simp
  then show "works_on p0 (snd (put_and_record p et actor pl s))"
    using works_on_wrote[OF on assms _ s'(2)] s' by (simp add: put_and_record_def py_simps)
qed

lemma keeps_works_put_and_save [wp]:
  assumes "same_origin p p0"
  shows "keeps (works_on p0) (put_and_save p)"
proof (rule keepsI)
  fix s :: "('w, 'z) op_st_scheme"
  assume on: "works_on p0 s"
  let ?s = "s\<lparr>operations := AList.update (op_operation_id p) p (operations s)\<rparr>"
  obtain s' where s': "save_op p ?s = (Inr (), s')" "wrote p ?s s'"
    "tasks_tbl (db s') = tasks_tbl (db ?s)" by (rule run_save_op)
  have "store_ok ?s" using on keepsD[OF keeps_store_ops(1), of s p]
    by (simp add: works_on_def engine_ok_def runtime_ok_def py_simps)
  then have "store_ok s'" using keepsE[OF keeps_store_ops(2) s'(1)] by simp
  then show "works_on p0 (snd (put_and_save p s))"
    using works_on_wrote[OF on assms _ s'(2)] s' by (simp add: put_and_save_def py_simps)
qed

lemma put_bind:
  "bindE (put_and_record p et actor pl) k = thenE (put_and_record p et actor pl) (k p)"
  "bindE (put_and_save p) k = thenE (put_and_save p) (k p)"
  by (simp_all add: put_and_record_def put_and_save_def thenE_def bindE_assoc)

text \<open>The state of a process, whatever it reads, draws or calls outside.\<close>

lemma engine_ok_frame:
  assumes "engine_ok s" "store_ok s'" "tasks s' = tasks s" "operations s' = operations s"
    "world s' = world s" "tasks_durable s' = tasks_durable s" "ops_durable s' = ops_durable s"
    "world_durable s' = world_durable s" "world_part (db s') = world_part (db s)"
    "tasks_tbl (db s') = tasks_tbl (db s)" "operations_tbl (db s') = operations_tbl (db s)"
    "hex_supply s' = hex_supply s" "ids_drawn s \<le> ids_drawn s'"
  shows "engine_ok s'"
  using assms mirrors_world_part[OF assms(9)] op_drawn_mono[of s _ s']
  by (auto simp: engine_ok_def runtime_ok_def ops_ok_def world_saved_def tasks_synced_def
      tasks_saved_def operations_saved_def)

lemma works_on_frame:
  "works_on p s \<Longrightarrow> (engine_ok s \<Longrightarrow> engine_ok s') \<Longrightarrow> operations s' = operations s \<Longrightarrow> works_on p s'"
  by (auto simp: works_on_def)

lemma keeps_works_now [wp]: "keeps (works_on p) now"
proof (rule keepsI)
  fix s :: "('w, 'z) op_st_scheme"
  assume on: "works_on p s"
  then have "store_ok (snd (now s))"
    by (intro keepsD[OF keeps_store_now]) (simp add: works_on_def engine_ok_def runtime_ok_def)
  with on show "works_on p (snd (now s))"
    by (elim works_on_frame) (auto simp: py_simps intro: engine_ok_frame)
qed

lemma keeps_works_call [wp]:
  fixes f :: "'w \<Rightarrow> (exc + 'x) \<times> 'w"
  shows "keeps (works_on p) (call f :: (('w, 'z) op_st_scheme, 'x) py)"
proof (rule keepsI)
  fix s :: "('w, 'z) op_st_scheme"
  assume on: "works_on p s"
  then have "store_ok (snd (call f s))"
    by (auto simp: works_on_def engine_ok_def runtime_ok_def py_simps same_log_def
        intro: store_ok_mono split: prod.splits)
  with on show "works_on p (snd (call f s))"
    by (elim works_on_frame) (auto simp: py_simps split: prod.splits intro: engine_ok_frame)
qed

lemma keeps_works_resolve_ts [wp]: "keeps (works_on p) (resolve_ts ts)"
  by (simp add: resolve_ts_def keeps_ret keeps_works_now split: option.splits)

lemma keeps_works_lease_check [wp]:
  "(\<And>own g. keeps (works_on p) (valid own g)) \<Longrightarrow> keeps (works_on p) (lease_check own g valid msg)"
  unfolding lease_check_def by (intro wp)

lemma keeps_works_verify [wp]: "same_origin p p0 \<Longrightarrow> keeps (works_on p0) (verify_operation p cap)"
  unfolding verify_operation_def put_bind
  by (intro wp; simp)

lemma keeps_via_operation:
  "(\<And>p. keeps (works_on p) (k p)) \<Longrightarrow> keeps engine_ok (bindE (get_operation oid) k)"
  by (rule keepsI)
    (auto simp: py_simps split: option.splits dest: works_on_lookup
      intro: works_on_engine[OF keepsD[where P = "works_on _"]])

lemma keeps_engine_execute: "keeps engine_ok (execute oid)"
  unfolding execute_def begin_execution_def validate_task_lease_identity_def
    validate_resource_lease_identity_def get_capability_def
  by (simp only: bindE_assoc bindE_thenE put_bind ret_bindE prod.case, rule keeps_via_operation)
    (intro wp; simp)

lemma keeps_engine_recover: "keeps engine_ok (recover_operation oid)"
  unfolding recover_operation_def reconcile_operation_def get_capability_def
  by (simp only: bindE_assoc bindE_thenE put_bind ret_bindE, rule keeps_via_operation)
    (intro wp; simp)

section \<open>Preparing keeps the tables\<close>

lemma run_record_prepared:
  obtains s' where "record_prepared t p s = (Inr (), s')" "wrote p s s'"
    "tasks_tbl (db s') = (if ops_durable s then tasks_tbl (upsert_task t (db s)) else tasks_tbl (db s))"
  by (cases "ops_durable s"; cases "events_durable s")
    (simp_all add: record_prepared_def py_simps save_task_and_operation_with_outbox_event_def
      insert_outbox_def enqueue_outbox_def enqueue_event_outbox_def Let_def wrote_def
      world_part_def upsert_operation_def upsert_task_def)

definition store_prepared :: "task \<Rightarrow> operation \<Rightarrow> (('w, 'z) op_st_scheme, operation) py" where
  "store_prepared t p = thenE (put_task t) (thenE bump_tasks_revision
     (thenE (put_operation p) (thenE (record_prepared t p) (ret p))))"

lemma store_prepared_run:
  obtains s' where "store_prepared t p s = (Inr p, s')"
    "tasks s' = AList.update (tk_task_id t) t (tasks s)"
    "operations s' = AList.update (op_operation_id p) p (operations s)" "ext s' = ext s"
    "rev_tasks (revisions (world s')) = rev_tasks (revisions (world s)) + 1"
    "engine_ok s \<longrightarrow> map_of (operations s) (op_operation_id p) = None \<longrightarrow>
      op_drawn s (op_operation_id p) \<longrightarrow> engine_ok s'"
proof -
  obtain s1 where s1: "thenE (put_task t) (thenE bump_tasks_revision (put_operation p)) s = (Inr (), s1)"
    "tasks s1 = AList.update (tk_task_id t) t (tasks s)" "ext s1 = ext s"
    "operations s1 = AList.update (op_operation_id p) p (operations s)"
    "tasks_durable s1 = tasks_durable s" "ops_durable s1 = ops_durable s"
    "tasks_tbl (db s1) = tasks_tbl (db s)" "operations_tbl (db s1) = operations_tbl (db s)"
    "world_saved s \<longrightarrow> world_saved s1" "hex_supply s1 = hex_supply s" "ids_drawn s1 = ids_drawn s"
    "rev_tasks (revisions (world s1)) = rev_tasks (revisions (world s)) + 1"
    by (simp add: py_simps Let_def world_saved_def mirrors_revisions)
  obtain s2 where s2: "record_prepared t p s1 = (Inr (), s2)" "wrote p s1 s2"
    "tasks_tbl (db s2) = (if ops_durable s1 then tasks_tbl (upsert_task t (db s1)) else tasks_tbl (db s1))"
    by (rule run_record_prepared)
  note w = s2(2)[unfolded wrote_def]
  have run: "store_prepared t p s = (Inr p, s2)"
    using s1(1) s2(1) by (simp add: store_prepared_def py_simps split: prod.splits sum.splits)
  have "keeps store_ok (store_prepared t p :: (('a, 'b) op_st_scheme, operation) py)"
    unfolding store_prepared_def by (intro wp)
  then have store: "store_ok s \<longrightarrow> store_ok s2" using run by (auto dest: keepsE)
  have "world_saved s \<longrightarrow> world_saved s2"
    using s1(9) w mirrors_world_part[of "db s2" "db s1"] by (simp add: world_saved_def)
  moreover have "tasks_synced s \<longrightarrow> ops_durable s = tasks_durable s \<longrightarrow> tasks_synced s2"
    using s1 s2(3) w
    by (simp add: tasks_synced_def tasks_saved_def keyed_update upsert_task_def update_map_values)
  moreover have "ops_ok s2" if "ops_ok s" "map_of (operations s) (op_operation_id p) = None"
    "op_drawn s (op_operation_id p)"
    using that s1 w operations_saved_put[of "db s" "operations s" p "db s2"] op_drawn_mono[of s _ s2]
    by (auto simp: ops_ok_def keyed_update dom_update_keys upsert_operation_def)
  ultimately have "engine_ok s \<longrightarrow> map_of (operations s) (op_operation_id p) = None \<longrightarrow>
      op_drawn s (op_operation_id p) \<longrightarrow> engine_ok s2"
    using store by (auto simp: engine_ok_def runtime_ok_def ops_ok_def)
  with that[OF run] s1 w show thesis by simp
qed

lemma keeps_engine_host [wp]: "keeps engine_ok (new_id pfx)" "keeps engine_ok now"
proof -
  show "keeps engine_ok (new_id pfx)"
  proof (rule keepsI)
    fix s :: "('w, 'z) op_st_scheme"
    assume ok: "engine_ok s"
    then have "store_ok (snd (new_id pfx s))"
      by (intro keepsD[OF keeps_store_new_id]) (simp add: engine_ok_def runtime_ok_def)
    with ok show "engine_ok (snd (new_id pfx s))" by (auto simp: py_simps intro: engine_ok_frame)
  qed
  show "keeps engine_ok now"
  proof (rule keepsI)
    fix s :: "('w, 'z) op_st_scheme"
    assume ok: "engine_ok s"
    then have "store_ok (snd (now s))"
      by (intro keepsD[OF keeps_store_now]) (simp add: engine_ok_def runtime_ok_def)
    with ok show "engine_ok (snd (now s))" by (auto simp: py_simps intro: engine_ok_frame)
  qed
qed

lemma keeps_engine_checks [wp]:
  "keeps engine_ok (check_task_lease t tlease)" "keeps engine_ok (check_resource_lease t rlease)"
  unfolding check_task_lease_def check_resource_lease_def validate_task_lease_identity_def
    validate_resource_lease_identity_def resolve_ts_def option.case
  by (intro wp)+

lemma fresh_operation:
  assumes "engine_ok s"
  shows "map_of (operations s) (''op_'' @ hex_supply s (ids_drawn s)) = None"
proof -
  have "inj (hex_supply s)" using assms by (simp add: engine_ok_def runtime_ok_def store_ok_def)
  then have "\<not> op_drawn s (''op_'' @ hex_supply s (ids_drawn s))"
    by (auto simp: op_drawn_def dest: injD)
  then have "''op_'' @ hex_supply s (ids_drawn s) \<notin> fst ` set (operations s)"
    using assms unfolding engine_ok_def ops_ok_def by blast
  then show ?thesis by (simp add: map_of_eq_None_iff)
qed

lemma keeps_engine_new_operation:
  assumes "\<And>oid. op_operation_id (p oid) = oid"
  shows "keeps engine_ok (bindE (new_id ''op'') (\<lambda>oid. bindE now (\<lambda>ts.
     case b ts of Some reason \<Rightarrow> raise (BudgetExceeded reason) | None \<Rightarrow> store_prepared t (p oid))))"
proof (rule keepsI)
  fix s :: "('w, 'z) op_st_scheme"
  assume ok: "engine_ok s"
  let ?oid = "''op_'' @ hex_supply s (ids_drawn s)"
  let ?s = "s\<lparr>ids_drawn := Suc (ids_drawn s), clock_reads := Suc (clock_reads s)\<rparr>"
  have "engine_ok (snd (thenE (new_id ''op'') now s))"
    using ok by (intro keepsD[where P = engine_ok and m = "thenE (new_id ''op'') now"] wp)
  then have ok2: "engine_ok ?s" by (simp add: py_simps)
  have "map_of (operations ?s) ?oid = None" using fresh_operation[OF ok] by simp
  moreover have "op_drawn ?s ?oid" by (auto simp: op_drawn_def)
  ultimately have "engine_ok (snd (store_prepared t (p ?oid) ?s))"
    using store_prepared_run[of t "p ?oid" ?s] ok2 assms by (metis snd_conv)
  with ok2 show "engine_ok (snd (bindE (new_id ''op'') (\<lambda>oid. bindE now (\<lambda>ts.
     case b ts of Some reason \<Rightarrow> raise (BudgetExceeded reason) | None \<Rightarrow> store_prepared t (p oid))) s))"
    by (simp add: py_simps split: option.splits)
qed

lemma new_operation_id [simp]: "op_operation_id (new_operation oid t pr sp er tle rle) = oid"
  by (simp add: new_operation_def)

lemma keeps_engine_prepare: "keeps engine_ok (prepare tid proposal er tlease rlease)"
  unfolding prepare_def get_task_def Let_def store_prepared_def[symmetric]
  by (intro wp keeps_engine_new_operation new_operation_id)

section \<open>Task methods keep the operations\<close>

lemma keeps_engine_store_task [wp]: "keeps engine_ok (store_task t et actor pl)"
proof (rule keepsI)
  fix s :: "('w, 'z) op_st_scheme"
  assume ok: "engine_ok s"
  obtain s' where s': "store_task t et actor pl s = (Inr (), s')" "task_st.more s' = task_st.more s"
    "tasks_durable s' = tasks_durable s" "operations_tbl (db s') = operations_tbl (db s)"
    "hex_supply s' = hex_supply s" "ids_drawn s \<le> ids_drawn s'" "runtime_ok s \<longrightarrow> runtime_ok s'"
    by (rule store_task_result)
  have "operations s' = operations s" "ops_durable s' = ops_durable s"
    using s'(2) by (cases s; cases s'; simp)+
  then show "engine_ok (snd (store_task t et actor pl s))"
    using ok s' op_drawn_mono[of s _ s'] by (auto simp: engine_ok_def ops_ok_def operations_saved_def)
qed

lemma keeps_engine_task_methods [wp]:
  "keeps engine_ok (create goal sc ws cs lane prio budget)"
  "keeps engine_ok (queue tid)"
  "keeps engine_ok (wait tid reason et)"
  "keeps engine_ok (update_runtime_state tid st ph et actor)"
  "keeps engine_ok (control tid desired)"
  "keeps engine_ok (settle_control tid sb ec)"
  "keeps engine_ok (evaluate_goal tid claims)"
  unfolding create_store queue_def wait_def update_runtime_state_def control_def
    settle_control_def evaluate_goal_def Let_def touch_and_record_store get_task_def
  by (intro wp)+

section \<open>No side effect without authority\<close>

text \<open>A lease check changes nothing but the number of clock readings.\<close>

definition read_clock :: "bool \<Rightarrow> ('w, 'z) op_st_scheme \<Rightarrow> ('w, 'z) op_st_scheme" where
  "read_clock b s = (if b then s\<lparr>clock_reads := Suc (clock_reads s)\<rparr> else s)"

text \<open>
  What \<open>execute\<close> checks: the leases the operation was prepared with are still held at the
  clock values the two checks read, every expected revision is current, every object is active,
  in the workspace and permitted, and the capability exists.
\<close>

definition task_lease_held :: "operation \<Rightarrow> ('w, 'z) op_st_scheme \<Rightarrow> bool" where
  "task_lease_held p s \<longleftrightarrow> (ops_durable s \<longrightarrow>
     (case op_task_lease_owner_id p of None \<Rightarrow> True
      | Some own \<Rightarrow> (case op_task_lease_generation p of None \<Rightarrow> False
         | Some g \<Rightarrow> task_identity_valid (db s) (op_task_id p) own g (clock_supply s (clock_reads s)))))"

definition resource_lease_held :: "operation \<Rightarrow> ('w, 'z) op_st_scheme \<Rightarrow> bool" where
  "resource_lease_held p s \<longleftrightarrow> (ops_durable s \<longrightarrow>
     (case op_resource_lease_owner_id p of None \<Rightarrow> True
      | Some own \<Rightarrow> (case op_resource_lease_generation p of None \<Rightarrow> False
         | Some g \<Rightarrow> resource_identity_valid (db s) (op_task_id p) own g (clock_supply s (clock_reads s)))))"

definition leases_held :: "operation \<Rightarrow> ('w, 'z) op_st_scheme \<Rightarrow> bool" where
  "leases_held p s \<longleftrightarrow> task_lease_held p s
     \<and> resource_lease_held p (read_clock (op_task_lease_owner_id p \<noteq> None) s)"

definition may_execute :: "operation \<Rightarrow> ('w, 'z) op_st_scheme \<Rightarrow> bool" where
  "may_execute p s \<longleftrightarrow> leases_held p s
     \<and> map_of (capabilities s) (op_capability p) \<noteq> None
     \<and> (\<forall>(domain, value) \<in> set (op_expected_revisions p).
          current_revision (world s) (op_workspace_id p) domain = Some value)
     \<and> (\<forall>ref \<in> set (op_object_refs p). \<exists>e. map_of (entities (world s)) ref = Some e
          \<and> en_status e = ''active'' \<and> en_workspace_id e = op_workspace_id p
          \<and> op_required_permission p |\<in>| en_permissions e)"

lemma foldR_locators:
  "foldR (\<lambda>ref acc. bindR (f ref) (\<lambda>loc. Inr (acc @ [loc]))) refs acc = Inr out \<longleftrightarrow>
   (\<exists>locs. list_all2 (\<lambda>ref loc. f ref = Inr loc) refs locs \<and> out = acc @ locs)"
  by (induction refs arbitrary: acc) (auto simp: bindR_Inr_iff list_all2_Cons1)

lemma resolve_locators_Inr:
  "resolve_locators w p = Inr locs \<longleftrightarrow>
   list_all2 (\<lambda>ref loc. \<exists>e. assert_access w ref (op_required_permission p) (op_workspace_id p) = Inr e
     \<and> loc = en_locator e) (op_object_refs p) locs"
  by (simp add: resolve_locators_def foldR_locators resolve_locator_Inr)

lemma resolve_locators_ex:
  "(\<exists>locs. resolve_locators w p = Inr locs) \<longleftrightarrow>
   (\<forall>ref \<in> set (op_object_refs p). \<exists>e. assert_access w ref (op_required_permission p) (op_workspace_id p) = Inr e)"
proof -
  have "(\<exists>locs. list_all2 (\<lambda>ref loc. \<exists>e. f ref = Inr e \<and> loc = en_locator e) refs locs) \<longleftrightarrow>
      (\<forall>ref \<in> set refs. \<exists>e. f ref = Inr e)" for f :: "string \<Rightarrow> exc + entity" and refs
    by (induction refs) (auto simp: list_all2_Cons1)
  then show ?thesis by (simp add: resolve_locators_Inr)
qed

lemma read_clock_sel [simp]:
  "ops_durable (read_clock b s) = ops_durable s" "db (read_clock b s) = db s"
  "world (read_clock b s) = world s" "capabilities (read_clock b s) = capabilities s"
  "operations (read_clock b s) = operations s" "ext (read_clock b s) = ext s"
  "clock_supply (read_clock b s) = clock_supply s" "tasks (read_clock b s) = tasks s"
  "clock_reads (read_clock b s) = clock_reads s + (if b then 1 else 0)"
  by (simp_all add: read_clock_def)

definition no_int :: exc where
  "no_int = TypeError ''int() argument must be a string or a real number''"

lemma task_check_run:
  "lease_check (op_task_lease_owner_id p) (op_task_lease_generation p)
     (\<lambda>own g. validate_task_lease_identity (op_task_id p) own g None) msg s =
   ((if task_lease_held p s then Inr ()
     else Inl (if op_task_lease_generation p = None then no_int else LeaseLost msg)),
    read_clock (ops_durable s \<and> op_task_lease_owner_id p \<noteq> None \<and> op_task_lease_generation p \<noteq> None) s)"
  by (simp add: lease_check_def validate_task_lease_identity_def py_simps read_clock_def
      task_lease_held_def no_int_def split: option.splits)

lemma resource_check_run:
  "lease_check (op_resource_lease_owner_id p) (op_resource_lease_generation p)
     (\<lambda>own g. validate_resource_lease_identity (op_task_id p) own g None) msg s =
   ((if resource_lease_held p s then Inr ()
     else Inl (if op_resource_lease_generation p = None then no_int else LeaseLost msg)),
    read_clock (ops_durable s \<and> op_resource_lease_owner_id p \<noteq> None
      \<and> op_resource_lease_generation p \<noteq> None) s)"
  by (simp add: lease_check_def validate_resource_lease_identity_def py_simps read_clock_def
      resource_lease_held_def no_int_def split: option.splits)

text \<open>The outcome of the checks, as an exception or the way to go on.\<close>

definition check_outcome ::
  "operation \<Rightarrow> ('w, 'z) op_st_scheme \<Rightarrow> exc + 'w capability \<times> string list" where
  "check_outcome p s =
     (if \<not> task_lease_held p s
      then Inl (if op_task_lease_generation p = None then no_int
        else LeaseLost ''task lease was lost before side effect execution'')
      else if \<not> leases_held p s
      then Inl (if op_resource_lease_generation p = None then no_int
        else LeaseLost ''resource lease was lost before side effect execution'')
      else case map_of (capabilities s) (op_capability p) of
        None \<Rightarrow> Inl (KeyError (op_capability p))
      | Some cap \<Rightarrow>
          bindR (assert_revisions (world s) (op_expected_revisions p) (Some (op_workspace_id p))) (\<lambda>_.
          bindR (resolve_locators (world s) p) (\<lambda>locs. Inr (cap, locs))))"

lemma check_outcome_Inr: "(\<exists>r. check_outcome p s = Inr r) \<longleftrightarrow> may_execute p s"
proof -
  have acc: "(\<exists>locs. resolve_locators (world s) p = Inr locs) \<longleftrightarrow> (\<forall>ref \<in> set (op_object_refs p).
      \<exists>e. map_of (entities (world s)) ref = Some e \<and> en_status e = ''active''
        \<and> en_workspace_id e = op_workspace_id p \<and> op_required_permission p |\<in>| en_permissions e)"
    by (simp add: resolve_locators_ex assert_access_Inr)
  have rev: "(\<exists>u. assert_revisions (world s) (op_expected_revisions p) (Some (op_workspace_id p)) = Inr u)
      \<longleftrightarrow> (\<forall>(domain, value) \<in> set (op_expected_revisions p).
          current_revision (world s) (op_workspace_id p) domain = Some value)"
    by (simp add: assert_revisions_Inr)
  show ?thesis
    unfolding may_execute_def acc[symmetric] rev[symmetric] check_outcome_def
    by (auto simp: bindR_Inr_iff leases_held_def split: option.splits)
qed

lemma begin_execution_run:
  assumes "map_of (operations s) oid = Some p"
  obtains b c where "begin_execution oid s = (case check_outcome p s of
      Inl e \<Rightarrow> (Inl e, read_clock b (read_clock c s))
    | Inr (cap, locs) \<Rightarrow> bindE (put_and_record (p\<lparr>op_state := OS_RUNNING\<rparr>) ''operation.started'' ''engine'' [])
        (\<lambda>p1. ret (p1, cap, locs)) (read_clock b (read_clock c s)))"
proof -
  let ?c = "ops_durable s \<and> op_task_lease_owner_id p \<noteq> None \<and> op_task_lease_generation p \<noteq> None"
  let ?b = "ops_durable s \<and> op_resource_lease_owner_id p \<noteq> None \<and> op_resource_lease_generation p \<noteq> None
    \<and> task_lease_held p s"
  have held: "resource_lease_held p (read_clock ?c s) =
      resource_lease_held p (read_clock (op_task_lease_owner_id p \<noteq> None) s)" if "task_lease_held p s"
    using that by (auto simp: resource_lease_held_def task_lease_held_def split: option.splits)
  have "read_clock False s' = s'" for s' :: "('a, 'b) op_st_scheme" by (simp add: read_clock_def)
  then show thesis
    using assms held that[of ?b ?c]
    by (auto simp: begin_execution_def py_simps task_check_run resource_check_run check_outcome_def
        leases_held_def bindR_def split: option.splits sum.splits)
qed

section \<open>What execution amounts to\<close>

text \<open>The operation and the outside world after verification and after execution.\<close>

definition verified :: "operation \<Rightarrow> 'w capability \<Rightarrow> 'w \<Rightarrow> operation \<times> 'w" where
  "verified p cap w =
     (case op_result p of
        None \<Rightarrow> (p\<lparr>op_state := OS_UNKNOWN\<rparr>, w)
      | Some result \<Rightarrow>
          (let p1 = p\<lparr>op_state := OS_VERIFYING\<rparr> in
           case cap_verify cap p1 result w of
             (Inl e, w') \<Rightarrow> (p1\<lparr>op_error := Some (exc_repr e)\<rparr>, w')
           | (Inr evidence, w') \<Rightarrow> (p1\<lparr>op_evidence := op_evidence p1 @ evidence,
                op_state := (if passes evidence then OS_VERIFIED else OS_FAILED)\<rparr>, w')))"

definition executed :: "operation \<Rightarrow> 'w capability \<Rightarrow> string list \<Rightarrow> 'w \<Rightarrow> operation \<times> 'w" where
  "executed p cap locs w =
     (let p1 = p\<lparr>op_state := OS_RUNNING\<rparr> in
      case cap_execute cap p1 locs w of
        (Inl e, w') \<Rightarrow> (p1\<lparr>op_state := OS_UNKNOWN, op_error := Some (exc_repr e)\<rparr>, w')
      | (Inr result, w') \<Rightarrow> verified (p1\<lparr>op_result := Some result, op_state := OS_OBSERVED\<rparr>) cap w')"

lemma put_and_record_run:
  obtains s' where "put_and_record p et actor pl s = (Inr p, s')"
    "wrote p (s\<lparr>operations := AList.update (op_operation_id p) p (operations s)\<rparr>) s'"
proof -
  let ?s = "s\<lparr>operations := AList.update (op_operation_id p) p (operations s)\<rparr>"
  obtain s' where "record_operation p et actor pl ?s = (Inr (), s')" "wrote p ?s s'"
    by (rule run_record_operation)
  with that show thesis by (simp add: put_and_record_def py_simps)
qed

lemma put_and_save_run:
  obtains s' where "put_and_save p s = (Inr p, s')"
    "wrote p (s\<lparr>operations := AList.update (op_operation_id p) p (operations s)\<rparr>) s'"
proof -
  let ?s = "s\<lparr>operations := AList.update (op_operation_id p) p (operations s)\<rparr>"
  obtain s' where "save_op p ?s = (Inr (), s')" "wrote p ?s s'" by (rule run_save_op)
  with that show thesis by (simp add: put_and_save_def py_simps)
qed

text \<open>The part of the state a later step depends on.\<close>

definition shows_op :: "operation \<Rightarrow> 'w \<Rightarrow> ('w, 'z) op_st_scheme \<Rightarrow> bool" where
  "shows_op p w s \<longleftrightarrow> map_of (operations s) (op_operation_id p) = Some p \<and> ext s = w"

lemma wrote_shows:
  "wrote p (s\<lparr>operations := AList.update (op_operation_id p) p (operations s)\<rparr>) s' \<Longrightarrow>
   shows_op p (ext s) s' \<and> world s' = world s"
  by (simp add: wrote_def shows_op_def)

lemma put_and_record_shows:
  obtains s' where "put_and_record p et actor pl s = (Inr p, s')" "shows_op p (ext s) s'" "world s' = world s"
  by (meson put_and_record_run wrote_shows)

lemma put_and_save_shows:
  obtains s' where "put_and_save p s = (Inr p, s')" "shows_op p (ext s) s'"
  by (meson put_and_save_run wrote_shows)

lemma verify_operation_run:
  "\<exists>s' p' w'. verify_operation p cap s = (Inr p', s') \<and> verified p cap (ext s) = (p', w') \<and> shows_op p' w' s'"
proof (cases "op_result p")
  case None
  obtain s' where "put_and_record (p\<lparr>op_state := OS_UNKNOWN\<rparr>) ''operation.verify_missing_result'' ''verifier'' [] s
      = (Inr (p\<lparr>op_state := OS_UNKNOWN\<rparr>), s')" "shows_op (p\<lparr>op_state := OS_UNKNOWN\<rparr>) (ext s) s'"
    by (rule put_and_record_shows)
  with None show ?thesis by (simp add: verify_operation_def verified_def)
next
  case (Some result)
  let ?p1 = "p\<lparr>op_state := OS_VERIFYING\<rparr>"
  obtain s1 where s1: "put_and_save ?p1 s = (Inr ?p1, s1)" "shows_op ?p1 (ext s) s1"
    by (rule put_and_save_shows)
  obtain r w' where r: "cap_verify cap ?p1 result (ext s) = (r, w')" by fastforce
  let ?s1 = "s1\<lparr>ext := w'\<rparr>"
  show ?thesis
  proof (cases r)
    case (Inl e)
    let ?p2 = "?p1\<lparr>op_error := Some (exc_repr e)\<rparr>"
    obtain s2 where "put_and_record ?p2 ''operation.verify_error'' ''verifier''
        [(''error'', JStr (exc_repr e))] ?s1 = (Inr ?p2, s2)" "shows_op ?p2 (ext ?s1) s2"
      by (rule put_and_record_shows)
    with Some s1 r Inl show ?thesis
      by (simp add: verify_operation_def verified_def py_simps Let_def shows_op_def)
  next
    case (Inr ev)
    let ?p2 = "?p1\<lparr>op_evidence := op_evidence ?p1 @ ev,
        op_state := (if passes ev then OS_VERIFIED else OS_FAILED)\<rparr>"
    obtain s2 where "put_and_record ?p2
        (if passes ev then ''operation.verified'' else ''operation.verification_failed'') ''verifier''
        [(''evidence'', JList (map JDict ev))] ?s1 = (Inr ?p2, s2)" "shows_op ?p2 (ext ?s1) s2"
      by (rule put_and_record_shows)
    with Some s1 r Inr show ?thesis
      by (simp add: verify_operation_def verified_def py_simps Let_def shows_op_def)
  qed
qed

lemma execute_denied:
  assumes "map_of (operations s) oid = Some p" and "check_outcome p s = Inl e"
  obtains b c where "execute oid s = (Inl e, read_clock b (read_clock c s))"
proof -
  obtain b c where "begin_execution oid s = (Inl e, read_clock b (read_clock c s))"
    using begin_execution_run[OF assms(1)] by (auto simp: assms(2))
  then show thesis using that by (simp add: execute_def py_simps)
qed

lemma execute_run:
  assumes "map_of (operations s) oid = Some p" and "check_outcome p s = Inr (cap, locs)"
  shows "\<exists>s' p' w'. execute oid s = (Inr p', s') \<and> executed p cap locs (ext s) = (p', w') \<and> shows_op p' w' s'"
proof -
  let ?p1 = "p\<lparr>op_state := OS_RUNNING\<rparr>"
  obtain b c where begin_run: "begin_execution oid s =
      bindE (put_and_record ?p1 ''operation.started'' ''engine'' []) (\<lambda>p1. ret (p1, cap, locs))
        (read_clock b (read_clock c s))"
    using assms(2) begin_execution_run[OF assms(1)] by auto
  obtain s1 where s1: "put_and_record ?p1 ''operation.started'' ''engine'' [] (read_clock b (read_clock c s))
      = (Inr ?p1, s1)" "shows_op ?p1 (ext (read_clock b (read_clock c s))) s1"
    by (rule put_and_record_shows)
  obtain r w' where r: "cap_execute cap ?p1 locs (ext s) = (r, w')" by fastforce
  let ?s1 = "s1\<lparr>ext := w'\<rparr>"
  show ?thesis
  proof (cases r)
    case (Inl e)
    let ?p2 = "?p1\<lparr>op_state := OS_UNKNOWN, op_error := Some (exc_repr e)\<rparr>"
    obtain s2 where "put_and_record ?p2 ''operation.unknown'' ''engine''
        [(''error'', JStr (exc_repr e))] ?s1 = (Inr ?p2, s2)" "shows_op ?p2 (ext ?s1) s2"
      by (rule put_and_record_shows)
    with s1 r Inl show ?thesis
      by (simp add: execute_def begin_run executed_def py_simps Let_def shows_op_def)
  next
    case (Inr result)
    let ?p2 = "?p1\<lparr>op_result := Some result, op_state := OS_OBSERVED\<rparr>"
    obtain s2 where s2: "put_and_save ?p2 ?s1 = (Inr ?p2, s2)" "shows_op ?p2 (ext ?s1) s2"
      by (rule put_and_save_shows)
    obtain s3 p' w3 where "verify_operation ?p2 cap s2 = (Inr p', s3)"
      "verified ?p2 cap (ext s2) = (p', w3)" "shows_op p' w3 s3"
      using verify_operation_run[of ?p2 cap s2] by blast
    with s1 s2 r Inr show ?thesis
      by (simp add: execute_def begin_run executed_def py_simps Let_def shows_op_def)
  qed
qed

text \<open>What the loader would find: the dictionary of the process.\<close>

lemma engine_ok_load:
  "engine_ok s \<Longrightarrow> ops_durable s \<Longrightarrow> load_operations (db s) = Inr (operations s)"
  using operation_rows.load_represents by (auto simp: engine_ok_def ops_ok_def)

lemma engine_ok_load_tasks:
  "engine_ok s \<Longrightarrow> tasks_durable s \<Longrightarrow> load_tasks (db s) = Inr (tasks s)"
  using task_rows.load_represents by (auto simp: engine_ok_def runtime_ok_def tasks_synced_def)

lemma passes_verified: "verified p cap w = (p', w') \<Longrightarrow> op_state p' = OS_VERIFIED \<Longrightarrow>
   \<exists>result evidence. op_result p = Some result
     \<and> cap_verify cap (p\<lparr>op_state := OS_VERIFYING\<rparr>) result w = (Inr evidence, w') \<and> passes evidence
     \<and> op_evidence p' = op_evidence p @ evidence"
  by (auto simp: verified_def Let_def split: option.splits prod.splits sum.splits if_splits)

section \<open>Budgets\<close>

lemma keeps_tasks_checks:
  "keeps (\<lambda>s. tasks s = m \<and> ext s = w \<and> operations s = ps \<and> world s = wo) (check_task_lease t tlease)"
  "keeps (\<lambda>s. tasks s = m \<and> ext s = w \<and> operations s = ps \<and> world s = wo) (check_resource_lease t rlease)"
  by (rule keepsI, auto simp: check_task_lease_def check_resource_lease_def py_simps
      validate_task_lease_identity_def validate_resource_lease_identity_def split: option.splits)+

text \<open>The clock readings of the lease checks that come before the budget's.\<close>

definition lease_reads :: "'a option \<Rightarrow> ('w, 'z) op_st_scheme \<Rightarrow> nat" where
  "lease_reads lease s = (if ops_durable s \<and> lease \<noteq> None then 1 else 0)"

lemma check_leases_clock:
  "check_task_lease t tlease s = (Inr u, s1) \<Longrightarrow> clock_supply s1 = clock_supply s
     \<and> clock_reads s1 = clock_reads s + lease_reads tlease s \<and> ops_durable s1 = ops_durable s"
  "check_resource_lease t rlease s = (Inr u, s1) \<Longrightarrow> clock_supply s1 = clock_supply s
     \<and> clock_reads s1 = clock_reads s + lease_reads rlease s \<and> ops_durable s1 = ops_durable s"
  by (auto simp: check_task_lease_def check_resource_lease_def py_simps lease_reads_def
      validate_task_lease_identity_def validate_resource_lease_identity_def split: option.splits if_splits)

lemma prepare_run:
  assumes "prepare tid proposal er tlease rlease s = (Inr p, s')"
  obtains t spec ts where "map_of (tasks s) tid = Some t"
    "resolve_action (registry s) proposal = Inr spec"
    "assert_revisions (world s) er (Some (tk_workspace_id t)) = Inr ()"
    "assert_accesses (world s) (ap_object_refs proposal) (as_required_permission spec)
       (tk_workspace_id t) = Inr ()"
    "block_reason (tk_budget t) ts = None"
    "p = new_operation (op_operation_id p) t proposal spec er tlease rlease"
    "tasks s' = AList.update (tk_task_id t) (charged t) (tasks s)" "ext s' = ext s"
    "operations s' = AList.update (op_operation_id p) p (operations s)"
    "rev_tasks (revisions (world s')) = rev_tasks (revisions (world s)) + 1"
    "ts = clock_supply s (clock_reads s + lease_reads tlease s + lease_reads rlease s)"
proof -
  obtain t spec where pre: "map_of (tasks s) tid = Some t"
    "resolve_action (registry s) proposal = Inr spec"
    "assert_revisions (world s) er (Some (tk_workspace_id t)) = Inr ()"
    "assert_accesses (world s) (ap_object_refs proposal) (as_required_permission spec)
       (tk_workspace_id t) = Inr ()"
    using assms by (auto simp: prepare_def py_simps split: option.splits sum.splits)
  let ?p = "\<lambda>oid. new_operation oid t proposal spec er tlease rlease"
  have "thenE (check_task_lease t tlease) (thenE (check_resource_lease t rlease)
      (bindE (new_id ''op'') (\<lambda>oid. bindE now (\<lambda>ts. case block_reason (tk_budget t) ts of
         Some reason \<Rightarrow> raise (BudgetExceeded reason) | None \<Rightarrow> store_prepared (charged t) (?p oid))))) s
     = (Inr p, s')"
    using assms pre by (simp add: prepare_def store_prepared_def py_simps Let_def cong: option.case_cong)
  then obtain s1 s2 u v where checks: "check_task_lease t tlease s = (Inr u, s1)"
    "check_resource_lease t rlease s1 = (Inr v, s2)"
    and rest: "bindE (new_id ''op'') (\<lambda>oid. bindE now (\<lambda>ts. case block_reason (tk_budget t) ts of
         Some reason \<Rightarrow> raise (BudgetExceeded reason) | None \<Rightarrow> store_prepared (charged t) (?p oid))) s2
       = (Inr p, s')"
    by (auto elim!: thenE_InrE)
  have same: "tasks s2 = tasks s \<and> ext s2 = ext s \<and> operations s2 = operations s \<and> world s2 = world s"
    using keepsE[OF keeps_tasks_checks(1) checks(1)] keepsE[OF keeps_tasks_checks(2) checks(2)] by blast
  define s3 where "s3 = s2\<lparr>ids_drawn := Suc (ids_drawn s2), clock_reads := Suc (clock_reads s2)\<rparr>"
  define oid where "oid = ''op_'' @ hex_supply s2 (ids_drawn s2)"
  have s3: "tasks s3 = tasks s2" "ext s3 = ext s2" "operations s3 = operations s2" "world s3 = world s2"
    by (simp_all add: s3_def)
  have bl: "block_reason (tk_budget t) (clock_supply s2 (clock_reads s2)) = None"
    and st: "store_prepared (charged t) (?p oid) s3 = (Inr p, s')"
    using rest by (auto simp: py_simps s3_def oid_def split: option.splits)
  obtain s4 where "store_prepared (charged t) (?p oid) s3 = (Inr (?p oid), s4)"
    "tasks s4 = AList.update (tk_task_id (charged t)) (charged t) (tasks s3)"
    "operations s4 = AList.update (op_operation_id (?p oid)) (?p oid) (operations s3)" "ext s4 = ext s3"
    "rev_tasks (revisions (world s4)) = rev_tasks (revisions (world s3)) + 1"
    by (rule store_prepared_run)
  with st s3 same have "p = ?p oid" "tasks s' = AList.update (tk_task_id t) (charged t) (tasks s)"
    "operations s' = AList.update oid p (operations s)" "ext s' = ext s"
    "rev_tasks (revisions (world s')) = rev_tasks (revisions (world s)) + 1"
    by (auto simp: charged_def)
  moreover have "clock_supply s2 (clock_reads s2) =
      clock_supply s (clock_reads s + lease_reads tlease s + lease_reads rlease s)"
    using check_leases_clock(1)[OF checks(1)] check_leases_clock(2)[OF checks(2)] by (simp add: lease_reads_def)
  ultimately show thesis using that[OF pre bl] by simp
qed

text \<open>A returned execution went through the checks.\<close>

lemma execute_returned:
  assumes "map_of (operations s) oid = Some p" and "execute oid s = (Inr p', s')"
  obtains cap locs where "map_of (capabilities s) (op_capability p) = Some cap"
    "resolve_locators (world s) p = Inr locs" "executed p cap locs (ext s) = (p', ext s')"
    "map_of (operations s') (op_operation_id p') = Some p'"
proof -
  obtain cap locs where ok: "check_outcome p s = Inr (cap, locs)"
  proof (cases "check_outcome p s")
    case (Inl e)
    obtain b c where "execute oid s = (Inl e, read_clock b (read_clock c s))"
      by (rule execute_denied[OF assms(1) Inl])
    with assms(2) show ?thesis by simp
  qed auto
  then have "map_of (capabilities s) (op_capability p) = Some cap" "resolve_locators (world s) p = Inr locs"
    by (auto simp: check_outcome_def bindR_Inr_iff split: if_splits option.splits)
  with execute_run[OF assms(1) ok] assms(2) that show thesis by (auto simp: shows_op_def)
qed

text \<open>An operation whose expectation of the \<open>tasks\<close> revision does not hold is refused.\<close>

lemma outdated_refused:
  assumes "\<And>p. map_of (operations s) oid = Some p \<Longrightarrow> (''tasks'', v) \<in> set (op_expected_revisions p)"
    and "rev_tasks (revisions (world s)) \<noteq> v"
  obtains e s' where "execute oid s = (Inl e, s')" "ext s' = ext s" "operations s' = operations s"
    "tasks s' = tasks s" "db s' = db s"
proof (cases "map_of (operations s) oid")
  case None
  then have "execute oid s = (Inl (KeyError oid), s)" by (simp add: execute_def begin_execution_def py_simps)
  with that show thesis by simp
next
  case (Some p)
  have "current_revision (world s) ws ''tasks'' \<noteq> Some v" for ws
    using assms(2) by (simp add: current_revision_def rev_attr_def)
  then have "\<not> may_execute p s" using assms(1)[OF Some] by (auto simp: may_execute_def)
  then obtain e where e: "check_outcome p s = Inl e"
    using check_outcome_Inr[of p s] by (cases "check_outcome p s") auto
  obtain b c where "execute oid s = (Inl e, read_clock b (read_clock c s))" by (rule execute_denied[OF Some e])
  with that show thesis by simp
qed

section \<open>Properties\<close>

definition sample_engine :: "task list \<Rightarrow> operation list \<Rightarrow> (string \<times> 'w capability) list \<Rightarrow> 'w \<Rightarrow> 'w op_st" where
  "sample_engine ts ps caps w = task_st.extend (sample_tasks ts)
     (op_st.fields False [((''files'', ''read''), sample_spec)] caps
       (map (\<lambda>p. (op_operation_id p, p)) ps) w)"

lemma sample_engine_sel [simp]:
  "operations (sample_engine ts ps caps w) = map (\<lambda>p. (op_operation_id p, p)) ps"
  "ext (sample_engine ts ps caps w) = w" "ops_durable (sample_engine ts ps caps w) = False"
  "capabilities (sample_engine ts ps caps w) = caps"
  "registry (sample_engine ts ps caps w) = [((''files'', ''read''), sample_spec)]"
  "world (sample_engine ts ps caps w) = empty_world"
  "tasks (sample_engine ts ps caps w) = map (\<lambda>t. (tk_task_id t, t)) ts"
  by (simp_all add: sample_engine_def sample_tasks_def task_st.defs op_st.defs events_st.defs
      fresh_events_def world_st.defs fresh_world_def)

text \<open>A capability that counts its calls.\<close>

definition counting :: "nat capability" where
  "counting = \<lparr>cap_execute = (\<lambda>p locs n. (Inr [], Suc n)),
     cap_verify = (\<lambda>p r n. (Inr [[(''status'', JStr ''pass'')]], n)),
     cap_reconcile = (\<lambda>p locs n. (Inr (True, []), n))\<rparr>"

definition free_operation :: operation where
  "free_operation = (sample_operation OS_PREPARED)\<lparr>op_object_refs := []\<rparr>"

text \<open>
  C3: no side effect without authority. When one of the things an operation depends on does
  not hold at the moment of execution (a lease it was prepared with is gone, an expected
  revision has moved, an object is inactive, in another workspace or lacks the permission, the
  capability is missing), \<open>execute\<close> raises before it calls anything: the world outside,
  the operations, the tasks and the tables are as before.
\<close>

theorem no_effect_without_authority:
  assumes "map_of (operations s) oid = Some p" and "\<not> may_execute p s"
  shows "\<exists>e s'. execute oid s = (Inl e, s') \<and> ext s' = ext s \<and> operations s' = operations s
    \<and> tasks s' = tasks s \<and> db s' = db s"
proof -
  obtain e where e: "check_outcome p s = Inl e"
    using assms(2) check_outcome_Inr[of p s] by (cases "check_outcome p s") auto
  obtain b c where "execute oid s = (Inl e, read_clock b (read_clock c s))"
    by (rule execute_denied[OF assms(1) e])
  then show ?thesis by simp
qed

theorem no_effect_without_authority_witness:
  "\<exists>e s'. execute ''op_1'' (sample_engine [] [sample_operation OS_PREPARED] [(''files'', counting)] 0) = (Inl e, s')
    \<and> ext s' = 0"
proof -
  let ?s = "sample_engine [] [sample_operation OS_PREPARED] [(''files'', counting)] 0"
  have "map_of (operations ?s) ''op_1'' = Some (sample_operation OS_PREPARED)"
    by (simp add: sample_operation_def)
  moreover have "\<not> may_execute (sample_operation OS_PREPARED) ?s"
    by (simp add: may_execute_def sample_operation_def empty_world_def)
  ultimately show ?thesis using no_effect_without_authority[of ?s] by fastforce
qed

text \<open>
  C6: with authority, \<open>execute\<close> returns normally whatever the capability does, and has
  exactly the effect of the reference \<open>executed\<close>: one call of the capability with the
  resolved locators, then one verification if it returned. An exception of the capability
  leaves the operation UNKNOWN, never FAILED; the object in the dictionary is the returned one.
\<close>

theorem execute_refines_executed:
  assumes "map_of (operations s) oid = Some p" and "may_execute p s"
  shows "\<exists>cap locs p' s'. map_of (capabilities s) (op_capability p) = Some cap
    \<and> resolve_locators (world s) p = Inr locs \<and> execute oid s = (Inr p', s')
    \<and> executed p cap locs (ext s) = (p', ext s') \<and> map_of (operations s') (op_operation_id p') = Some p'"
proof -
  obtain cap locs where ok: "check_outcome p s = Inr (cap, locs)"
    using assms(2) check_outcome_Inr[of p s] by auto
  then have "map_of (capabilities s) (op_capability p) = Some cap" "resolve_locators (world s) p = Inr locs"
    by (auto simp: check_outcome_def bindR_Inr_iff split: if_splits option.splits)
  moreover obtain s' p' w' where "execute oid s = (Inr p', s')" "executed p cap locs (ext s) = (p', w')"
    "shows_op p' w' s'" using execute_run[OF assms(1) ok] by blast
  ultimately show ?thesis by (auto simp: shows_op_def)
qed

theorem execute_refines_executed_witness:
  "\<exists>p' s'. execute ''op_1'' (sample_engine [] [free_operation] [(''files'', counting)] 0) = (Inr p', s')
    \<and> op_state p' = OS_VERIFIED \<and> ext s' = 1"
proof -
  let ?s = "sample_engine [] [free_operation] [(''files'', counting)] 0"
  have p: "map_of (operations ?s) ''op_1'' = Some free_operation"
    by (simp add: sample_operation_def free_operation_def)
  have may: "may_execute free_operation ?s"
    by (simp add: may_execute_def free_operation_def sample_operation_def leases_held_def task_lease_held_def
        resource_lease_held_def read_clock_def)
  from execute_refines_executed[OF p may] show ?thesis
    by (auto simp: executed_def verified_def counting_def passes_def dict_get_def Let_def
        free_operation_def sample_operation_def)
qed

text \<open>
  C31: VERIFIED means verified. If \<open>execute\<close> returns an operation that is VERIFIED, the
  capability registered for it was called once with the resolved locators and returned a result,
  and verifying that result gave at least one item of evidence, every one with status
  \<open>pass\<close>; the result and that evidence are on the operation, which is the one in the dictionary.
\<close>

theorem verified_only_with_evidence:
  assumes "map_of (operations s) oid = Some p" and "execute oid s = (Inr p', s')" and "op_state p' = OS_VERIFIED"
  shows "\<exists>cap locs result w1 evidence. map_of (capabilities s) (op_capability p) = Some cap
    \<and> resolve_locators (world s) p = Inr locs
    \<and> cap_execute cap (p\<lparr>op_state := OS_RUNNING\<rparr>) locs (ext s) = (Inr result, w1)
    \<and> cap_verify cap (p\<lparr>op_result := Some result, op_state := OS_VERIFYING\<rparr>) result w1 = (Inr evidence, ext s')
    \<and> evidence \<noteq> [] \<and> (\<forall>item \<in> set evidence. eq_str (dict_get item ''status'') ''pass'')
    \<and> op_result p' = Some result \<and> op_evidence p' = op_evidence p @ evidence
    \<and> map_of (operations s') (op_operation_id p') = Some p'"
proof -
  obtain cap locs where cap: "map_of (capabilities s) (op_capability p) = Some cap"
    "resolve_locators (world s) p = Inr locs" "executed p cap locs (ext s) = (p', ext s')"
    "map_of (operations s') (op_operation_id p') = Some p'"
    by (rule execute_returned[OF assms(1,2)])
  obtain r w1 where r: "cap_execute cap (p\<lparr>op_state := OS_RUNNING\<rparr>) locs (ext s) = (r, w1)" by fastforce
  with cap(3) assms(3) obtain result where res: "r = Inr result" by (cases r) (auto simp: executed_def Let_def)
  let ?p = "p\<lparr>op_result := Some result, op_state := OS_OBSERVED\<rparr>"
  have v: "verified ?p cap w1 = (p', ext s')" using cap(3) r res by (simp add: executed_def Let_def)
  have "op_result p' = Some result"
    using v by (auto simp: verified_def Let_def split: prod.splits sum.splits)
  with passes_verified[OF v assms(3)] r res cap show ?thesis
    by (auto simp: passes_def)
qed

theorem verified_only_with_evidence_witness:
  "\<exists>p' s' evidence. execute ''op_1'' (sample_engine [] [free_operation] [(''files'', counting)] 0) = (Inr p', s')
    \<and> op_evidence p' = op_evidence free_operation @ evidence \<and> evidence \<noteq> []"
proof -
  let ?s = "sample_engine [] [free_operation] [(''files'', counting)] 0"
  have p: "map_of (operations ?s) ''op_1'' = Some free_operation"
    by (simp add: sample_operation_def free_operation_def)
  have "assert_revisions empty_world [] ws = Inr ()" for ws by (simp add: assert_revisions_def)
  then have "check_outcome free_operation ?s = Inr (counting, [])"
    by (simp add: check_outcome_def free_operation_def sample_operation_def leases_held_def task_lease_held_def
        resource_lease_held_def read_clock_def resolve_locators_def)
  from execute_run[OF p this] obtain p' s' w' where run: "execute ''op_1'' ?s = (Inr p', s')"
    "executed free_operation counting [] (ext ?s) = (p', w')" by blast
  have st: "op_state p' = OS_VERIFIED"
    using run(2) by (auto simp: executed_def verified_def counting_def passes_def dict_get_def Let_def)
  from verified_only_with_evidence[OF p run(1) st] run(1) show ?thesis by blast
qed

text \<open>
  C32: budgets hold. An operation is prepared only while the task's budget lets another one
  start: the count of started operations rises by one, to at most the maximum when there is
  one, and the time \<open>prepare\<close> reads after its lease checks (each check of a lease reads the
  clock once when there is a store) is before the deadline. Preparing calls no capability.
\<close>

theorem prepare_respects_budget:
  assumes "prepare tid proposal er tlease rlease s = (Inr p, s')"
  shows "\<exists>t. map_of (tasks s) tid = Some t
    \<and> map_of (tasks s') (tk_task_id t) = Some (charged t)
    \<and> operations_started (tk_budget (charged t)) = operations_started (tk_budget t) + 1
    \<and> (0 \<le> max_operations (tk_budget t) \<longrightarrow>
         operations_started (tk_budget (charged t)) \<le> max_operations (tk_budget t))
    \<and> (\<forall>dl. deadline_at (tk_budget t) = Some dl \<longrightarrow>
         clock_supply s (clock_reads s + (if ops_durable s \<and> tlease \<noteq> None then 1 else 0)
           + (if ops_durable s \<and> rlease \<noteq> None then 1 else 0)) < dl)
    \<and> op_state p = OS_PREPARED \<and> ext s' = ext s"
proof -
  obtain t spec ts where run: "map_of (tasks s) tid = Some t" "block_reason (tk_budget t) ts = None"
    "tasks s' = AList.update (tk_task_id t) (charged t) (tasks s)" "ext s' = ext s"
    "p = new_operation (op_operation_id p) t proposal spec er tlease rlease"
    "ts = clock_supply s (clock_reads s + lease_reads tlease s + lease_reads rlease s)"
    by (rule prepare_run[OF assms])
  have "op_state p = OS_PREPARED" by (subst run(5)) (simp add: new_operation_def)
  moreover have "ts < dl" if "deadline_at (tk_budget t) = Some dl" for dl
    using block_reason_None_deadline[OF run(2)] that by simp
  ultimately show ?thesis
    using run block_reason_None_bound[OF run(2)] by (auto simp: charged_def lease_reads_def)
qed

definition plain_proposal :: action_proposal where
  "plain_proposal = sample_proposal\<lparr>ap_object_refs := [], ap_arguments := []\<rparr>"

lemma sample_prepare_runs:
  fixes s :: "('w, 'z) op_st_scheme"
  assumes "er = [] \<or> er = [(''tasks'', 0)]" and "tasks s = [(''t'', sample_task ''t'' TS_RUNNING TS_RUNNING)]"
    and "registry s = [((''files'', ''read''), sample_spec)]" and "world s = empty_world"
    and "\<not> ops_durable s" and "\<not> events_durable s"
  shows "\<exists>p s'. prepare ''t'' plain_proposal er None None s = (Inr p, s')"
proof -
  have reg: "resolve_action [((''files'', ''read''), sample_spec)] plain_proposal = Inr sample_spec"
    by (simp add: resolve_action_def validate_def plain_proposal_def sample_proposal_def sample_spec_def)
  have rev: "assert_revisions empty_world er (Some ws) = Inr ()" for ws
    using assms(1) by (auto simp: assert_revisions_Inr current_revision_def empty_world_def rev_attr_def
        initial_revisions_def)
  have "ap_object_refs plain_proposal = []" by (simp add: plain_proposal_def)
  with assms(2-) show ?thesis
    by (simp add: prepare_def py_simps reg rev assert_accesses_def check_task_lease_def
        check_resource_lease_def sample_task_def default_budget_def block_reason_def Let_def
        record_prepared_def enqueue_outbox_def)
qed

lemma sample_engine_flags [simp]: "\<not> events_durable (sample_engine ts ps caps w)"
  by (simp add: sample_engine_def sample_tasks_def task_st.defs op_st.defs events_st.defs fresh_events_def
      world_st.defs fresh_world_def)

theorem prepare_respects_budget_witness:
  "\<exists>t. map_of (tasks (snd (prepare ''t'' plain_proposal [] None None
      (sample_engine [sample_task ''t'' TS_RUNNING TS_RUNNING] [] [] (0::nat))))) ''t'' = Some t
    \<and> operations_started (tk_budget t) = 1"
proof -
  let ?s = "sample_engine [sample_task ''t'' TS_RUNNING TS_RUNNING] [] [] (0::nat)"
  obtain p s' where run: "prepare ''t'' plain_proposal [] None None ?s = (Inr p, s')"
    using sample_prepare_runs[of "[]" ?s] by (auto simp: sample_task_def)
  from prepare_respects_budget[OF run] show ?thesis
    using run by (auto simp: sample_task_def charged_def default_budget_def)
qed

end
