(* ===== verification/Scheduler.thy ===== *)
theory Scheduler
  imports Operation_Runtime
begin

text \<open>
  \<open>TaskScheduler\<close> of \<^verbatim>\<open>src/liandanlu_native/runtime.py\<close>: two heaps of queued tasks and a
  table of leases for the mode without a store, the store's queue and leases otherwise. A heap
  is the sorted list of its items: \<open>heappop\<close> removes a smallest item, and equal items are
  equal values, so nothing else of the heap's layout can be observed.

  Shown here: the in-memory leases interpret the lease contract, so a superseded holder is
  fenced for ever; and a scheduler rebuilt from the saved tasks takes the same task as the
  query of the store.
\<close>

type_synonym heap_item = "int \<times> pyfloat \<times> string"

record sched_mem =
  interactive :: "heap_item list"
  background :: "heap_item list"
  sched_leases :: "(string \<times> task_lease) list"

definition empty_sched :: sched_mem where
  "empty_sched = \<lparr>interactive = [], background = [], sched_leases = []\<rparr>"

record 'w sched_st = "'w op_st" +
  scheduler :: sched_mem

definition modify_sched :: "(sched_mem \<Rightarrow> sched_mem) \<Rightarrow> (('w, 'z) sched_st_scheme, unit) py" where
  "modify_sched f = modify (\<lambda>s. s\<lparr>scheduler := f (scheduler s)\<rparr>)"

section \<open>Heaps\<close>

definition heappush :: "heap_item \<Rightarrow> heap_item list \<Rightarrow> heap_item list" where
  "heappush item h = insort item h"

definition push_item :: "task \<Rightarrow> pyfloat \<Rightarrow> sched_mem \<Rightarrow> sched_mem" where
  "push_item t queued_at sm =
     (let item = (- tk_priority t, queued_at, tk_task_id t) in
      if tk_lane t = ''interactive'' then sm\<lparr>interactive := heappush item (interactive sm)\<rparr>
      else sm\<lparr>background := heappush item (background sm)\<rparr>)"

definition push :: "task \<Rightarrow> (('w, 'z) sched_st_scheme, unit) py" where
  "push t = bindE (resolve_ts (tk_queued_at t)) (\<lambda>queued_at. modify_sched (push_item t queued_at))"

definition rebuildable :: "task \<Rightarrow> bool" where
  "rebuildable t \<longleftrightarrow> tk_state t = TS_QUEUED \<and> tk_desired_state t = TS_RUNNING \<and> tk_queued_at t \<noteq> None"

text \<open>\<open>rebuild\<close> makes a new scheduler over the tasks.\<close>

definition rebuild :: "(('w, 'z) sched_st_scheme, unit) py" where
  "rebuild =
     thenE (modify_sched (\<lambda>_. empty_sched))
     (bindE (gets tasks) (\<lambda>m.
      forE (map snd m) (\<lambda>t. whenE (rebuildable t) (push t))))"

definition submit :: "string \<Rightarrow> (('w, 'z) sched_st_scheme, task) py" where
  "submit tid = bindE (queue tid) (\<lambda>t. thenE (push t) (ret t))"

fun pop_valid :: "(string \<times> task) list \<Rightarrow> heap_item list \<Rightarrow> string option \<times> heap_item list" where
  "pop_valid m [] = (None, [])"
| "pop_valid m ((_, _, tid) # h) =
     (case map_of m tid of
        Some t \<Rightarrow> if tk_state t = TS_QUEUED \<and> tk_desired_state t = TS_RUNNING then (Some tid, h)
          else pop_valid m h
      | None \<Rightarrow> pop_valid m h)"

definition next_task :: "(string \<times> task) list \<Rightarrow> sched_mem \<Rightarrow> string option \<times> sched_mem" where
  "next_task m sm =
     (case pop_valid m (interactive sm) of (r, h) \<Rightarrow>
      let sm = sm\<lparr>interactive := h\<rparr> in
      case r of
        Some tid \<Rightarrow> (Some tid, sm)
      | None \<Rightarrow> (case pop_valid m (background sm) of (r, h) \<Rightarrow> (r, sm\<lparr>background := h\<rparr>)))"

section \<open>Leases\<close>

definition grant :: "string \<Rightarrow> string \<Rightarrow> pyfloat \<Rightarrow> pyfloat \<Rightarrow> sched_mem \<Rightarrow> task_lease \<times> sched_mem" where
  "grant tid owner_id lease_seconds ts sm =
     (let generation = (case map_of (sched_leases sm) tid of None \<Rightarrow> 1 | Some p \<Rightarrow> tl_generation p + 1);
          lease = \<lparr>tl_task_id = tid, tl_owner_id = owner_id, tl_generation = generation,
            tl_claimed_at = ts, tl_lease_until = ts + lease_seconds\<rparr>
      in (lease, sm\<lparr>sched_leases := AList.update tid lease (sched_leases sm)\<rparr>))"

definition claim_next ::
  "string \<Rightarrow> pyfloat \<Rightarrow> pyfloat option \<Rightarrow> (('w, 'z) sched_st_scheme, task_lease option) py" where
  "claim_next owner_id lease_seconds now_ts =
     thenE (raise_if (lease_seconds \<le> 0) (ValueError ''lease_seconds must be positive''))
     (bindE (gets tasks_durable) (\<lambda>durable.
      if durable then claim_next_task owner_id lease_seconds now_ts
      else bindE (gets (\<lambda>s. next_task (tasks s) (scheduler s))) (\<lambda>(tid, sm).
        thenE (modify_sched (\<lambda>_. sm))
        (case tid of
           None \<Rightarrow> ret None
         | Some tid \<Rightarrow>
             bindE (resolve_ts now_ts) (\<lambda>ts.
             bindE (gets (\<lambda>s. grant tid owner_id lease_seconds ts (scheduler s))) (\<lambda>(lease, sm).
             thenE (modify_sched (\<lambda>_. sm)) (ret (Some lease))))))))"

definition renew_mem ::
  "task_lease \<Rightarrow> pyfloat \<Rightarrow> pyfloat \<Rightarrow> sched_mem \<Rightarrow> task_lease option \<times> sched_mem" where
  "renew_mem lease lease_seconds ts sm =
     (case map_of (sched_leases sm) (tl_task_id lease) of
        None \<Rightarrow> (None, sm)
      | Some current \<Rightarrow>
          if tl_owner_id current \<noteq> tl_owner_id lease \<or> tl_generation current \<noteq> tl_generation lease
             \<or> tl_lease_until current \<le> ts
          then (None, sm)
          else (let renewed = lease\<lparr>tl_lease_until := ts + lease_seconds\<rparr>
            in (Some renewed,
                sm\<lparr>sched_leases := AList.update (tl_task_id lease) renewed (sched_leases sm)\<rparr>)))"

definition renew ::
  "task_lease \<Rightarrow> pyfloat \<Rightarrow> pyfloat option \<Rightarrow> (('w, 'z) sched_st_scheme, task_lease option) py" where
  "renew lease lease_seconds now_ts =
     bindE (gets tasks_durable) (\<lambda>durable.
     if durable then renew_task_lease lease lease_seconds now_ts
     else bindE (resolve_ts now_ts) (\<lambda>ts.
       bindE (gets (\<lambda>s. renew_mem lease lease_seconds ts (scheduler s))) (\<lambda>(r, sm).
       thenE (modify_sched (\<lambda>_. sm)) (ret r))))"

definition release_mem :: "task_lease \<Rightarrow> sched_mem \<Rightarrow> bool \<times> sched_mem" where
  "release_mem lease sm =
     (case map_of (sched_leases sm) (tl_task_id lease) of
        None \<Rightarrow> (False, sm)
      | Some current \<Rightarrow>
          if tl_owner_id current \<noteq> tl_owner_id lease \<or> tl_generation current \<noteq> tl_generation lease
          then (False, sm)
          else (True, sm\<lparr>sched_leases := AList.update (tl_task_id lease)
                 (current\<lparr>tl_lease_until := 0\<rparr>) (sched_leases sm)\<rparr>))"

definition release :: "task_lease \<Rightarrow> (('w, 'z) sched_st_scheme, bool) py" where
  "release lease =
     bindE (gets tasks_durable) (\<lambda>durable.
     if durable then release_task_lease lease
     else bindE (gets (\<lambda>s. release_mem lease (scheduler s))) (\<lambda>(r, sm).
       thenE (modify_sched (\<lambda>_. sm)) (ret r)))"

section \<open>The in-memory leases keep the lease contract\<close>

definition sched_holder :: "sched_mem \<Rightarrow> string \<Rightarrow> holder" where
  "sched_holder sm t = map_option (\<lambda>l. (tl_owner_id l, tl_generation l, tl_lease_until l))
     (map_of (sched_leases sm) t)"

text \<open>A claim in memory as one step: pop a task, then grant it.\<close>

definition claim_mem ::
  "(string \<times> task) list \<Rightarrow> string \<Rightarrow> pyfloat \<Rightarrow> pyfloat \<Rightarrow> sched_mem \<Rightarrow> task_lease option \<times> sched_mem" where
  "claim_mem m owner_id lease_seconds ts sm =
     (case next_task m sm of
        (None, sm') \<Rightarrow> (None, sm')
      | (Some tid, sm') \<Rightarrow> (case grant tid owner_id lease_seconds ts sm' of (l, sm'') \<Rightarrow> (Some l, sm'')))"

lemma run_modify_sched [py_simps]: "modify_sched f s = (Inr (), s\<lparr>scheduler := f (scheduler s)\<rparr>)"
  by (simp add: modify_sched_def py_simps)

lemma claim_next_mem:
  "0 < secs \<Longrightarrow> \<not> tasks_durable s \<Longrightarrow> claim_next own secs (Some ts) s =
     (case claim_mem (tasks s) own secs ts (scheduler s) of (r, sm) \<Rightarrow> (Inr r, s\<lparr>scheduler := sm\<rparr>))"
  by (simp add: claim_next_def claim_mem_def py_simps split: prod.splits option.splits)

lemma next_task_leases: "next_task m sm = (r, sm') \<Longrightarrow> sched_holder sm' = sched_holder sm"
  by (auto simp: next_task_def sched_holder_def Let_def fun_eq_iff split: prod.splits option.splits)

lemma grant_holder:
  "grant tid own secs ts sm = (l, sm') \<Longrightarrow>
   task_lease_ident l = (tid, own, next_generation (sched_holder sm tid)) \<and>
   sched_holder sm' = (sched_holder sm)(tid \<mapsto> (own, next_generation (sched_holder sm tid), ts + secs))"
  by (auto simp: grant_def Let_def task_lease_ident_def next_generation_def sched_holder_def
      fun_eq_iff split: option.splits)

interpretation sched_fencing: lease_store sched_holder claim_mem renew_mem release_mem task_lease_ident
proof (standard, goal_cases)
  case (1 m own secs ts sm l sm')
  then obtain tid sm1 where "next_task m sm = (Some tid, sm1)" "grant tid own secs ts sm1 = (l, sm')"
    by (auto simp: claim_mem_def split: prod.splits option.splits)
  then show ?case using grant_holder next_task_leases by fastforce
next
  case (2 m own secs ts sm sm')
  then show ?case
    by (auto simp: claim_mem_def split: prod.splits option.splits dest!: next_task_leases)
next
  case (3 l secs ts sm l' sm' t own g)
  then show ?case
    by (auto simp: renew_mem_def task_lease_ident_def sched_holder_def holds_def Let_def fun_eq_iff
        split: option.splits if_splits)
next
  case (4 l secs ts sm sm')
  then show ?case by (auto simp: renew_mem_def Let_def split: option.splits if_splits)
next
  case (5 l sm b sm' t own g)
  then show ?case
    by (auto simp: release_mem_def task_lease_ident_def sched_holder_def fun_eq_iff
        split: option.splits if_splits)
qed

section \<open>The rebuilt heaps and the query agree\<close>

text \<open>The order of the store's query, on tasks: lane first, then the heap item.\<close>

definition item_of :: "task \<Rightarrow> heap_item" where
  "item_of t = (- tk_priority t, the (tk_queued_at t), tk_task_id t)"

definition lane_of :: "task \<Rightarrow> int" where
  "lane_of t = (if tk_lane t = ''interactive'' then 0 else 1)"

definition rebuilt :: "(string \<times> task) list \<Rightarrow> sched_mem" where
  "rebuilt m = fold (\<lambda>t. push_item t (the (tk_queued_at t))) (filter rebuildable (map snd m)) empty_sched"

lemma push_all:
  "forE ts (\<lambda>t. whenE (rebuildable t) (push t)) s = (Inr (), s\<lparr>scheduler :=
     fold (\<lambda>t. push_item t (the (tk_queued_at t))) (filter rebuildable ts) (scheduler s)\<rparr>)"
proof (induction ts arbitrary: s)
  case (Cons t ts)
  then show ?case
    by (cases "tk_queued_at t") (simp_all add: py_simps push_def rebuildable_def)
qed (simp add: py_simps)

lemma rebuild_run: "rebuild s = (Inr (), s\<lparr>scheduler := rebuilt (tasks s)\<rparr>)"
  by (simp add: rebuild_def py_simps push_all rebuilt_def)

lemma push_items:
  "interactive (fold (\<lambda>t. push_item t (the (tk_queued_at t))) ts sm) =
     fold insort (map item_of (filter (\<lambda>t. lane_of t = 0) ts)) (interactive sm)"
  "background (fold (\<lambda>t. push_item t (the (tk_queued_at t))) ts sm) =
     fold insort (map item_of (filter (\<lambda>t. lane_of t \<noteq> 0) ts)) (background sm)"
  by (induction ts arbitrary: sm) (auto simp: push_item_def item_of_def lane_of_def heappush_def Let_def)

lemma fold_insort_sort: "fold insort xs [] = sort xs"
  by (simp add: sort_conv_fold)

lemma rebuilt_heaps:
  "interactive (rebuilt m) = sort (map item_of (filter (\<lambda>t. rebuildable t \<and> lane_of t = 0) (map snd m)))"
  "background (rebuilt m) = sort (map item_of (filter (\<lambda>t. rebuildable t \<and> lane_of t \<noteq> 0) (map snd m)))"
  by (simp_all add: rebuilt_def push_items empty_sched_def fold_insort_sort conj_commute)

lemma pop_valid_first:
  assumes "\<And>p q tid. (p, q, tid) \<in> set h \<Longrightarrow>
    \<exists>t. map_of m tid = Some t \<and> tk_state t = TS_QUEUED \<and> tk_desired_state t = TS_RUNNING"
  shows "fst (pop_valid m h) = (case h of [] \<Rightarrow> None | (p, q, tid) # _ \<Rightarrow> Some tid)"
proof (cases h)
  case (Cons x h')
  obtain p q tid where "x = (p, q, tid)" by (cases x)
  with Cons assms[of p q tid] show ?thesis by auto
qed simp

lemma rebuilt_valid:
  assumes "keyed tk_task_id m" and "(p, q, tid) \<in> item_of ` {t \<in> snd ` set m. rebuildable t}"
  shows "\<exists>t. map_of m tid = Some t \<and> tk_state t = TS_QUEUED \<and> tk_desired_state t = TS_RUNNING"
  using assms by (fastforce simp: item_of_def rebuildable_def keyed_def)

lemma min_of_sort: "sort xs = y # ys \<Longrightarrow> y \<in> set xs \<and> (\<forall>x \<in> set xs. y \<le> x)"
  by (metis list.set_intros(1) set_sort sorted_simps(2) sorted_sort set_ConsD order_refl)

text \<open>The task both sides choose: the least in lane and item.\<close>

lemma next_task_rebuilt:
  assumes "keyed tk_task_id m"
  shows "fst (next_task m (rebuilt m)) =
    (case sort_key (\<lambda>t. (lane_of t, item_of t)) (filter rebuildable (map snd m)) of
       [] \<Rightarrow> None | t # _ \<Rightarrow> Some (tk_task_id t))"
proof -
  let ?I = "filter (\<lambda>t. rebuildable t \<and> lane_of t = 0) (map snd m)"
  let ?B = "filter (\<lambda>t. rebuildable t \<and> lane_of t \<noteq> 0) (map snd m)"
  let ?L = "filter rebuildable (map snd m)"
  have I: "fst (pop_valid m (sort (map item_of ?I))) =
      (case sort (map item_of ?I) of [] \<Rightarrow> None | (p, q, tid) # _ \<Rightarrow> Some tid)"
    by (rule pop_valid_first, rule rebuilt_valid[OF assms]) auto
  have B: "fst (pop_valid m (sort (map item_of ?B))) =
      (case sort (map item_of ?B) of [] \<Rightarrow> None | (p, q, tid) # _ \<Rightarrow> Some tid)"
    by (rule pop_valid_first, rule rebuilt_valid[OF assms]) auto
  have next_eq: "fst (next_task m (rebuilt m)) =
      (case sort (map item_of ?I) of (p, q, tid) # _ \<Rightarrow> Some tid
       | [] \<Rightarrow> (case sort (map item_of ?B) of [] \<Rightarrow> None | (p, q, tid) # _ \<Rightarrow> Some tid))"
    using I B by (auto simp: next_task_def rebuilt_heaps Let_def split: prod.splits list.splits option.splits)
  show ?thesis
  proof (cases "sort_key (\<lambda>t. (lane_of t, item_of t)) ?L")
    case Nil
    then have "?L = []" by (metis length_0_conv length_sort)
    then have "?I = []" "?B = []" by (auto simp: filter_empty_conv)
    with Nil next_eq show ?thesis by simp
  next
    case (Cons t ts)
    have t: "t \<in> set ?L" using Cons by (metis list.set_intros(1) set_sort)
    have least: "(lane_of t, item_of t) \<le> (lane_of t', item_of t')" if "t' \<in> set ?L" for t'
    proof -
      have "sorted (map (\<lambda>t. (lane_of t, item_of t)) (t # ts))" by (metis Cons sorted_sort_key)
      moreover have "t' \<in> set (t # ts)" using that Cons by (metis set_sort)
      ultimately show ?thesis by auto
    qed
    have pick: "y = item_of t" if "sort (map item_of J) = y # ys" "t \<in> set J" "set J \<subseteq> set ?L"
      "\<And>t'. t' \<in> set J \<Longrightarrow> lane_of t' = lane_of t" for J y ys
    proof -
      from min_of_sort[OF that(1)] that(2) have "y \<in> item_of ` set J" and le: "y \<le> item_of t" by auto
      then obtain t' where t': "t' \<in> set J" "y = item_of t'" by blast
      have "lane_of t' = lane_of t" "t' \<in> set ?L" using that(3,4) t'(1) by blast+
      then have "item_of t \<le> item_of t'" using least[of t'] by (auto simp: less_eq_prod_def)
      with t' le show ?thesis by simp
    qed
    show ?thesis
    proof (cases "lane_of t = 0")
      case True
      then have "t \<in> set ?I" using t by simp
      then obtain y ys where y: "sort (map item_of ?I) = y # ys"
        by (cases "sort (map item_of ?I)") (auto simp flip: set_empty)
      then have "y = item_of t" using \<open>t \<in> set ?I\<close> True by (intro pick[OF y]) auto
      with y Cons next_eq show ?thesis by (simp add: item_of_def)
    next
      case False
      have "?I = []"
      proof (rule ccontr)
        assume "?I \<noteq> []"
        then obtain t' where "t' \<in> set ?I" by (meson list.set_sel(1))
        then show False using least[of t'] False by (auto simp: less_eq_prod_def lane_of_def split: if_splits)
      qed
      moreover have tB: "t \<in> set ?B" using t False by simp
      then obtain y ys where y: "sort (map item_of ?B) = y # ys"
        by (cases "sort (map item_of ?B)") (auto simp flip: set_empty)
      then have "y = item_of t"
        using tB False by (intro pick[OF y]) (auto simp: lane_of_def split: if_splits)
      ultimately show ?thesis using y Cons next_eq by (simp add: item_of_def)
    qed
  qed
qed

lemma claim_order_row: "claim_order (task_to_row t) = (lane_of t, item_of t)"
  by (simp add: claim_order_def task_to_row_def lane_of_def item_of_def)

lemma task_state_value_inj [simp]: "task_state_value a = task_state_value b \<longleftrightarrow> a = b"
  by (metis task_state_roundtrip sum.inject(2))

lemma claimable_row:
  assumes "\<And>l. l \<in> snd ` set (task_leases_tbl d) \<Longrightarrow> tl_lease_until l \<le> ts"
  shows "claimable d ts (task_to_row t) \<longleftrightarrow> rebuildable t"
proof -
  have "case map_of (task_leases_tbl d) (tk_task_id t) of None \<Rightarrow> True | Some l \<Rightarrow> tl_lease_until l \<le> ts"
    using assms by (force split: option.splits dest!: map_of_SomeD)
  then show ?thesis
    by (simp add: claimable_def rebuildable_def task_to_row_def del: task_state_value.simps)
qed

lemma claim_queue_tasks:
  assumes "tasks_saved d m" and "\<And>l. l \<in> snd ` set (task_leases_tbl d) \<Longrightarrow> tl_lease_until l \<le> ts"
  shows "claim_queue d ts = map task_to_row
    (sort_key (\<lambda>t. (lane_of t, item_of t)) (filter rebuildable (map snd m)))"
proof -
  have "filter (claimable d ts) (map task_to_row xs) = map task_to_row (filter rebuildable xs)" for xs
    using claimable_row[OF assms(2)] by (induction xs) auto
  moreover have "map snd (tasks_tbl d) = map task_to_row (map snd m)"
    using assms(1) by (simp add: tasks_saved_def)
  ultimately show ?thesis
    by (simp only: claim_queue_def sort_key_map) (simp add: comp_def claim_order_row)
qed

section \<open>Properties\<close>

text \<open>
  C30: the heaps are a rebuildable index. \<open>rebuild\<close> returns, changes neither the tasks nor
  the tables, and, when the tables hold the tasks and no task lease is running at the time
  given, the rebuilt scheduler's \<open>next_task\<close> is the very task \<open>claim_next_task\<close> hands
  out then: the same order over lanes, priorities, times and identifiers, and nothing exactly
  when the query has nothing.
\<close>

theorem rebuilt_heap_agrees_with_query:
  assumes "tasks_saved (db s) (tasks s)" and "\<forall>l \<in> snd ` set (task_leases_tbl (db s)). tl_lease_until l \<le> ts"
    and "own \<noteq> []" and "0 < secs"
  shows "\<exists>s1 got s2. rebuild s = (Inr (), s1) \<and> tasks s1 = tasks s \<and> db s1 = db s
    \<and> claim_next_task own secs (Some ts) s1 = (Inr got, s2)
    \<and> fst (next_task (tasks s1) (scheduler s1)) = map_option tl_task_id got"
proof -
  let ?s = "s\<lparr>scheduler := rebuilt (tasks s)\<rparr>"
  have "keyed tk_task_id (tasks s)" using assms(1) by (simp add: tasks_saved_def)
  moreover have "claim_queue (db s) ts = map task_to_row
      (sort_key (\<lambda>t. (lane_of t, item_of t)) (filter rebuildable (map snd (tasks s))))"
    using assms by (intro claim_queue_tasks) auto
  ultimately have first: "fst (next_task (tasks s) (rebuilt (tasks s))) =
      (case claim_queue (db s) ts of [] \<Rightarrow> None | r # _ \<Rightarrow> Some (tr_task_id r))"
    by (simp add: next_task_rebuilt task_to_row_def split: list.splits)
  obtain got d where tx: "claim_task_tx () own secs ts (db s) = (got, d)" by fastforce
  then have "map_option tl_task_id got = (case claim_queue (db s) ts of [] \<Rightarrow> None | r # _ \<Rightarrow> Some (tr_task_id r))"
    by (auto simp: claim_task_tx_def Let_def split: list.splits)
  moreover have "claim_next_task own secs (Some ts) ?s = (Inr got, ?s\<lparr>db := d\<rparr>)"
    using assms(3,4) tx by (simp add: claim_next_task_def py_simps)
  ultimately show ?thesis using first by (simp add: rebuild_run)
qed

definition queued_task :: "string \<Rightarrow> string \<Rightarrow> int \<Rightarrow> task" where
  "queued_task tid lane priority = (sample_task tid TS_QUEUED TS_RUNNING)\<lparr>tk_lane := lane,
     tk_priority := priority, tk_queued_at := Some 1\<rparr>"

definition queued_sched :: "nat sched_st" where
  "queued_sched = (let ts = [queued_task ''a'' ''background'' 90, queued_task ''b'' ''interactive'' 10] in
     op_st.extend ((sample_engine ts [] [] 0)\<lparr>db := empty_db\<lparr>tasks_tbl :=
       map_values task_to_row (map (\<lambda>t. (tk_task_id t, t)) ts)\<rparr>\<rparr>) (sched_st.fields empty_sched))"

theorem rebuilt_heap_agrees_with_query_witness:
  "\<exists>s1 got s2. rebuild queued_sched = (Inr (), s1) \<and> claim_next_task ''x'' 10 (Some 5) s1 = (Inr got, s2)
    \<and> fst (next_task (tasks s1) (scheduler s1)) = map_option tl_task_id got"
proof -
  let ?m = "[(''a'', queued_task ''a'' ''background'' 90), (''b'', queued_task ''b'' ''interactive'' 10)]"
  have ids: "tk_task_id (queued_task i l n) = i" for i l n by (simp add: queued_task_def sample_task_def)
  have m: "tasks queued_sched = ?m" "db queued_sched = empty_db\<lparr>tasks_tbl := map_values task_to_row ?m\<rparr>"
    by (simp_all add: queued_sched_def sample_engine_def sample_tasks_def Let_def ids op_st.defs sched_st.defs
        task_st.defs events_st.defs world_st.defs fresh_events_def fresh_world_def)
  have "tasks_saved (db queued_sched) (tasks queued_sched)" by (simp add: m tasks_saved_def keyed_def ids)
  from rebuilt_heap_agrees_with_query[OF this, of 5 "''x''" 10] show ?thesis
    by (auto simp: m empty_db_def)
qed

text \<open>
  Fencing without a store. After a task has been claimed from the heaps, the lease that was
  there before never validates again, through any further claims, renewals and releases.
\<close>

theorem heap_claim_fences:
  assumes "claim_mem m own secs ts sm = (Some l, sm')" and "sched_holder sm (tl_task_id l) = Some (own0, g0, u0)"
    and "sched_fencing.lease_step\<^sup>*\<^sup>* sm' sm''"
  shows "\<not> holds (sched_holder sm'' (tl_task_id l)) own0 g0 ts'"
proof -
  have "task_lease_ident l = (tl_task_id l, tl_owner_id l, tl_generation l)"
    by (simp add: task_lease_ident_def)
  moreover from sched_fencing.claim_holds(1)[OF assms(1) this] have "tl_owner_id l = own" .
  ultimately show ?thesis using sched_fencing.claim_fences_previous[OF assms(1) _ assms(2,3)] by simp
qed

definition claimed_sched :: sched_mem where
  "claimed_sched = \<lparr>interactive = [], background = [(-50, 1, ''a'')],
     sched_leases = [(''a'', \<lparr>tl_task_id = ''a'', tl_owner_id = ''x'', tl_generation = 1,
       tl_claimed_at = 0, tl_lease_until = 99\<rparr>)]\<rparr>"

theorem heap_claim_fences_witness:
  "\<not> holds (sched_holder (snd (claim_mem [(''a'', queued_task ''a'' ''background'' 50)] ''y'' 10 5 claimed_sched)) ''a'') ''x'' 1 6"
proof -
  let ?m = "[(''a'', queued_task ''a'' ''background'' 50)]"
  obtain l sm' where run: "claim_mem ?m ''y'' 10 5 claimed_sched = (Some l, sm')" "tl_task_id l = ''a''"
    by (simp add: claim_mem_def next_task_def grant_def claimed_sched_def queued_task_def sample_task_def Let_def)
  moreover have "sched_holder claimed_sched ''a'' = Some (''x'', 1, 99)"
    by (simp add: sched_holder_def claimed_sched_def)
  ultimately show ?thesis
    using heap_claim_fences[OF run(1), of "''x''" 1 99 sm' 6] by simp
qed

end
