(* ===== verification/Resources.thy ===== *)
theory Resources
  imports Scheduler
begin

text \<open>
  \<open>ResourceBroker\<close> of \<^verbatim>\<open>src/liandanlu_native/resources.py\<close>: with a store behind it every
  call goes to the resource leases of the store, without one the broker keeps a dictionary.

  Shown here: the dictionary interprets the lease contract; acquiring and releasing in memory
  are the store's transactions on the same table, and renewing is too for a lease that carries
  the request it was granted for; so the admission invariant of the store carries over to the
  broker, for such leases.
\<close>

record 'w broker_st = "'w sched_st" +
  broker_durable :: bool
  capacity :: resource_capacity
  broker_leases :: "(string \<times> resource_lease) list"

definition active :: "pyfloat \<Rightarrow> resource_table \<Rightarrow> resource_lease list" where
  "active at_ts tbl = filter (\<lambda>l. rl_lease_until l > at_ts) (map snd tbl)"

definition acquire_mem ::
  "string \<times> resource_request \<times> resource_capacity \<Rightarrow> string \<Rightarrow> pyfloat \<Rightarrow> pyfloat \<Rightarrow> resource_table
   \<Rightarrow> resource_lease option \<times> resource_table" where
  "acquire_mem arg owner_id lease_seconds ts tbl =
     (let (task_id, request, cap) = arg;
          previous = map_of tbl task_id
      in if (case previous of None \<Rightarrow> False | Some p \<Rightarrow> rl_lease_until p > ts) then (None, tbl)
      else
        (let act = filter (\<lambda>l. rl_task_id l \<noteq> task_id) (active ts tbl);
             used_cpu = (\<Sum>l\<leftarrow>act. rq_cpu_units (rl_request l));
             used_memory = (\<Sum>l\<leftarrow>act. rq_memory_mb (rl_request l));
             used_gpu = (\<Sum>l\<leftarrow>act. rq_gpu_units (rl_request l));
             active_labels = concat (map (\<lambda>l. rq_exclusive_labels (rl_request l)) act)
         in if used_cpu + rq_cpu_units request > rc_cpu_units cap
               \<or> used_memory + rq_memory_mb request > rc_memory_mb cap
               \<or> used_gpu + rq_gpu_units request > rc_gpu_units cap
               \<or> set active_labels \<inter> set (rq_exclusive_labels request) \<noteq> {}
            then (None, tbl)
            else
              (let generation = (case previous of None \<Rightarrow> 1 | Some p \<Rightarrow> rl_generation p + 1);
                   lease = \<lparr>rl_task_id = task_id, rl_owner_id = owner_id,
                     rl_generation = generation, rl_request = request, rl_claimed_at = ts,
                     rl_lease_until = ts + lease_seconds\<rparr>
               in (Some lease, AList.update task_id lease tbl))))"

text \<open>A computation on the broker's dictionary.\<close>

definition on_table :: "(resource_table \<Rightarrow> 'a \<times> resource_table) \<Rightarrow> (('w, 'z) broker_st_scheme, 'a) py" where
  "on_table f = (\<lambda>s. case f (broker_leases s) of (r, tbl) \<Rightarrow> (Inr r, s\<lparr>broker_leases := tbl\<rparr>))"

definition acquire ::
  "string \<Rightarrow> string \<Rightarrow> resource_request \<Rightarrow> pyfloat \<Rightarrow> pyfloat option
   \<Rightarrow> (('w, 'z) broker_st_scheme, resource_lease option) py" where
  "acquire task_id owner_id request lease_seconds now_ts =
     thenE (raise_if (task_id = [] \<or> owner_id = []) (ValueError ''task_id and owner_id are required''))
     (thenE (raise_if (lease_seconds \<le> 0) (ValueError ''lease_seconds must be positive''))
     (bindE (gets capacity) (\<lambda>cap.
      if exceeds_capacity request cap then ret None
      else bindE (gets broker_durable) (\<lambda>durable.
        if durable then acquire_resource_lease task_id owner_id request cap lease_seconds now_ts
        else bindE (resolve_ts now_ts) (\<lambda>ts.
          on_table (acquire_mem (task_id, request, cap) owner_id lease_seconds ts))))))"

definition renew_resource_mem ::
  "resource_lease \<Rightarrow> pyfloat \<Rightarrow> pyfloat \<Rightarrow> resource_table \<Rightarrow> resource_lease option \<times> resource_table" where
  "renew_resource_mem lease lease_seconds ts tbl =
     (case map_of tbl (rl_task_id lease) of
        None \<Rightarrow> (None, tbl)
      | Some current \<Rightarrow>
          if rl_owner_id current \<noteq> rl_owner_id lease \<or> rl_generation current \<noteq> rl_generation lease
             \<or> rl_lease_until current \<le> ts
          then (None, tbl)
          else (let renewed = lease\<lparr>rl_lease_until := ts + lease_seconds\<rparr>
            in (Some renewed, AList.update (rl_task_id lease) renewed tbl)))"

definition renew_resource ::
  "resource_lease \<Rightarrow> pyfloat \<Rightarrow> pyfloat option \<Rightarrow> (('w, 'z) broker_st_scheme, resource_lease option) py" where
  "renew_resource lease lease_seconds now_ts =
     bindE (gets broker_durable) (\<lambda>durable.
     if durable then renew_resource_lease lease lease_seconds now_ts
     else bindE (resolve_ts now_ts) (\<lambda>ts. on_table (renew_resource_mem lease lease_seconds ts)))"

definition release_resource_mem :: "resource_lease \<Rightarrow> resource_table \<Rightarrow> bool \<times> resource_table" where
  "release_resource_mem lease tbl =
     (case map_of tbl (rl_task_id lease) of
        None \<Rightarrow> (False, tbl)
      | Some current \<Rightarrow>
          if rl_owner_id current \<noteq> rl_owner_id lease \<or> rl_generation current \<noteq> rl_generation lease
          then (False, tbl)
          else (True, AList.update (rl_task_id lease) (current\<lparr>rl_lease_until := 0\<rparr>) tbl))"

definition release_resource :: "resource_lease \<Rightarrow> (('w, 'z) broker_st_scheme, bool) py" where
  "release_resource lease =
     bindE (gets broker_durable) (\<lambda>durable.
     if durable then release_resource_lease lease
     else on_table (release_resource_mem lease))"

definition table_holder :: "resource_table \<Rightarrow> string \<Rightarrow> holder" where
  "table_holder tbl t = map_option (\<lambda>l. (rl_owner_id l, rl_generation l, rl_lease_until l)) (map_of tbl t)"

definition validate_resource ::
  "resource_lease \<Rightarrow> pyfloat option \<Rightarrow> (('w, 'z) broker_st_scheme, bool) py" where
  "validate_resource lease now_ts =
     bindE (gets broker_durable) (\<lambda>durable.
     if durable then validate_resource_lease lease now_ts
     else bindE (resolve_ts now_ts) (\<lambda>ts.
       gets (\<lambda>s. case map_of (broker_leases s) (rl_task_id lease) of
           None \<Rightarrow> False
         | Some current \<Rightarrow> rl_owner_id current = rl_owner_id lease
             \<and> rl_generation current = rl_generation lease \<and> rl_lease_until current > ts)))"

section \<open>The dictionary keeps the lease contract\<close>

interpretation broker_fencing: exclusive_lease_store
  table_holder acquire_mem renew_resource_mem release_resource_mem resource_lease_ident
proof (standard, goal_cases)
  case (1 a own secs ts tbl l tbl')
  then show ?case
    by (auto simp: acquire_mem_def Let_def resource_lease_ident_def table_holder_def
        next_generation_def fun_eq_iff split: prod.splits if_splits option.splits)
next
  case (2 a own secs ts tbl tbl')
  then show ?case by (auto simp: acquire_mem_def Let_def split: prod.splits if_splits)
next
  case (3 l secs ts tbl l' tbl' t own g)
  then show ?case
    by (auto simp: renew_resource_mem_def resource_lease_ident_def table_holder_def holds_def Let_def
        fun_eq_iff split: option.splits if_splits)
next
  case (4 l secs ts tbl tbl')
  then show ?case by (auto simp: renew_resource_mem_def Let_def split: option.splits if_splits)
next
  case (5 l tbl b tbl' t own g)
  then show ?case
    by (auto simp: release_resource_mem_def resource_lease_ident_def table_holder_def fun_eq_iff
        split: option.splits if_splits)
next
  case (6 a own secs ts tbl l tbl' t own' g own0 g0 u)
  then show ?case
    by (auto simp: acquire_mem_def Let_def resource_lease_ident_def table_holder_def
        split: prod.splits if_splits)
qed

section \<open>The dictionary and the table of the store\<close>

lemma active_others:
  assumes "keyed rl_task_id tbl"
  shows "filter (\<lambda>l. rl_task_id l \<noteq> t) (active ts tbl) =
    map snd (filter (\<lambda>(k, l). rl_lease_until l > ts \<and> k \<noteq> t) tbl)"
proof -
  have "\<forall>(k, l) \<in> set tbl. rl_task_id l = k" using assms by (simp add: keyed_def)
  then show ?thesis
    by (induction tbl) (auto simp: active_def)
qed

lemma acquire_mem_store:
  assumes "keyed rl_task_id (resource_leases_tbl d)"
  shows "acquire_mem a own secs ts (resource_leases_tbl d) =
    (case acquire_resource_tx a own secs ts d of (r, d') \<Rightarrow> (r, resource_leases_tbl d'))"
proof -
  obtain t req cap where a: "a = (t, req, cap)" by (cases a)
  have push: "(case (if b then x else y) of (r, d') \<Rightarrow> (r, resource_leases_tbl d')) =
      (if b then (case x of (r, d') \<Rightarrow> (r, resource_leases_tbl d'))
       else (case y of (r, d') \<Rightarrow> (r, resource_leases_tbl d')))"
    for b and x y :: "resource_lease option \<times> db" by simp
  have sel: "resource_leases_tbl (d\<lparr>resource_leases_tbl := x\<rparr>) = x" for x by simp
  show ?thesis
    unfolding a acquire_mem_def acquire_resource_tx_def active_others[OF assms] Let_def prod.case push sel
    by (rule refl)
qed

lemma release_mem_store:
  "release_resource_mem l (resource_leases_tbl d) =
    (case release_resource_tx l d of (b, d') \<Rightarrow> (b, resource_leases_tbl d'))"
  by (auto simp: release_resource_mem_def release_resource_tx_def split: option.splits)

text \<open>A lease as it was granted: it carries the request and the claim time of its row.\<close>

definition carried :: "resource_table \<Rightarrow> resource_lease \<Rightarrow> bool" where
  "carried tbl l \<longleftrightarrow> (\<forall>row. map_of tbl (rl_task_id l) = Some row \<longrightarrow>
     rl_task_id row = rl_task_id l \<and> (rl_owner_id row = rl_owner_id l \<longrightarrow> rl_generation row = rl_generation l \<longrightarrow>
       rl_request row = rl_request l \<and> rl_claimed_at row = rl_claimed_at l))"

lemma renew_mem_store:
  assumes "carried (resource_leases_tbl d) l"
  shows "renew_resource_mem l secs ts (resource_leases_tbl d) =
    (case renew_resource_tx l secs ts d of (r, d') \<Rightarrow> (r, resource_leases_tbl d'))"
proof (cases "map_of (resource_leases_tbl d) (rl_task_id l)")
  case (Some row)
  have "l\<lparr>rl_lease_until := u\<rparr> = row\<lparr>rl_lease_until := u\<rparr>"
    if "rl_owner_id row = rl_owner_id l" "rl_generation row = rl_generation l" for u
  proof -
    have "rl_task_id row = rl_task_id l" "rl_request row = rl_request l" "rl_claimed_at row = rl_claimed_at l"
      using assms Some that by (simp_all add: carried_def)
    with that show ?thesis by (intro resource_lease.equality) simp_all
  qed
  with Some show ?thesis
    by (simp add: renew_resource_mem_def renew_resource_tx_def Let_def not_less)
qed (simp add: renew_resource_mem_def renew_resource_tx_def)

text \<open>Whatever the lease carries, the answer is the store's; the rows are these.\<close>

lemma renew_mem_answer:
  "fst (renew_resource_mem l secs ts (resource_leases_tbl d)) = fst (renew_resource_tx l secs ts d)"
  by (simp add: renew_resource_mem_def renew_resource_tx_def Let_def not_less split: option.split)

lemma renew_mem_row:
  "fst (renew_resource_tx l secs ts d) = Some r \<Longrightarrow> map_of (resource_leases_tbl d) (rl_task_id l) = Some row \<Longrightarrow>
     snd (renew_resource_mem l secs ts (resource_leases_tbl d)) =
       AList.update (rl_task_id l) (l\<lparr>rl_lease_until := rl_lease_until r\<rparr>) (resource_leases_tbl d)
     \<and> resource_leases_tbl (snd (renew_resource_tx l secs ts d)) =
       AList.update (rl_task_id l) (row\<lparr>rl_lease_until := rl_lease_until r\<rparr>) (resource_leases_tbl d)"
  by (auto simp: renew_resource_mem_def renew_resource_tx_def Let_def split: if_splits)

text \<open>The states of the dictionary that a run reaches, renewals being of carried leases.\<close>

inductive broker_reach :: "resource_capacity \<Rightarrow> pyfloat \<Rightarrow> resource_table \<Rightarrow> bool" for cap where
  start: "0 \<le> ts \<Longrightarrow> broker_reach cap ts []"
| pass: "broker_reach cap ts tbl \<Longrightarrow> ts \<le> ts' \<Longrightarrow> broker_reach cap ts' tbl"
| acquire: "broker_reach cap ts tbl \<Longrightarrow> request_ok req \<Longrightarrow>
    acquire_mem (t, req, cap) own secs ts tbl = (r, tbl') \<Longrightarrow> broker_reach cap ts tbl'"
| renew: "broker_reach cap ts tbl \<Longrightarrow> carried tbl l \<Longrightarrow>
    renew_resource_mem l secs ts tbl = (r, tbl') \<Longrightarrow> broker_reach cap ts tbl'"
| release: "broker_reach cap ts tbl \<Longrightarrow> release_resource_mem l tbl = (b, tbl') \<Longrightarrow>
    broker_reach cap ts tbl'"

lemma table_keyed:
  assumes "keyed rl_task_id tbl"
  shows "acquire_mem a own secs ts tbl = (r, tbl') \<Longrightarrow> keyed rl_task_id tbl'"
    "renew_resource_mem l secs ts tbl = (r, tbl') \<Longrightarrow> keyed rl_task_id tbl'"
    "release_resource_mem l tbl = (b, tbl') \<Longrightarrow> keyed rl_task_id tbl'"
  using assms
  by (auto simp: acquire_mem_def renew_resource_mem_def release_resource_mem_def Let_def keyed_iff
      split: prod.splits if_splits option.splits)

text \<open>The run of the dictionary is a run of a store with the same table.\<close>

lemma broker_reach_store:
  assumes "broker_reach cap ts tbl"
  shows "keyed rl_task_id tbl \<and> resource_reach cap ts (empty_db\<lparr>resource_leases_tbl := tbl\<rparr>)"
  using assms
proof (induction rule: broker_reach.induct)
  case (start ts)
  then show ?case by (auto intro: resource_reach.start)
next
  case (pass ts tbl ts')
  then show ?case by (auto intro: resource_reach.pass)
next
  case (acquire ts tbl req t own secs r tbl')
  let ?d = "empty_db\<lparr>resource_leases_tbl := tbl\<rparr>"
  obtain d' where d': "acquire_resource_tx (t, req, cap) own secs ts ?d = (r, d')" "resource_leases_tbl d' = tbl'"
    using acquire acquire_mem_store[of ?d] by (auto split: prod.splits)
  then have "resource_reach cap ts d'" using acquire by (auto intro: resource_reach.acquire)
  with d'(2) acquire table_keyed(1) show ?case by (auto intro: resource_reach.other)
next
  case (renew ts tbl l secs r tbl')
  let ?d = "empty_db\<lparr>resource_leases_tbl := tbl\<rparr>"
  obtain d' where d': "renew_resource_tx l secs ts ?d = (r, d')" "resource_leases_tbl d' = tbl'"
    using renew renew_mem_store[of ?d] by (auto split: prod.splits)
  then have "resource_reach cap ts d'" using renew by (auto intro: resource_reach.renew)
  with d'(2) renew table_keyed(2) show ?case by (auto intro: resource_reach.other)
next
  case (release ts tbl l b tbl')
  let ?d = "empty_db\<lparr>resource_leases_tbl := tbl\<rparr>"
  obtain d' where d': "release_resource_tx l ?d = (b, d')" "resource_leases_tbl d' = tbl'"
    using release release_mem_store[of l ?d] by (auto split: prod.splits)
  then have "resource_reach cap ts d'" using release by (auto intro: resource_reach.release)
  with d'(2) release table_keyed(3) show ?case by (auto intro: resource_reach.other)
qed

section \<open>Properties\<close>

text \<open>
  C34: the broker without a store is the store's admission, up to what a renewal stores. On a
  dictionary whose keys are the task identifiers, acquiring and releasing in memory give the
  same answer and the same table as the store's transactions. Renewing always gives the same
  answer, and the same table when the lease still carries the request and the claim time of its
  row; for any other lease of that owner and generation the dictionary takes over what the
  lease says, its request included, where the store moves the end of the row only. (Of the two
  \<^verbatim>\<open>renew\<close> methods only that of the store refuses a duration that is not positive, before its
  transaction.)
\<close>

theorem broker_refines_store:
  assumes "keyed rl_task_id (resource_leases_tbl d)"
  shows "acquire_mem a own secs ts (resource_leases_tbl d) =
      (case acquire_resource_tx a own secs ts d of (r, d') \<Rightarrow> (r, resource_leases_tbl d'))
    \<and> release_resource_mem l (resource_leases_tbl d) =
      (case release_resource_tx l d of (b, d') \<Rightarrow> (b, resource_leases_tbl d'))
    \<and> fst (renew_resource_mem l secs ts (resource_leases_tbl d)) = fst (renew_resource_tx l secs ts d)
    \<and> (carried (resource_leases_tbl d) l \<longrightarrow>
        renew_resource_mem l secs ts (resource_leases_tbl d) =
        (case renew_resource_tx l secs ts d of (r, d') \<Rightarrow> (r, resource_leases_tbl d')))
    \<and> (\<forall>r row. fst (renew_resource_tx l secs ts d) = Some r \<longrightarrow>
        map_of (resource_leases_tbl d) (rl_task_id l) = Some row \<longrightarrow>
        snd (renew_resource_mem l secs ts (resource_leases_tbl d)) =
          AList.update (rl_task_id l) (l\<lparr>rl_lease_until := rl_lease_until r\<rparr>) (resource_leases_tbl d)
        \<and> resource_leases_tbl (snd (renew_resource_tx l secs ts d)) =
          AList.update (rl_task_id l) (row\<lparr>rl_lease_until := rl_lease_until r\<rparr>) (resource_leases_tbl d))"
  using acquire_mem_store[OF assms] release_mem_store renew_mem_store renew_mem_answer renew_mem_row by blast

definition one_gpu :: resource_request where
  "one_gpu = \<lparr>rq_cpu_units = 0, rq_memory_mb = 0, rq_gpu_units = 1, rq_exclusive_labels = []\<rparr>"

definition gpu_box :: resource_capacity where
  "gpu_box = \<lparr>rc_cpu_units = 4, rc_memory_mb = 100, rc_gpu_units = 1\<rparr>"

definition gpu_lease :: "string \<Rightarrow> resource_request \<Rightarrow> resource_lease" where
  "gpu_lease t req = \<lparr>rl_task_id = t, rl_owner_id = ''a'', rl_generation = 1, rl_request = req,
     rl_claimed_at = 1, rl_lease_until = 11\<rparr>"

theorem broker_refines_store_witness:
  "acquire_mem (''t2'', one_gpu, gpu_box) ''a'' 10 5 [(''t1'', gpu_lease ''t1'' one_gpu)] =
     (None, [(''t1'', gpu_lease ''t1'' one_gpu)])"
proof -
  let ?d = "empty_db\<lparr>resource_leases_tbl := [(''t1'', gpu_lease ''t1'' one_gpu)]\<rparr>"
  have "keyed rl_task_id (resource_leases_tbl ?d)" by (simp add: keyed_def gpu_lease_def)
  from broker_refines_store[OF this, of "(''t2'', one_gpu, gpu_box)" "''a''" 10 5] show ?thesis
    by (simp add: acquire_resource_tx_def gpu_lease_def one_gpu_def gpu_box_def)
qed

text \<open>
  Admission without a store. In every state the broker's dictionary reaches with leases
  renewed as they were granted, the running leases fit the capacity and running leases of
  different tasks share no exclusive label.
\<close>

theorem broker_capacity_never_exceeded:
  assumes "broker_reach cap ts tbl" and "capacity_ok cap"
  shows "used rq_cpu_units ts tbl \<le> rc_cpu_units cap \<and> used rq_memory_mb ts tbl \<le> rc_memory_mb cap
    \<and> used rq_gpu_units ts tbl \<le> rc_gpu_units cap \<and> labels_exclusive ts tbl"
  using broker_reach_store[OF assms(1)] reach_admitted[OF _ assms(2)]
  by (fastforce simp: admitted_def fits_def)

theorem broker_capacity_never_exceeded_witness:
  "used rq_gpu_units 1 [(''t1'', gpu_lease ''t1'' one_gpu)] \<le> 1"
proof -
  have "acquire_mem (''t1'', one_gpu, gpu_box) ''a'' 10 1 [] =
      (Some (gpu_lease ''t1'' one_gpu), [(''t1'', gpu_lease ''t1'' one_gpu)])"
    by (simp add: acquire_mem_def active_def one_gpu_def gpu_box_def gpu_lease_def Let_def)
  then have "broker_reach gpu_box 1 [(''t1'', gpu_lease ''t1'' one_gpu)]"
    by (rule broker_reach.acquire[OF broker_reach.start, rotated 2]) (simp_all add: request_ok_def one_gpu_def)
  moreover have "capacity_ok gpu_box" by (simp add: capacity_ok_def gpu_box_def)
  ultimately show ?thesis
    using broker_capacity_never_exceeded[of gpu_box 1 "[(''t1'', gpu_lease ''t1'' one_gpu)]"]
    by (simp add: gpu_box_def)
qed

text \<open>
  The restriction to carried leases is needed: the broker without a store writes the request of
  the lease it is shown into its table, so a renewal can raise what a task holds beyond the
  capacity. The store keeps the request of its row.
\<close>

lemma renewal_can_exceed_capacity:
  "used rq_gpu_units 2 (snd (renew_resource_mem (gpu_lease ''t1'' (one_gpu\<lparr>rq_gpu_units := 9\<rparr>)) 10 2
     [(''t1'', gpu_lease ''t1'' one_gpu)])) = 9"
  by (simp add: renew_resource_mem_def gpu_lease_def one_gpu_def used_def Let_def)

end
