(* ===== verification/Context.thy ===== *)
theory Context
  imports World "HOL-Library.Multiset"
begin

text \<open>
  What is handed to the model for one step, \<^verbatim>\<open>src/liandanlu_native/context.py\<close>, and the
  bookkeeping of the event-driven predictor, \<^verbatim>\<open>src/liandanlu_native/brain.py\<close>.

  Shown here: the stack of referents holds each object once, the latest first, and at most 32;
  a referent is resolved only when it is the best one, good enough and clear of the second; a
  manifest carries the current revisions of the task's own workspace; the predictor's counters
  never go back and it is LIVE exactly when it has processed what it received.
\<close>

section \<open>Referents\<close>

record referent =
  rf_object_ref :: string
  rf_source :: string
  rf_score :: pyfloat

type_synonym referent_stack = "referent list"

definition push_referent :: "string \<Rightarrow> string \<Rightarrow> pyfloat \<Rightarrow> referent_stack \<Rightarrow> referent_stack" where
  "push_referent ref source score items =
     take 32 (\<lparr>rf_object_ref = ref, rf_source = source, rf_score = score\<rparr>
       # filter (\<lambda>x. rf_object_ref x \<noteq> ref) items)"

text \<open>\<^verbatim>\<open>sorted(items, key=score, reverse=True)\<close> is stable: equal scores keep their order.\<close>

definition ranked :: "referent_stack \<Rightarrow> referent list" where
  "ranked items = sort_key (\<lambda>x. - rf_score x) items"

definition resolve_referent :: "pyfloat \<Rightarrow> pyfloat \<Rightarrow> referent_stack \<Rightarrow> string option" where
  "resolve_referent minimum ambiguity_gap items =
     (case ranked items of
        [] \<Rightarrow> None
      | first # others \<Rightarrow>
          if rf_score first < minimum then None
          else (case others of
             [] \<Rightarrow> Some (rf_object_ref first)
           | second # _ \<Rightarrow> if rf_score first - rf_score second < ambiguity_gap then None
               else Some (rf_object_ref first)))"

definition stack_ok :: "referent_stack \<Rightarrow> bool" where
  "stack_ok items \<longleftrightarrow> length items \<le> 32 \<and> distinct (map rf_object_ref items)"

lemma push_referent_ok:
  assumes "stack_ok items"
  shows "stack_ok (push_referent ref src sc items)"
proof -
  have "distinct (map rf_object_ref (filter (\<lambda>x. rf_object_ref x \<noteq> ref) items))"
    using assms by (auto simp: stack_ok_def distinct_map intro: inj_on_subset)
  then have "distinct (take 32 (map rf_object_ref (\<lparr>rf_object_ref = ref, rf_source = src, rf_score = sc\<rparr>
      # filter (\<lambda>x. rf_object_ref x \<noteq> ref) items)))"
    by (intro distinct_take) auto
  then show ?thesis by (simp add: stack_ok_def push_referent_def take_map del: take_Suc_Cons)
qed

lemma resolve_referent_Some:
  assumes "resolve_referent minimum gap items = Some ref" and "0 < gap"
  obtains x where "x \<in> set items" "rf_object_ref x = ref" "minimum \<le> rf_score x"
    "\<And>y. y \<in> set (remove1 x items) \<Longrightarrow> rf_score y + gap \<le> rf_score x"
proof -
  obtain first others where r: "ranked items = first # others"
    using assms(1) by (cases "ranked items") (simp_all add: resolve_referent_def)
  have first: "rf_object_ref first = ref" "minimum \<le> rf_score first"
    using assms(1) r by (auto simp: resolve_referent_def split: if_splits list.splits)
  have perm: "mset items = mset (first # others)" using r by (metis mset_sort ranked_def)
  then have "mset (remove1 first items) = mset others" by simp
  then have rest: "set (remove1 first items) = set others" by (metis set_mset_mset)
  have "sorted (map (\<lambda>x. - rf_score x) (first # others))" using r by (metis ranked_def sorted_sort_key)
  then have "rf_score y + gap \<le> rf_score first" if "y \<in> set others" for y
    using that assms(1) r
    by (cases others) (force simp: resolve_referent_def split: if_splits)+
  moreover have "first \<in> set items" using perm by (metis list.set_intros(1) set_mset_mset)
  ultimately show thesis using that first rest by blast
qed

section \<open>Manifest\<close>

record context_manifest =
  cm_manifest_id :: string
  cm_task_id :: string
  cm_workspace_id :: string
  cm_world_revisions :: "(string \<times> int) list"
  cm_focus_object_refs :: "string list"
  cm_referent_refs :: "string list"
  cm_fact_memory_refs :: "string list"
  cm_episode_memory_refs :: "string list"
  cm_strategy_memory_refs :: "string list"
  cm_recent_event_from :: "int option"
  cm_recent_event_to :: "int option"
  cm_brain_snapshot_ref :: "string option"
  cm_constraints :: "string list"
  cm_success_criteria :: "string list"
  cm_excluded :: "(string \<times> string) list"

text \<open>The keyword arguments of \<open>build_manifest\<close>.\<close>

record manifest_args =
  ma_focus :: "string list"
  ma_fact_refs :: "string list"
  ma_episode_refs :: "string list"
  ma_strategy_refs :: "string list"
  ma_event_range :: "int option \<times> int option"
  ma_brain_snapshot_ref :: "string option"
  ma_excluded :: "(string \<times> string) list"

definition build_manifest ::
  "task \<Rightarrow> referent_stack \<Rightarrow> manifest_args \<Rightarrow> ('z world_st_scheme, context_manifest) py" where
  "build_manifest t referents a =
     bindE (gets world) (\<lambda>w.
     bindE (new_id ''ctx'') (\<lambda>mid.
     ret \<lparr>cm_manifest_id = mid, cm_task_id = tk_task_id t, cm_workspace_id = tk_workspace_id t,
       cm_world_revisions =
         [(''global_revision'', global_revision (revisions w)),
          (''desktop'', desktop (revisions w)),
          (''workspace'', workspace_revision w (tk_workspace_id t)),
          (''browser'', browser (revisions w)),
          (''media'', media (revisions w)),
          (''tasks'', rev_tasks (revisions w))],
       cm_focus_object_refs = ma_focus a,
       cm_referent_refs = map rf_object_ref (take 8 referents),
       cm_fact_memory_refs = ma_fact_refs a, cm_episode_memory_refs = ma_episode_refs a,
       cm_strategy_memory_refs = ma_strategy_refs a,
       cm_recent_event_from = fst (ma_event_range a), cm_recent_event_to = snd (ma_event_range a),
       cm_brain_snapshot_ref = ma_brain_snapshot_ref a, cm_constraints = tk_constraints t,
       cm_success_criteria = tk_success_criteria t, cm_excluded = ma_excluded a\<rparr>))"

definition revision_list :: "world_model \<Rightarrow> string \<Rightarrow> (string \<times> int) list" where
  "revision_list w ws =
     [(''global_revision'', global_revision (revisions w)), (''desktop'', desktop (revisions w)),
      (''workspace'', workspace_revision w ws), (''browser'', browser (revisions w)),
      (''media'', media (revisions w)), (''tasks'', rev_tasks (revisions w))]"

lemma revision_list_current: "map_of (revision_list w ws) domain = current_revision w ws domain"
  by (simp add: revision_list_def current_revision_def rev_attr_def)

lemma build_manifest_run:
  assumes "build_manifest t rs a s = (Inr m, s')"
  shows "cm_world_revisions m = revision_list (world s) (tk_workspace_id t)"
    "cm_workspace_id m = tk_workspace_id t" "s' = s\<lparr>ids_drawn := Suc (ids_drawn s)\<rparr>"
  using assms unfolding build_manifest_def bindE_def gets_def new_id_def ret_def revision_list_def
  by (simp_all, safe, simp_all)

section \<open>The predictor\<close>

record brain_snapshot =
  bs_snapshot_id :: string
  bs_brain_version :: string
  bs_encoder_version :: string
  bs_processed_event_seq :: int
  bs_next_event_predictions :: "(string \<times> pyfloat) list"
  bs_novelty :: pyfloat
  bs_valid_until_seq :: "int option"

definition usable :: "brain_snapshot \<Rightarrow> int \<Rightarrow> int \<Rightarrow> bool" where
  "usable b engine_event_seq max_lag =
     (let lag = engine_event_seq - bs_processed_event_seq b in
      if lag < 0 \<or> lag > max_lag then False
      else case bs_valid_until_seq b of
        None \<Rightarrow> True
      | Some v \<Rightarrow> \<not> engine_event_seq > v)"

record fly_consumer_state =
  fc_brain_version :: string
  fc_last_received_sequence :: int
  fc_last_processed_sequence :: int
  fc_last_checkpoint_sequence :: int
  fc_state :: string

definition lag :: "fly_consumer_state \<Rightarrow> int \<Rightarrow> int" where
  "lag c latest_allowed_sequence = max 0 (latest_allowed_sequence - fc_last_processed_sequence c)"

definition receive :: "int \<Rightarrow> fly_consumer_state \<Rightarrow> fly_consumer_state" where
  "receive sequence c = c\<lparr>fc_last_received_sequence := max (fc_last_received_sequence c) sequence\<rparr>"

definition processed :: "int \<Rightarrow> fly_consumer_state \<Rightarrow> fly_consumer_state" where
  "processed sequence c =
     (let c = c\<lparr>fc_last_processed_sequence := max (fc_last_processed_sequence c) sequence\<rparr> in
      if fc_last_processed_sequence c \<ge> fc_last_received_sequence c
      then c\<lparr>fc_state := ''LIVE''\<rparr> else c\<lparr>fc_state := ''LAGGING''\<rparr>)"

inductive consumer_run :: "fly_consumer_state \<Rightarrow> fly_consumer_state \<Rightarrow> bool" where
  start: "consumer_run c c"
| receive: "consumer_run c c' \<Longrightarrow> consumer_run c (receive n c')"
| processed: "consumer_run c c' \<Longrightarrow> consumer_run c (processed n c')"

lemma consumer_run_mono:
  "consumer_run c c' \<Longrightarrow> fc_last_received_sequence c \<le> fc_last_received_sequence c'
     \<and> fc_last_processed_sequence c \<le> fc_last_processed_sequence c'"
  by (induction rule: consumer_run.induct) (auto simp: receive_def processed_def Let_def)

section \<open>Properties\<close>

text \<open>
  A referent is resolved only when it is unambiguous. With a positive ambiguity gap, the
  resolved object belongs to an item of the stack whose score reaches the minimum and exceeds
  the score of every other item by at least the gap.
\<close>

theorem referent_unambiguous:
  assumes "resolve_referent minimum gap items = Some ref" and "0 < gap"
  shows "\<exists>x \<in> set items. rf_object_ref x = ref \<and> minimum \<le> rf_score x
    \<and> (\<forall>y \<in> set (remove1 x items). rf_score y + gap \<le> rf_score x)"
  by (rule resolve_referent_Some[OF assms]) blast

theorem referent_unambiguous_witness:
  "\<exists>x \<in> set (push_referent ''doc'' ''user'' 1 (push_referent ''mail'' ''window'' (1/2) [])).
     rf_object_ref x = ''doc'' \<and> 85/100 \<le> rf_score x"
  using referent_unambiguous[of "85/100" "12/100" "push_referent ''doc'' ''user'' 1 (push_referent ''mail'' ''window'' (1/2) [])"
      "''doc''"]
  by (simp add: resolve_referent_def ranked_def push_referent_def)

text \<open>
  A manifest is a snapshot of the task's own workspace. Every revision it carries is the
  current one at the moment it is built, so a check of any of its revisions right away passes.
\<close>

theorem manifest_is_current:
  assumes "build_manifest t rs a s = (Inr m, s')" and "set er \<subseteq> set (cm_world_revisions m)"
  shows "assert_revisions (world s') er (Some (cm_workspace_id m)) = Inr ()
    \<and> cm_workspace_id m = tk_workspace_id t"
proof -
  note run = build_manifest_run[OF assms(1)]
  have "distinct (map fst (revision_list (world s) (tk_workspace_id t)))" by (simp add: revision_list_def)
  then have "map_of (cm_world_revisions m) domain = Some v" if "(domain, v) \<in> set er" for domain v
    using that assms(2) run(1) by (auto simp: map_of_eq_Some_iff)
  then show ?thesis
    using run revision_list_current[of "world s" "tk_workspace_id t"] by (auto simp: assert_revisions_Inr)
qed

definition no_manifest_args :: manifest_args where
  "no_manifest_args = \<lparr>ma_focus = [], ma_fact_refs = [], ma_episode_refs = [], ma_strategy_refs = [],
     ma_event_range = (None, None), ma_brain_snapshot_ref = None, ma_excluded = []\<rparr>"

definition context_task :: task where
  "context_task = \<lparr>tk_task_id = ''t'', tk_workspace_id = ''ws'', tk_goal = ''goal'', tk_success_criteria = [],
     tk_constraints = [], tk_state = TS_RUNNING, tk_desired_state = TS_RUNNING, tk_phase = TP_OBSERVING,
     tk_priority = 50, tk_lane = ''background'', tk_queued_at = None, tk_wait_reason = None,
     tk_budget = default_budget, tk_revision = 1\<rparr>"

theorem manifest_is_current_witness:
  "\<exists>m s'. build_manifest context_task [] no_manifest_args (fresh_world False) = (Inr m, s')
     \<and> assert_revisions (world s') (cm_world_revisions m) (Some ''ws'') = Inr ()"
proof -
  obtain m s' where run: "build_manifest context_task [] no_manifest_args (fresh_world False) = (Inr m, s')"
    by (simp add: build_manifest_def py_simps)
  from manifest_is_current[OF run, of "cm_world_revisions m"] run show ?thesis
    by (auto simp: context_task_def)
qed

text \<open>
  The predictor's bookkeeping. The received and processed sequences never go back, and
  after processing an event the state is LIVE exactly when nothing received is unprocessed,
  LAGGING otherwise.
\<close>

theorem predictor_progress:
  assumes "consumer_run c c'"
  shows "fc_last_received_sequence c \<le> fc_last_received_sequence c'
    \<and> fc_last_processed_sequence c \<le> fc_last_processed_sequence c'
    \<and> fc_state (processed n c') = (if lag (processed n c') (fc_last_received_sequence c') = 0
        then ''LIVE'' else ''LAGGING'')"
  using consumer_run_mono[OF assms] by (auto simp: processed_def lag_def Let_def)

theorem predictor_progress_witness:
  "fc_state (processed 2 (receive 3 \<lparr>fc_brain_version = ''v'', fc_last_received_sequence = 0,
     fc_last_processed_sequence = 0, fc_last_checkpoint_sequence = 0, fc_state = ''OFFLINE''\<rparr>)) = ''LAGGING''"
  using predictor_progress[OF consumer_run.receive[OF consumer_run.start[of "\<lparr>fc_brain_version = ''v'',
      fc_last_received_sequence = 0, fc_last_processed_sequence = 0, fc_last_checkpoint_sequence = 0,
      fc_state = ''OFFLINE''\<rparr>"], where n = 3], where n = 2]
  by (simp add: processed_def receive_def lag_def)

end
