(* ===== verification/Agent.thy ===== *)
theory Agent
  imports Resources Context
begin

text \<open>
  One step of the agent, \<^verbatim>\<open>src/liandanlu_native/agent.py\<close>, and the user's control intents,
  \<^verbatim>\<open>src/liandanlu_native/control.py\<close>. The model that proposes actions is code outside the
  repository: a function of the manifest that may raise and may act on the world outside, of
  which nothing is assumed.

  Shown here: every step keeps the tables, the log and the process in agreement; a capability
  runs only when the policy allows the registered action; a resource lease taken for a step is
  given back on every way out of it.
\<close>

record 'w agent_st = "'w broker_st" +
  next_action :: "context_manifest \<Rightarrow> 'w \<Rightarrow> (exc + action_proposal) \<times> 'w"
  policy :: policy_engine
  has_broker :: bool
  require_task_lease :: "bool option"
  resource_lease_seconds :: pyfloat

section \<open>The step\<close>

definition lease_required :: "('w, 'z) agent_st_scheme \<Rightarrow> bool" where
  "lease_required s = (case require_task_lease s of None \<Rightarrow> tasks_durable s | Some b \<Rightarrow> b)"

text \<open>
  \<^verbatim>\<open>{domain: manifest.world_revisions[domain] for domain in spec.revision_domains}\<close>. The order in
  which Python walks a frozenset is not specified; the sorted order is one of the possible ones.
\<close>

definition expected_revisions ::
  "context_manifest \<Rightarrow> action_spec \<Rightarrow> exc + (string \<times> int) list" where
  "expected_revisions manifest spec =
     foldR (\<lambda>domain acc. case map_of (cm_world_revisions manifest) domain of
          None \<Rightarrow> Inl (KeyError domain)
        | Some v \<Rightarrow> Inr (acc @ [(domain, v)]))
       (sorted_list_of_fset (as_revision_domains spec)) []"

text \<open>A wait that ends the step: \<open>None\<close> says that the step returns.\<close>

definition wait_for_resource :: "string \<Rightarrow> string \<Rightarrow> (('w, 'z) agent_st_scheme, 'a option) py" where
  "wait_for_resource tid reason = thenE (wait tid reason ''task.resource_wait'') (ret None)"

definition obtain_resources ::
  "string \<Rightarrow> action_spec \<Rightarrow> task_lease option
   \<Rightarrow> (('w, 'z) agent_st_scheme, resource_lease option option) py" where
  "obtain_resources tid spec task_lease =
     (if request_empty (as_resource_request spec) then ret (Some None)
      else case task_lease of
        None \<Rightarrow> wait_for_resource tid ''resource:task_lease_required''
      | Some l \<Rightarrow>
          bindE (gets has_broker) (\<lambda>broker.
          if \<not> broker then wait_for_resource tid ''resource:broker_unavailable''
          else bindE (gets resource_lease_seconds) (\<lambda>secs.
            bindE (acquire tid (tl_owner_id l) (as_resource_request spec) secs None) (\<lambda>got.
            case got of
              None \<Rightarrow> wait_for_resource tid ''resource:unavailable''
            | Some r \<Rightarrow> ret (Some (Some r))))))"

definition lease_lost_wait :: "string \<Rightarrow> (('w, 'z) agent_st_scheme, unit) py" where
  "lease_lost_wait tid = thenE (wait tid ''lease:lost'' ''task.execution_lease_lost'') (ret ())"

definition after_operation :: "string \<Rightarrow> operation \<Rightarrow> (('w, 'z) agent_st_scheme, unit) py" where
  "after_operation tid p =
     thenE
      (if op_state p \<in> {OS_UNKNOWN, OS_VERIFYING, OS_RECONCILING}
       then update_runtime_state tid (Some TS_WAITING) (Some TP_VERIFYING)
         ''task.waiting_on_operation'' ''engine''
       else if op_state p = OS_VERIFIED
       then update_runtime_state tid (Some TS_RUNNING) (Some TP_OBSERVING)
         ''task.operation_verified'' ''engine''
       else update_runtime_state tid (Some TS_RUNNING) (Some TP_REPLANNING)
         ''task.replanning'' ''engine'')
     (thenE (settle_control tid True False) (thenE flush_outbox (ret ())))"

text \<open>The body of the outer \<open>try\<close>.\<close>

definition run_operation ::
  "string \<Rightarrow> action_proposal \<Rightarrow> (string \<times> int) list \<Rightarrow> task_lease option \<Rightarrow> resource_lease option
   \<Rightarrow> (('w, 'z) agent_st_scheme, unit) py" where
  "run_operation tid proposal er task_lease resource_lease =
     bindE (attempt (prepare tid proposal er task_lease resource_lease)) (\<lambda>prepared.
     case prepared of
       Inl (BudgetExceeded reason) \<Rightarrow>
         thenE (wait tid (''budget:'' @ reason) ''task.budget_exhausted'') (ret ())
     | Inl (LeaseLost m) \<Rightarrow> lease_lost_wait tid
     | Inl e \<Rightarrow> raise e
     | Inr p \<Rightarrow>
         thenE (update_runtime_state tid None (Some TP_EXECUTING) ''task.executing'' ''engine'')
         (bindE (attempt (execute (op_operation_id p))) (\<lambda>outcome.
          case outcome of
            Inl (LeaseLost m) \<Rightarrow> lease_lost_wait tid
          | Inl e \<Rightarrow> raise e
          | Inr p' \<Rightarrow> after_operation tid p')))"

definition release_if_held :: "resource_lease option \<Rightarrow> (('w, 'z) agent_st_scheme, unit) py" where
  "release_if_held lease =
     bindE (gets has_broker) (\<lambda>broker.
     case lease of
       None \<Rightarrow> ret ()
     | Some l \<Rightarrow> whenE broker (thenE (release_resource l) (ret ())))"

text \<open>From the policy's decision on.\<close>

definition act ::
  "string \<Rightarrow> action_proposal \<Rightarrow> action_spec \<Rightarrow> (string \<times> int) list \<Rightarrow> task_lease option
   \<Rightarrow> policy_decision \<Rightarrow> (('w, 'z) agent_st_scheme, unit) py" where
  "act tid proposal spec er task_lease decision =
     (case decision of
        DENY \<Rightarrow> thenE (update_runtime_state tid (Some TS_BLOCKED) None ''agent.action.blocked'' ''policy'') (ret ())
      | REQUIRE_CONFIRMATION \<Rightarrow>
          thenE (update_runtime_state tid (Some TS_WAITING) None ''agent.action.confirmation_required''
            ''policy'') (ret ())
      | ALLOW \<Rightarrow>
          bindE (obtain_resources tid spec task_lease) (\<lambda>got.
          case got of
            None \<Rightarrow> ret ()
          | Some resource_lease \<Rightarrow>
              finallyE (run_operation tid proposal er task_lease resource_lease)
                (release_if_held resource_lease)))"

definition think ::
  "string \<Rightarrow> string \<Rightarrow> context_manifest \<Rightarrow> task_lease option \<Rightarrow> (('w, 'z) agent_st_scheme, unit) py" where
  "think tid ws manifest task_lease =
     thenE (update_runtime_state tid (Some TS_RUNNING) (Some TP_THINKING) ''task.agent_step_started'' ''engine'')
     (bindE (gets next_action) (\<lambda>mdl.
      bindE (call (mdl manifest)) (\<lambda>proposal.
      bindE (gets registry) (\<lambda>reg.
      bindE (of_result (resolve_action reg proposal)) (\<lambda>spec.
      bindE (of_result (expected_revisions manifest spec)) (\<lambda>er.
      thenE (update_runtime_state tid None (Some TP_AUTHORIZING) ''task.authorizing'' ''engine'')
      (bindE (gets policy) (\<lambda>policies.
       act tid proposal spec er task_lease
         (evaluate policies ws (ap_capability proposal) (ap_action proposal) (as_risk_class spec))))))))))"

definition step :: "string \<Rightarrow> context_manifest \<Rightarrow> task_lease option \<Rightarrow> (('w, 'z) agent_st_scheme, unit) py" where
  "step tid manifest task_lease =
     bindE (get_task tid) (\<lambda>t.
     thenE (raise_if (cm_workspace_id manifest \<noteq> tk_workspace_id t)
       (ValueError ''ContextManifest workspace does not match Task''))
     (thenE (raise_if (case task_lease of None \<Rightarrow> False | Some l \<Rightarrow> tl_task_id l \<noteq> tk_task_id t)
       (LeaseLost ''task lease belongs to another task''))
     (bindE (gets lease_required) (\<lambda>required.
      if required \<and> task_lease = None
      then thenE (wait tid ''lease:required'' ''task.execution_lease_required'') (ret ())
      else if tk_desired_state t \<in> {TS_PAUSED, TS_CANCELLED}
      then thenE (settle_control tid True False) (ret ())
      else think tid (tk_workspace_id t) manifest task_lease))))"

section \<open>Control intents\<close>

datatype control_intent = STOP_SPEAKING | PAUSE_TASK | RESUME_TASK | CANCEL_TASK

record control_resolution =
  cr_intent :: control_intent
  cr_task_id :: "string option"
  cr_needs_user :: bool
  cr_reason :: "string option"

definition control_candidates :: "control_intent \<Rightarrow> (string \<times> task) list \<Rightarrow> string list" where
  "control_candidates intent m =
     map tk_task_id (filter (\<lambda>t.
        if intent = RESUME_TASK then tk_state t \<in> {TS_PAUSED, TS_PAUSING, TS_WAITING}
        else tk_state t \<in> {TS_RUNNING, TS_QUEUED, TS_WAITING, TS_PAUSING, TS_CANCELLING})
       (map snd m))"

definition resolve_control ::
  "control_intent \<Rightarrow> (string \<times> task) list \<Rightarrow> string option \<Rightarrow> control_resolution" where
  "resolve_control intent m explicit_task_id =
     (if intent = STOP_SPEAKING
      then \<lparr>cr_intent = intent, cr_task_id = None, cr_needs_user = False, cr_reason = None\<rparr>
      else if (case explicit_task_id of None \<Rightarrow> False | Some i \<Rightarrow> i \<noteq> [])
      then \<lparr>cr_intent = intent, cr_task_id = explicit_task_id, cr_needs_user = False, cr_reason = None\<rparr>
      else case control_candidates intent m of
        [c] \<Rightarrow> \<lparr>cr_intent = intent, cr_task_id = Some c, cr_needs_user = False, cr_reason = None\<rparr>
      | [] \<Rightarrow> \<lparr>cr_intent = intent, cr_task_id = None, cr_needs_user = True,
          cr_reason = Some ''no_matching_task''\<rparr>
      | _ \<Rightarrow> \<lparr>cr_intent = intent, cr_task_id = None, cr_needs_user = True,
          cr_reason = Some ''ambiguous_task''\<rparr>)"

fun desired_of :: "control_intent \<Rightarrow> task_state option" where
  "desired_of STOP_SPEAKING = None"
| "desired_of PAUSE_TASK = Some TS_PAUSED"
| "desired_of RESUME_TASK = Some TS_RUNNING"
| "desired_of CANCEL_TASK = Some TS_CANCELLED"

definition apply_control :: "control_resolution \<Rightarrow> ('z task_st_scheme, task option) py" where
  "apply_control r =
     (case cr_task_id r of
        None \<Rightarrow> ret None
      | Some tid \<Rightarrow>
          if cr_needs_user r then ret None
          else case desired_of (cr_intent r) of
            None \<Rightarrow> ret None
          | Some desired \<Rightarrow> bindE (control tid desired) (\<lambda>t. ret (Some t)))"

section \<open>Frames\<close>

text \<open>What the invariant of the process looks at.\<close>

definition db_view where
  "db_view d = (world_part d, tasks_tbl d, operations_tbl d)"

definition engine_view where
  "engine_view s = (tasks s, operations s, world s, tasks_durable s, ops_durable s, world_durable s,
     db_view (db s), hex_supply s)"

lemma db_view_events [simp]:
  "db_view (update_outbox oid f d) = db_view d" "db_view (insert_event r eid ts d) = db_view d"
  by (simp_all add: db_view_def world_part_def update_outbox_def insert_event_def)

lemma db_view_leases [simp]:
  "db_view (snd (acquire_resource_tx a own secs ts d)) = db_view d"
  "db_view (snd (release_resource_tx l d)) = db_view d"
  by (auto simp: db_view_def world_part_def acquire_resource_tx_def release_resource_tx_def Let_def
      split: prod.splits option.splits)

lemma keeps_engine_frame:
  fixes m :: "(('w, 'z) op_st_scheme, 'a) py"
  assumes "\<And>v k. keeps (\<lambda>s. engine_view s = v \<and> k \<le> ids_drawn s) m" and "keeps store_ok m"
  shows "keeps engine_ok m"
proof (rule keepsI)
  fix s :: "('w, 'z) op_st_scheme"
  assume ok: "engine_ok s"
  have "engine_view (snd (m s)) = engine_view s \<and> ids_drawn s \<le> ids_drawn (snd (m s))"
    using keepsD[OF assms(1)[of "engine_view s" "ids_drawn s"], of s] by simp
  moreover have "store_ok (snd (m s))"
    using keepsD[OF assms(2)] ok by (simp add: engine_ok_def runtime_ok_def)
  ultimately show "engine_ok (snd (m s))"
    using ok unfolding engine_view_def db_view_def prod.inject
    by (elim conjE) (rule engine_ok_frame)
qed

lemma keeps_engine_call [wp]: "keeps engine_ok (call f)"
proof (rule keeps_engine_frame)
  show "keeps (\<lambda>s. engine_view s = v \<and> k \<le> ids_drawn s) (call f)" for v k
    by (rule keepsI) (auto simp: py_simps engine_view_def split: prod.splits)
  show "keeps store_ok (call f)"
    by (rule keepsI) (auto simp: py_simps same_log_def intro: store_ok_mono split: prod.splits)
qed

lemma keeps_view_transaction:
  assumes "\<And>d. db_view (snd (f d)) = db_view d"
  shows "keeps (\<lambda>s. engine_view s = v \<and> k \<le> ids_drawn s) (transaction f)"
proof (rule keepsI)
  fix s :: "('w, 'z) op_st_scheme"
  assume "engine_view s = v \<and> k \<le> ids_drawn s"
  then show "engine_view (snd (transaction f s)) = v \<and> k \<le> ids_drawn (snd (transaction f s))"
    using assms[of "db s"] by (cases "f (db s)") (simp add: py_simps engine_view_def)
qed

lemma keeps_view_host:
  "keeps (\<lambda>s. engine_view s = v \<and> k \<le> ids_drawn s) now"
  "keeps (\<lambda>s. engine_view s = v \<and> k \<le> ids_drawn s) (resolve_ts ts)"
  "keeps (\<lambda>s. engine_view s = v \<and> k \<le> ids_drawn s) (on_table g)"
  by (rule keepsI, auto simp: py_simps engine_view_def on_table_def resolve_ts_def
      split: prod.splits option.splits)+

lemma keeps_store_on_table [wp]: "keeps store_ok (on_table g)"
  by (rule keepsI) (auto simp: on_table_def same_log_def intro: store_ok_mono split: prod.splits)

lemma keeps_engine_acquire [wp]: "keeps engine_ok (acquire t own req secs now_ts)"
proof (rule keeps_engine_frame)
  show "keeps (\<lambda>s. engine_view s = v \<and> k \<le> ids_drawn s) (acquire t own req secs now_ts)" for v k
    unfolding acquire_def acquire_resource_lease_def
    by (intro wp keeps_view_host keeps_view_transaction db_view_leases)
  show "keeps store_ok (acquire t own req secs now_ts)"
    unfolding acquire_def by (intro wp)
qed

lemma keeps_engine_release [wp]: "keeps engine_ok (release_resource l)"
proof (rule keeps_engine_frame)
  show "keeps (\<lambda>s. engine_view s = v \<and> k \<le> ids_drawn s) (release_resource l)" for v k
    unfolding release_resource_def release_resource_lease_def
    by (intro wp keeps_view_host keeps_view_transaction db_view_leases)
  show "keeps store_ok (release_resource l)"
    unfolding release_resource_def by (intro wp)
qed

lemma keeps_engine_flush [wp]: "keeps engine_ok flush_outbox"
proof (rule keeps_engine_frame)
  have row: "keeps (\<lambda>s. engine_view s = v \<and> k \<le> ids_drawn s) (dispatch_row r)" for v k r
    by (rule keepsI) (auto simp: dispatch_row_def py_simps engine_view_def split: option.splits)
  have emit: "keeps (\<lambda>s. engine_view s = v \<and> k \<le> ids_drawn s) (emit item)" for v k item
    by (rule keepsI) (auto simp: emit_def py_simps engine_view_def)
  have drop: "keeps (\<lambda>s. engine_view s = v \<and> k \<le> ids_drawn s) (modify (\<lambda>s. s\<lparr>mem_outbox := []\<rparr>))" for v k
    by (rule keepsI) (auto simp: py_simps engine_view_def)
  show "keeps (\<lambda>s. engine_view s = v \<and> k \<le> ids_drawn s) flush_outbox" for v k
    unfolding flush_outbox_def dispatch_event_outbox_def by (intro wp row emit drop)
qed (rule wp)

section \<open>The step keeps the process and its tables together\<close>

lemma keeps_engine_run_operation [wp]:
  "keeps engine_ok (run_operation tid proposal er tlease rlease)"
proof -
  have after: "keeps engine_ok (after_operation tid p)" for p
    unfolding after_operation_def by (intro wp)
  have lost: "keeps engine_ok (lease_lost_wait tid)"
    unfolding lease_lost_wait_def by (intro wp)
  have inner: "keeps engine_ok (case outcome of Inl (LeaseLost m) \<Rightarrow> lease_lost_wait tid
      | Inl e \<Rightarrow> raise e | Inr p' \<Rightarrow> after_operation tid p')" for outcome
    using after lost by (auto split: sum.splits exc.splits intro: wp)
  have rest: "keeps engine_ok (thenE (update_runtime_state tid None (Some TP_EXECUTING) ''task.executing'' ''engine'')
         (bindE (attempt (execute (op_operation_id p))) (\<lambda>outcome.
          case outcome of Inl (LeaseLost m) \<Rightarrow> lease_lost_wait tid
          | Inl e \<Rightarrow> raise e | Inr p' \<Rightarrow> after_operation tid p')))" for p
    by (intro wp inner keeps_engine_execute)
  have budget: "keeps engine_ok (thenE (wait tid (''budget:'' @ reason) ''task.budget_exhausted'') (ret ()))"
    for reason by (intro wp)
  have outer: "keeps engine_ok (case prepared of
       Inl (BudgetExceeded reason) \<Rightarrow>
         thenE (wait tid (''budget:'' @ reason) ''task.budget_exhausted'') (ret ())
     | Inl (LeaseLost m) \<Rightarrow> lease_lost_wait tid
     | Inl e \<Rightarrow> raise e
     | Inr p \<Rightarrow>
         thenE (update_runtime_state tid None (Some TP_EXECUTING) ''task.executing'' ''engine'')
         (bindE (attempt (execute (op_operation_id p))) (\<lambda>outcome.
          case outcome of Inl (LeaseLost m) \<Rightarrow> lease_lost_wait tid
          | Inl e \<Rightarrow> raise e | Inr p' \<Rightarrow> after_operation tid p')))" for prepared
  proof (cases prepared)
    case (Inl e)
    then show ?thesis using budget lost by (cases e) (simp_all add: keeps_raise)
  next
    case (Inr p)
    then show ?thesis using rest[of p] by simp
  qed
  show ?thesis
    unfolding run_operation_def by (intro wp outer keeps_engine_prepare)
qed

lemma keeps_engine_act [wp]: "keeps engine_ok (act tid proposal spec er tlease decision)"
proof -
  have "keeps engine_ok (obtain_resources tid spec tlease)"
    unfolding obtain_resources_def wait_for_resource_def by (intro wp)
  moreover have "keeps engine_ok (release_if_held l)" for l
    unfolding release_if_held_def by (intro wp)
  ultimately show ?thesis
    unfolding act_def by (cases decision) (simp_all, (intro wp; assumption)+)
qed

lemma keeps_engine_step: "keeps engine_ok (step tid manifest tlease)"
  unfolding step_def think_def get_task_def by (intro wp)

section \<open>What a step leaves alone\<close>

text \<open>The methods of the task runtime change nothing above it.\<close>

lemma keeps_above_task [wp_ext]:
  "keeps (\<lambda>s. task_st.more s = x) (store_task t et actor pl)"
  "keeps (\<lambda>s. task_st.more s = x) now"
  by (rule keepsI, metis store_task_result snd_conv) (rule keepsI, simp add: py_simps)

lemma keeps_above_task_methods [wp_ext]:
  "keeps (\<lambda>s. task_st.more s = x) (wait tid reason et)"
  "keeps (\<lambda>s. task_st.more s = x) (update_runtime_state tid st ph et actor)"
  "keeps (\<lambda>s. task_st.more s = x) (settle_control tid sb ec)"
  unfolding wait_def update_runtime_state_def settle_control_def Let_def touch_and_record_store get_task_def
  by (intro wp wp_ext)+

lemma same_above:
  assumes "task_st.more s' = task_st.more s"
  shows "ext s' = ext s" "registry s' = registry s" "next_action s' = next_action s"
    "policy s' = policy s" "op_st.more s' = op_st.more s" "capabilities s' = capabilities s"
  using assms by (cases s; cases s'; simp)+

text \<open>The methods of the operation runtime change nothing above it either.\<close>

lemma keeps_above_op_prims:
  "keeps (\<lambda>s. op_st.more s = x) (put_task t)" "keeps (\<lambda>s. op_st.more s = x) bump_tasks_revision"
  "keeps (\<lambda>s. op_st.more s = x) (put_operation p)" "keeps (\<lambda>s. op_st.more s = x) (call f)"
  "keeps (\<lambda>s. op_st.more s = x) (new_id pfx)" "keeps (\<lambda>s. op_st.more s = x) now"
  by (rule keepsI, simp add: py_simps Let_def split: prod.splits)+

lemma keeps_above_op_saves:
  "keeps (\<lambda>s. op_st.more s = x) (commit_db f)" "keeps (\<lambda>s. op_st.more s = x) (enqueue_outbox a)"
  "keeps (\<lambda>s. op_st.more s = x) (insert_outbox a)" "keeps (\<lambda>s. op_st.more s = x) (emit item)"
  "keeps (\<lambda>s. op_st.more s = x) (modify (\<lambda>s. s\<lparr>mem_outbox := []\<rparr>))"
  by (rule keepsI, simp add: py_simps enqueue_outbox_def enqueue_event_outbox_def insert_outbox_def
      emit_def)+

lemma keeps_above_op_methods [wp_ext]:
  "keeps (\<lambda>s. op_st.more s = x) (prepare tid proposal er tlease rlease)"
  "keeps (\<lambda>s. op_st.more s = x) (execute oid)"
  "keeps (\<lambda>s. op_st.more s = x) flush_outbox"
  "keeps (\<lambda>s. op_st.more s = x) (store_task t et actor pl)"
  unfolding prepare_def get_task_def Let_def check_task_lease_def check_resource_lease_def
    validate_task_lease_identity_def validate_resource_lease_identity_def resolve_ts_def option.case
    record_prepared_def save_task_and_operation_with_outbox_event_def execute_def begin_execution_def
    get_operation_def lease_check_def get_capability_def put_and_record_def put_and_save_def
    record_operation_def save_operation_with_outbox_event_def save_op_def save_operation_def
    verify_operation_def flush_outbox_def dispatch_event_outbox_def dispatch_row_def store_task_def
    record_task_def save_task_with_outbox_event_def
  by (intro wp keeps_above_op_prims keeps_above_op_saves)+

lemma keeps_above_op_tasks [wp_ext]:
  "keeps (\<lambda>s. op_st.more s = x) (wait tid reason et)"
  "keeps (\<lambda>s. op_st.more s = x) (update_runtime_state tid st ph et actor)"
  "keeps (\<lambda>s. op_st.more s = x) (settle_control tid sb ec)"
  unfolding wait_def update_runtime_state_def settle_control_def Let_def touch_and_record_store get_task_def
  by (intro wp wp_ext keeps_above_op_prims)+

lemma keeps_above_run_operation:
  "keeps (\<lambda>s. op_st.more s = x) (run_operation tid proposal er tlease rlease)"
  unfolding run_operation_def lease_lost_wait_def after_operation_def
  by (intro wp wp_ext | split exc.split; safe | simp only:)+

section \<open>Resource leases are given back\<close>

text \<open>The identity a lease validates with, in whichever table the broker uses.\<close>

definition resource_held :: "('w, 'z) broker_st_scheme \<Rightarrow> resource_lease \<Rightarrow> pyfloat \<Rightarrow> bool" where
  "resource_held s l ts = holds
     (if broker_durable s then resource_holder (db s) (rl_task_id l)
      else table_holder (broker_leases s) (rl_task_id l)) (rl_owner_id l) (rl_generation l) ts"

lemma release_resource_ends:
  assumes "release_resource l s = (r, s')" and "0 \<le> ts"
  shows "\<not> resource_held s' l ts"
proof (cases "broker_durable s")
  case True
  obtain b d' where tx: "release_resource_tx l (db s) = (b, d')" by fastforce
  with True assms(1) have "s' = s\<lparr>db := d'\<rparr>"
    by (simp add: release_resource_def release_resource_lease_def py_simps)
  with True show ?thesis
    using resource_leases.release_ends[OF tx _ assms(2)]
    by (simp add: resource_held_def resource_lease_ident_def)
next
  case False
  obtain b tbl where tx: "release_resource_mem l (broker_leases s) = (b, tbl)" by fastforce
  with False assms(1) have "s' = s\<lparr>broker_leases := tbl\<rparr>"
    by (simp add: release_resource_def on_table_def py_simps)
  with False show ?thesis
    using broker_fencing.release_ends[OF tx _ assms(2)]
    by (simp add: resource_held_def resource_lease_ident_def)
qed

lemma release_resource_returns: "\<exists>b. fst (release_resource l s) = Inr b"
  by (auto simp: release_resource_def release_resource_lease_def on_table_def py_simps split: prod.splits)

lemma keeps_broker_acquire:
  "keeps (\<lambda>s. has_broker s = b) (acquire t own req secs now_ts)"
proof -
  have prims: "keeps (\<lambda>s. has_broker s = b) now" "keeps (\<lambda>s. has_broker s = b) (on_table g)"
    "keeps (\<lambda>s. has_broker s = b) (transaction f)" for g f
    by (rule keepsI, simp add: py_simps on_table_def split: prod.splits)+
  show ?thesis
    unfolding acquire_def acquire_resource_lease_def resolve_ts_def by (intro wp prims)
qed

lemma obtain_resources_broker:
  assumes "obtain_resources tid spec tlease s = (Inr (Some (Some r)), s1)"
  shows "has_broker s1"
proof -
  from assms have "has_broker s"
    and "\<exists>own. acquire tid own (as_resource_request spec) (resource_lease_seconds s) None s = (Inr (Some r), s1)"
    by (auto simp: obtain_resources_def py_simps wait_for_resource_def
        split: if_splits option.splits prod.splits sum.splits)
  then show ?thesis using keepsE[OF keeps_broker_acquire[of True]] by auto
qed

lemma act_releases:
  assumes "obtain_resources tid spec tlease s = (Inr (Some (Some r)), s1)" and "0 \<le> ts"
  shows "\<not> resource_held (snd (act tid proposal spec er tlease ALLOW s)) r ts"
proof -
  obtain o2 s2 where run: "run_operation tid proposal er tlease (Some r) s1 = (o2, s2)" by fastforce
  have "op_st.more s2 = op_st.more s1"
    using keepsE[OF keeps_above_run_operation run] by blast
  then have "has_broker s2 = has_broker s1" by (cases s1; cases s2; simp)
  with obtain_resources_broker[OF assms(1)] have broker: "has_broker s2" by simp
  obtain b s3 where rel: "release_resource r s2 = (Inr b, s3)"
    using release_resource_returns[of r s2] by (metis prod.collapse)
  have "snd (act tid proposal spec er tlease ALLOW s) = s3"
    using assms(1) run rel broker by (simp add: act_def py_simps release_if_held_def)
  then show ?thesis using release_resource_ends[OF rel assms(2)] by simp
qed

section \<open>Only allowed actions reach a capability\<close>

lemma keeps_ext_of:
  assumes "\<And>x. keeps (\<lambda>s. task_st.more s = x) (m :: (('w, 'z) agent_st_scheme, 'a) py)"
    and "m s = (r, s')"
  shows "ext s' = ext s" "registry s' = registry s" "next_action s' = next_action s" "policy s' = policy s"
  using same_above[OF keepsE[OF assms refl]] by simp_all

lemma act_refused_ext:
  fixes s :: "('w, 'z) agent_st_scheme"
  assumes "decision \<noteq> ALLOW"
  shows "ext (snd (act tid proposal spec er tlease decision s)) = ext s"
proof -
  have above: "keeps (\<lambda>s. task_st.more s = x)
      (act tid proposal spec er tlease decision :: (('w, 'z) agent_st_scheme, unit) py)" for x
    using assms by (cases decision) (simp_all add: act_def, (intro wp wp_ext)+)
  show ?thesis by (rule keeps_ext_of(1)[OF above surjective_pairing])
qed

lemma think_ext:
  assumes "next_action s manifest (ext s) = (r, w)"
    and refused: "\<And>proposal spec. r = Inr proposal \<Longrightarrow> resolve_action (registry s) proposal = Inr spec \<Longrightarrow>
      evaluate (policy s) ws (ap_capability proposal) (ap_action proposal) (as_risk_class spec) \<noteq> ALLOW"
  shows "ext (snd (think tid ws manifest tlease s)) \<in> {ext s, w}"
proof -
  obtain r1 s1 where u1: "update_runtime_state tid (Some TS_RUNNING) (Some TP_THINKING)
      ''task.agent_step_started'' ''engine'' s = (r1, s1)" by fastforce
  note e1 = keeps_ext_of[OF keeps_above_task_methods(2) u1]
  show ?thesis
  proof (cases r1)
    case (Inl e)
    then show ?thesis using u1 e1(1) by (simp add: think_def py_simps)
  next
    case (Inr t1)
    let ?s2 = "s1\<lparr>ext := w\<rparr>"
    let ?rest = "\<lambda>proposal. bindE (gets registry) (\<lambda>reg.
      bindE (of_result (resolve_action reg proposal)) (\<lambda>spec.
      bindE (of_result (expected_revisions manifest spec)) (\<lambda>er.
      thenE (update_runtime_state tid None (Some TP_AUTHORIZING) ''task.authorizing'' ''engine'')
      (bindE (gets policy) (\<lambda>policies.
       act tid proposal spec er tlease
         (evaluate policies ws (ap_capability proposal) (ap_action proposal) (as_risk_class spec)))))))"
    have think: "snd (think tid ws manifest tlease s) =
        (case r of Inl e \<Rightarrow> ?s2 | Inr proposal \<Rightarrow> snd (?rest proposal ?s2))"
      using u1 Inr e1(1,3) assms(1) by (simp add: think_def py_simps split: sum.splits)
    have "ext (snd (?rest proposal ?s2)) = w" if r: "r = Inr proposal" for proposal
    proof (cases "resolve_action (registry s) proposal")
      case (Inl e)
      then show ?thesis using e1(2) by (simp add: py_simps)
    next
      case spec: (Inr spec)
      obtain r3 s3 where u3: "update_runtime_state tid None (Some TP_AUTHORIZING) ''task.authorizing''
          ''engine'' ?s2 = (r3, s3)" by fastforce
      note e3 = keeps_ext_of[OF keeps_above_task_methods(2) u3]
      have "evaluate (policy s3) ws (ap_capability proposal) (ap_action proposal) (as_risk_class spec) \<noteq> ALLOW"
        using refused[OF r spec] e1(4) e3(4) by simp
      from act_refused_ext[OF this, of tid proposal spec _ tlease s3] show ?thesis
        using spec e1(2) u3 e3(1) by (cases r3) (simp_all add: py_simps split: sum.splits)
    qed
    with think show ?thesis by (cases r) simp_all
  qed
qed

lemma step_ext:
  fixes s :: "('w, 'z) agent_st_scheme"
  assumes "map_of (tasks s) tid = Some t" and "next_action s manifest (ext s) = (r, w)"
    and "\<And>proposal spec. r = Inr proposal \<Longrightarrow> resolve_action (registry s) proposal = Inr spec \<Longrightarrow>
      evaluate (policy s) (tk_workspace_id t) (ap_capability proposal) (ap_action proposal)
        (as_risk_class spec) \<noteq> ALLOW"
  shows "ext (snd (step tid manifest tlease s)) \<in> {ext s, w}"
proof -
  have frame: "ext (snd ((thenE m (ret ()) :: (('w, 'z) agent_st_scheme, unit) py) s)) = ext s"
    if "\<And>x. keeps (\<lambda>s. task_st.more s = x) m" for m :: "(('w, 'z) agent_st_scheme, 'b) py"
    by (rule keeps_ext_of(1)[OF _ surjective_pairing]) (intro wp that)
  note waits = frame[OF keeps_above_task_methods(1)] frame[OF keeps_above_task_methods(3)]
  show ?thesis
    using assms(1) waits think_ext[OF assms(2,3)]
    by (auto simp: step_def py_simps)
qed

section \<open>Properties\<close>

definition sample_agent :: "policy_engine \<Rightarrow> task list \<Rightarrow> (context_manifest \<Rightarrow> nat \<Rightarrow> (exc + action_proposal) \<times> nat) \<Rightarrow> nat agent_st" where
  "sample_agent pol ts mdl = broker_st.extend (sched_st.extend (op_st.extend
     (sample_engine ts [] [(''files'', counting)] 0) (sched_st.fields empty_sched))
     (broker_st.fields False gpu_box []))
     (agent_st.fields mdl pol True None 60)"

definition sample_manifest :: context_manifest where
  "sample_manifest = \<lparr>cm_manifest_id = ''ctx_1'', cm_task_id = ''t'', cm_workspace_id = ''ws'',
     cm_world_revisions = [(''workspace'', 0)], cm_focus_object_refs = [], cm_referent_refs = [],
     cm_fact_memory_refs = [], cm_episode_memory_refs = [], cm_strategy_memory_refs = [],
     cm_recent_event_from = None, cm_recent_event_to = None, cm_brain_snapshot_ref = None,
     cm_constraints = [], cm_success_criteria = [], cm_excluded = []\<rparr>"

lemma sample_agent_sel [simp]:
  "tasks (sample_agent pol ts mdl) = map (\<lambda>t. (tk_task_id t, t)) ts"
  "next_action (sample_agent pol ts mdl) = mdl" "policy (sample_agent pol ts mdl) = pol"
  "ext (sample_agent pol ts mdl) = 0" "has_broker (sample_agent pol ts mdl)"
  "capacity (sample_agent pol ts mdl) = gpu_box" "broker_leases (sample_agent pol ts mdl) = []"
  "broker_durable (sample_agent pol ts mdl) = False"
  "resource_lease_seconds (sample_agent pol ts mdl) = 60"
  by (simp_all add: sample_agent_def sample_engine_def sample_tasks_def task_st.defs op_st.defs
      sched_st.defs broker_st.defs agent_st.defs events_st.defs)

text \<open>
  C27: only allowed actions reach a capability. Whatever the model proposes, if the policy does
  not allow the action the registry knows under that name (or the registry refuses the
  proposal, or the model raises), a step leaves the world outside as it was, or as the model's
  own call left it: no capability is executed, verified or reconciled.
\<close>

theorem refused_step_has_no_effect:
  assumes "map_of (tasks s) tid = Some t" and "next_action s manifest (ext s) = (r, w)"
    and "\<forall>proposal spec. r = Inr proposal \<longrightarrow> resolve_action (registry s) proposal = Inr spec \<longrightarrow>
      evaluate (policy s) (tk_workspace_id t) (ap_capability proposal) (ap_action proposal)
        (as_risk_class spec) \<noteq> ALLOW"
  shows "ext (snd (step tid manifest tlease s)) = ext s \<or> ext (snd (step tid manifest tlease s)) = w"
  using step_ext[OF assms(1,2)] assms(3) by blast

theorem refused_step_has_no_effect_witness:
  "ext (snd (step ''t'' sample_manifest None (sample_agent [] [sample_task ''t'' TS_RUNNING TS_RUNNING]
     (\<lambda>m w. (Inr sample_proposal, w))))) = 0"
  using refused_step_has_no_effect[of "sample_agent [] [sample_task ''t'' TS_RUNNING TS_RUNNING]
     (\<lambda>m w. (Inr sample_proposal, w))" "''t''" "sample_task ''t'' TS_RUNNING TS_RUNNING" sample_manifest
     "Inr sample_proposal" 0 None]
  by (simp add: sample_task_def evaluate_def)

text \<open>
  C28: resources are given back. When a step has acquired a resource lease for an allowed
  action, then on every way out of it (success, a refused or failed preparation, a lost lease,
  an exception of any kind) that lease validates at no time afterwards.
\<close>

theorem step_gives_resources_back:
  assumes "obtain_resources tid spec tlease s = (Inr (Some (Some r)), s1)" and "0 \<le> ts"
  shows "\<not> resource_held (snd (act tid proposal spec er tlease ALLOW s)) r ts"
  by (rule act_releases[OF assms])

definition gpu_spec :: action_spec where
  "gpu_spec = sample_spec\<lparr>as_resource_request := one_gpu\<rparr>"

theorem step_gives_resources_back_witness:
  "\<exists>r. fst (obtain_resources ''t'' gpu_spec (Some \<lparr>tl_task_id = ''t'', tl_owner_id = ''a'', tl_generation = 1,
        tl_claimed_at = 0, tl_lease_until = 9\<rparr>) (sample_agent [] [] (\<lambda>m w. (Inr sample_proposal, w)))) = Inr (Some (Some r))
     \<and> \<not> resource_held (snd (act ''t'' sample_proposal gpu_spec [] (Some \<lparr>tl_task_id = ''t'', tl_owner_id = ''a'',
        tl_generation = 1, tl_claimed_at = 0, tl_lease_until = 9\<rparr>) ALLOW (sample_agent [] [] (\<lambda>m w. (Inr sample_proposal, w))))) r 5"
proof -
  let ?l = "Some \<lparr>tl_task_id = ''t'', tl_owner_id = ''a'', tl_generation = 1, tl_claimed_at = 0, tl_lease_until = 9\<rparr>"
  let ?s = "sample_agent [] [] (\<lambda>m w. (Inr sample_proposal, w))"
  obtain r s1 where run: "obtain_resources ''t'' gpu_spec ?l ?s = (Inr (Some (Some r)), s1)"
    by (simp add: obtain_resources_def gpu_spec_def one_gpu_def request_empty_def py_simps acquire_def
        exceeds_capacity_def gpu_box_def on_table_def acquire_mem_def active_def Let_def)
  from step_gives_resources_back[OF run, of 5 sample_proposal "[]"] run show ?thesis by auto
qed

end
