(* ===== verification/Memory.thy ===== *)
theory Memory
  imports Events Py_Text "HOL-Library.Multiset"
begin

text \<open>
  Memory, \<^verbatim>\<open>src/liandanlu_native/memory.py\<close> and the memory methods of
  \<^verbatim>\<open>src/liandanlu_native/storage.py\<close>: records with revisions per partition, scope, key
  and kind, committed from events at most once, strategies promoted by support, and the
  pipeline that turns the event log into records. \<open>memory_durable\<close> is the presence of a
  store behind the \<open>MemoryStore\<close>; a candidate is passed by value, so that the
  normalised partition the source writes back into it is visible in the record only.

  The lemmas show that the table is a chain of revisions per key after any run that gives
  support to records of the table only (and a run that does otherwise and breaks it), that an
  event commits one record however often it is delivered, that a restart finds the latest
  revisions, and when the pipeline gets through the log and what it then has committed.
\<close>

section \<open>Data\<close>

datatype memory_kind = MK_FACT | MK_EPISODE | MK_STRATEGY

datatype strategy_state = SS_CANDIDATE | SS_SUPPORTED | SS_PROMOTED | SS_REJECTED

fun memory_kind_value :: "memory_kind \<Rightarrow> string" where
  "memory_kind_value MK_FACT = ''FACT''"
| "memory_kind_value MK_EPISODE = ''EPISODE''"
| "memory_kind_value MK_STRATEGY = ''STRATEGY''"

fun strategy_state_value :: "strategy_state \<Rightarrow> string" where
  "strategy_state_value SS_CANDIDATE = ''CANDIDATE''"
| "strategy_state_value SS_SUPPORTED = ''SUPPORTED''"
| "strategy_state_value SS_PROMOTED = ''PROMOTED''"
| "strategy_state_value SS_REJECTED = ''REJECTED''"

definition memory_kind_of :: "string \<Rightarrow> exc + memory_kind" where
  "memory_kind_of = enum_of ''MemoryKind'' memory_kind_value [MK_FACT, MK_EPISODE, MK_STRATEGY]"

definition strategy_state_of :: "string \<Rightarrow> exc + strategy_state" where
  "strategy_state_of = enum_of ''StrategyState'' strategy_state_value
     [SS_CANDIDATE, SS_SUPPORTED, SS_PROMOTED, SS_REJECTED]"

lemma memory_kind_roundtrip [simp]: "memory_kind_of (memory_kind_value x) = Inr x"
  by (cases x) (simp_all add: memory_kind_of_def enum_of_def)

lemma strategy_state_roundtrip [simp]: "strategy_state_of (strategy_state_value x) = Inr x"
  by (cases x) (simp_all add: strategy_state_of_def enum_of_def)

lemma memory_kind_value_inject [simp]: "memory_kind_value x = memory_kind_value y \<longleftrightarrow> x = y"
  by (metis memory_kind_roundtrip sum.inject(2))

lemma strategy_state_value_nonempty [simp]: "strategy_state_value x \<noteq> []"
  by (cases x) simp_all

definition memory_partition :: "string \<Rightarrow> string \<Rightarrow> string" where
  "memory_partition workspace_id scope = (if scope = ''global'' then ''*'' else workspace_id)"

record memory_candidate =
  mc_workspace_id :: string
  mc_kind :: memory_kind
  mc_key :: string
  mc_value :: json
  mc_scope :: string
  mc_source_event_ids :: "string list"
  mc_confidence :: pyfloat
  mc_explicit_user_statement :: bool

record memory_record =
  me_memory_id :: string
  me_workspace_id :: string
  me_kind :: memory_kind
  me_key :: string
  me_value :: json
  me_scope :: string
  me_source_event_ids :: "string list"
  me_confidence :: pyfloat
  me_revision :: int
  me_supersedes :: "string option"
  me_strategy_state :: "strategy_state option"
  me_support_count :: int
  me_support_event_ids :: "string list"

type_synonym memory_key = "string \<times> string \<times> string \<times> memory_kind"

record memory_store =
  ms_records :: "(string \<times> memory_record) list"
  ms_latest_by_key :: "(memory_key \<times> string) list"
  ms_processed_event_ids :: "string fset"

record memory_st = events_st +
  memory_durable :: bool
  memory :: memory_store

definition empty_memory :: memory_store where
  "empty_memory = \<lparr>ms_records = [], ms_latest_by_key = [], ms_processed_event_ids = {||}\<rparr>"

definition record_key :: "memory_record \<Rightarrow> memory_key" where
  "record_key r = (me_workspace_id r, me_scope r, me_key r, me_kind r)"

definition candidate_key :: "memory_candidate \<Rightarrow> memory_key" where
  "candidate_key c = (mc_workspace_id c, mc_scope c, mc_key c, mc_kind c)"

text \<open>The record both modes build from a candidate, with the previous revision's number and id.\<close>

definition new_record :: "string \<Rightarrow> memory_candidate \<Rightarrow> (int \<times> string) option \<Rightarrow> memory_record" where
  "new_record mid c previous =
     \<lparr>me_memory_id = mid, me_workspace_id = mc_workspace_id c, me_kind = mc_kind c,
      me_key = mc_key c, me_value = mc_value c, me_scope = mc_scope c,
      me_source_event_ids = mc_source_event_ids c, me_confidence = mc_confidence c,
      me_revision = (case previous of None \<Rightarrow> 1 | Some (n, _) \<Rightarrow> n + 1),
      me_supersedes = map_option snd previous,
      me_strategy_state = (if mc_kind c = MK_STRATEGY then Some SS_CANDIDATE else None),
      me_support_count = 1, me_support_event_ids = []\<rparr>"

section \<open>The memory methods of the store\<close>

definition memory_to_row :: "memory_record \<Rightarrow> memory_row" where
  "memory_to_row r =
     \<lparr>mr_memory_id = me_memory_id r, mr_workspace_id = me_workspace_id r,
      mr_kind = memory_kind_value (me_kind r), mr_key = me_key r, mr_value_json = me_value r,
      mr_scope = me_scope r, mr_source_event_ids_json = me_source_event_ids r,
      mr_confidence = me_confidence r, mr_revision = me_revision r,
      mr_supersedes = me_supersedes r,
      mr_strategy_state = map_option strategy_state_value (me_strategy_state r),
      mr_support_count = me_support_count r,
      mr_support_event_ids_json = me_support_event_ids r\<rparr>"

definition strategy_column :: "string option \<Rightarrow> exc + strategy_state option" where
  "strategy_column col = (case col of None \<Rightarrow> Inr None
     | Some t \<Rightarrow> if t = [] then Inr None else bindR (strategy_state_of t) (\<lambda>st. Inr (Some st)))"

definition row_to_memory :: "memory_row \<Rightarrow> exc + memory_record" where
  "row_to_memory r =
     bindR (strategy_column (mr_strategy_state r)) (\<lambda>st.
     bindR (memory_kind_of (mr_kind r)) (\<lambda>kd.
       Inr \<lparr>me_memory_id = mr_memory_id r, me_workspace_id = mr_workspace_id r, me_kind = kd,
         me_key = mr_key r, me_value = mr_value_json r, me_scope = mr_scope r,
         me_source_event_ids = mr_source_event_ids_json r, me_confidence = mr_confidence r,
         me_revision = mr_revision r, me_supersedes = mr_supersedes r,
         me_strategy_state = st, me_support_count = mr_support_count r,
         me_support_event_ids = mr_support_event_ids_json r\<rparr>))"

definition load_memory_records :: "db \<Rightarrow> exc + memory_record list" where
  "load_memory_records d =
     mapR row_to_memory
       (sort_key (\<lambda>r. (mr_scope r, mr_key r, mr_kind r, mr_revision r)) (map snd (memory_tbl d)))"

text \<open>The columns of UNIQUE(workspace_id, scope, key, kind, revision), without the revision.\<close>

definition row_group :: "memory_row \<Rightarrow> string \<times> string \<times> string \<times> string" where
  "row_group r = (mr_workspace_id r, mr_scope r, mr_key r, mr_kind r)"

definition revision_taken :: "memory_row \<Rightarrow> db \<Rightarrow> bool" where
  "revision_taken r d \<longleftrightarrow>
     list_ex (\<lambda>q. row_group q = row_group r \<and> mr_revision q = mr_revision r) (map snd (memory_tbl d))"

definition insert_memory_row :: "memory_row \<Rightarrow> db \<Rightarrow> db" where
  "insert_memory_row r d = d\<lparr>memory_tbl := memory_tbl d @ [(mr_memory_id r, r)]\<rparr>"

definition memory_on_conflict :: "memory_row \<Rightarrow> memory_row \<Rightarrow> memory_row" where
  "memory_on_conflict r old = old\<lparr>mr_value_json := mr_value_json r,
     mr_confidence := mr_confidence r, mr_strategy_state := mr_strategy_state r,
     mr_support_count := mr_support_count r,
     mr_support_event_ids_json := mr_support_event_ids_json r\<rparr>"

definition save_memory_record :: "memory_record \<Rightarrow> ('z store_st_scheme, unit) py" where
  "save_memory_record record =
     (let r = memory_to_row record in
      bindE (gets db) (\<lambda>d.
      case map_of (memory_tbl d) (mr_memory_id r) of
        Some old \<Rightarrow> commit_db (\<lambda>d. d\<lparr>memory_tbl :=
          AList.update (mr_memory_id r) (memory_on_conflict r old) (memory_tbl d)\<rparr>)
      | None \<Rightarrow> thenE
          (raise_if (revision_taken r d) (IntegrityError ''UNIQUE constraint failed: memory_records''))
          (commit_db (insert_memory_row r))))"

definition advance_consumer_in_transaction ::
  "string \<Rightarrow> string \<Rightarrow> int \<Rightarrow> string \<Rightarrow> string option \<Rightarrow> db \<Rightarrow> db" where
  "advance_consumer_in_transaction consumer_id event_id sequence status result_ref d =
     d\<lparr>receipts_tbl := (case map_of (receipts_tbl d) (consumer_id, event_id) of
           None \<Rightarrow> receipts_tbl d @ [((consumer_id, event_id),
             \<lparr>rr_sequence = sequence, rr_status = status, rr_result_ref = result_ref\<rparr>)]
         | Some _ \<Rightarrow> receipts_tbl d),
       cursors_tbl := AList.update consumer_id
         (case map_of (cursors_tbl d) consumer_id of
            None \<Rightarrow> sequence
          | Some n \<Rightarrow> if sequence > n then sequence else n)
         (cursors_tbl d)\<rparr>"

text \<open>\<^verbatim>\<open>\<dots> ORDER BY revision DESC LIMIT 1\<close>\<close>

definition latest_row :: "string \<times> string \<times> string \<times> string \<Rightarrow> db \<Rightarrow> memory_row option" where
  "latest_row g d =
     (case sort_key (\<lambda>r. - mr_revision r) (filter (\<lambda>r. row_group r = g) (map snd (memory_tbl d))) of
        [] \<Rightarrow> None | r # _ \<Rightarrow> Some r)"

definition replayed :: "receipt_row \<Rightarrow> db \<Rightarrow> exc + memory_record option" where
  "replayed receipt d =
     (case rr_result_ref receipt of
        None \<Rightarrow> Inr None
      | Some ref \<Rightarrow>
          if ref = [] then Inr None
          else (case map_of (memory_tbl d) ref of
             None \<Rightarrow> Inr None
           | Some row \<Rightarrow> bindR (row_to_memory row) (\<lambda>r. Inr (Some r))))"

definition process_memory_event ::
  "event \<Rightarrow> memory_candidate option \<Rightarrow> ('z store_st_scheme, memory_record option) py" where
  "process_memory_event event candidate =
     bindE (gets db) (\<lambda>d.
     case map_of (receipts_tbl d) (''memory'', ev_event_id event) of
       Some receipt \<Rightarrow> of_result (replayed receipt d)
     | None \<Rightarrow>
       (case candidate of
          None \<Rightarrow> thenE
            (commit_db (advance_consumer_in_transaction ''memory'' (ev_event_id event)
               (ev_sequence event) ''ignored'' None))
            (ret None)
        | Some c \<Rightarrow>
          bindE (ret (latest_row (mc_workspace_id c, mc_scope c, mc_key c,
             memory_kind_value (mc_kind c)) d)) (\<lambda>previous.
          bindE (new_id ''mem'') (\<lambda>mid.
          bindE (ret (new_record mid c
             (map_option (\<lambda>r. (mr_revision r, mr_memory_id r)) previous))) (\<lambda>record.
          thenE (raise_if (map_of (memory_tbl d) mid \<noteq> None)
             (IntegrityError ''UNIQUE constraint failed: memory_records.memory_id''))
          (thenE (raise_if (revision_taken (memory_to_row record) d)
             (IntegrityError ''UNIQUE constraint failed: memory_records''))
          (thenE (commit_db (\<lambda>d. advance_consumer_in_transaction ''memory'' (ev_event_id event)
             (ev_sequence event) ''committed'' (Some mid)
             (insert_memory_row (memory_to_row record) d)))
          (ret (Some record)))))))))"

section \<open>The memory store\<close>

definition note_latest :: "memory_record \<Rightarrow> memory_store \<Rightarrow> memory_store" where
  "note_latest r m = m\<lparr>ms_latest_by_key := AList.update (record_key r) (me_memory_id r) (ms_latest_by_key m)\<rparr>"

definition note_record :: "memory_record \<Rightarrow> memory_store \<Rightarrow> memory_store" where
  "note_record r m = m\<lparr>ms_records := AList.update (me_memory_id r) r (ms_records m)\<rparr>"

text \<open>\<^verbatim>\<open>self.records.get(id) if id else None\<close>\<close>

definition latest_for :: "memory_key \<Rightarrow> memory_store \<Rightarrow> memory_record option" where
  "latest_for key m =
     (case map_of (ms_latest_by_key m) key of
        None \<Rightarrow> None
      | Some mid \<Rightarrow> if mid = [] then None else map_of (ms_records m) mid)"

definition load_record :: "memory_record \<Rightarrow> memory_store \<Rightarrow> memory_store" where
  "load_record r m =
     (let m1 = note_record r m in
      case latest_for (record_key r) m1 of
        None \<Rightarrow> note_latest r m1
      | Some current \<Rightarrow> if me_revision r > me_revision current then note_latest r m1 else m1)"

definition from_persistence :: "db \<Rightarrow> exc + memory_store" where
  "from_persistence d =
     bindR (load_memory_records d) (\<lambda>records. Inr (fold load_record records empty_memory))"

definition validate_candidate :: "memory_candidate \<Rightarrow> bool" where
  "validate_candidate c \<longleftrightarrow>
     mc_source_event_ids c \<noteq> [] \<and> mc_workspace_id c \<noteq> []
     \<and> 0 \<le> mc_confidence c \<and> mc_confidence c \<le> 1
     \<and> \<not> (mc_scope c = ''global'' \<and> \<not> mc_explicit_user_statement c)"

definition partitioned :: "memory_candidate \<Rightarrow> memory_candidate" where
  "partitioned c = c\<lparr>mc_workspace_id := memory_partition (mc_workspace_id c) (mc_scope c)\<rparr>"

text \<open>The two ends of \<open>commit\<close>: through the store, and in the process alone.\<close>

definition commit_persistent :: "event \<Rightarrow> memory_candidate \<Rightarrow> ('z memory_st_scheme, memory_record option) py" where
  "commit_persistent event c =
     bindE (process_memory_event event (Some c)) (\<lambda>record.
     case record of
       None \<Rightarrow> ret None
     | Some r \<Rightarrow> thenE (modify (\<lambda>s. s\<lparr>memory := note_latest r (note_record r (memory s))\<rparr>)) (ret (Some r)))"

definition commit_mem :: "memory_candidate \<Rightarrow> ('z memory_st_scheme, memory_record option) py" where
  "commit_mem c =
     bindE (gets (\<lambda>s. latest_for (candidate_key c) (memory s))) (\<lambda>previous.
     bindE (new_id ''mem'') (\<lambda>mid.
     bindE (ret (new_record mid c (map_option (\<lambda>r. (me_revision r, me_memory_id r)) previous))) (\<lambda>r.
     thenE (modify (\<lambda>s. s\<lparr>memory := note_latest r (note_record r (memory s))\<rparr>)) (ret (Some r)))))"

definition commit :: "memory_candidate \<Rightarrow> event option \<Rightarrow> ('z memory_st_scheme, memory_record option) py" where
  "commit candidate source_event =
     (if \<not> validate_candidate candidate then ret None
      else bindE (gets memory_durable) (\<lambda>durable.
        case source_event of
          Some event \<Rightarrow> if durable then commit_persistent event (partitioned candidate)
                        else commit_mem (partitioned candidate)
        | None \<Rightarrow> commit_mem (partitioned candidate)))"

definition process_ignored_event :: "event \<Rightarrow> ('z memory_st_scheme, unit) py" where
  "process_ignored_event event =
     bindE (gets memory_durable) (\<lambda>durable.
     if durable then thenE (process_memory_event event None) (ret ())
     else modify (\<lambda>s. s\<lparr>memory := (memory s)\<lparr>ms_processed_event_ids :=
       finsert (ev_event_id event) (ms_processed_event_ids (memory s))\<rparr>\<rparr>))"

definition promoted :: "bool \<Rightarrow> memory_record \<Rightarrow> memory_record" where
  "promoted user_confirmed r =
     (if user_confirmed \<or> me_support_count r \<ge> 3 then r\<lparr>me_strategy_state := Some SS_PROMOTED\<rparr>
      else if me_support_count r \<ge> 2 then r\<lparr>me_strategy_state := Some SS_SUPPORTED\<rparr>
      else r)"

definition add_strategy_support ::
  "string \<Rightarrow> string option \<Rightarrow> bool \<Rightarrow> ('z memory_st_scheme, memory_record) py" where
  "add_strategy_support memory_id evidence_event_id user_confirmed =
     bindE (gets (\<lambda>s. map_of (ms_records (memory s)) memory_id)) (\<lambda>found.
     bindE (of_option (KeyError memory_id) found) (\<lambda>record.
     thenE (raise_if (me_kind record \<noteq> MK_STRATEGY) (ValueError ''not a strategy memory''))
     (bindE
       (case evidence_event_id of
          Some eid \<Rightarrow>
            ret (if eid \<notin> set (me_support_event_ids record)
                 then record\<lparr>me_support_event_ids := me_support_event_ids record @ [eid],
                   me_support_count := me_support_count record + 1\<rparr>
                 else record)
        | None \<Rightarrow> thenE
            (raise_if (\<not> user_confirmed)
              (ValueError ''strategy support requires evidence_event_id or user confirmation''))
            (ret record))
       (\<lambda>counted.
     bindE (ret (promoted user_confirmed counted)) (\<lambda>r.
     thenE (modify (\<lambda>s. s\<lparr>memory := (memory s)\<lparr>ms_records :=
         AList.update memory_id r (ms_records (memory s))\<rparr>\<rparr>))
     (bindE (gets memory_durable) (\<lambda>durable.
     thenE (whenE durable (save_memory_record r)) (ret r))))))))"

definition latest :: "string \<Rightarrow> string \<Rightarrow> string \<Rightarrow> memory_kind \<Rightarrow> memory_store \<Rightarrow> memory_record option" where
  "latest workspace_id scope key kind m =
     latest_for (memory_partition workspace_id scope, scope, key, kind) m"

section \<open>The pipeline\<close>

definition required_field :: "dict \<Rightarrow> string \<Rightarrow> exc + json" where
  "required_field d k = (case map_of d k of None \<Rightarrow> Inl (KeyError k) | Some v \<Rightarrow> Inr v)"

definition candidate_fields ::
  "(pyfloat \<Rightarrow> string) \<Rightarrow> dict \<Rightarrow> exc + memory_kind \<times> string \<times> string \<times> pyfloat" where
  "candidate_fields float_repr payload =
     bindR (bindR (required_field payload ''kind'') (py_str float_repr)) (\<lambda>kt.
     bindR (memory_kind_of kt) (\<lambda>kind.
     bindR (bindR (required_field payload ''key'') (py_str float_repr)) (\<lambda>key.
     bindR (bindR (required_field payload ''scope'') (py_str float_repr)) (\<lambda>scope.
     bindR (py_float (dict_get_or payload ''confidence'' (JFloat 1))) (\<lambda>confidence.
       Inr (kind, key, scope, confidence))))))"

text \<open>\<^verbatim>\<open>except (KeyError, TypeError, ValueError)\<close>\<close>

fun malformed :: "exc \<Rightarrow> bool" where
  "malformed (KeyError _) = True"
| "malformed (TypeError _) = True"
| "malformed (ValueError _) = True"
| "malformed _ = False"

definition candidate_from_event :: "(pyfloat \<Rightarrow> string) \<Rightarrow> event \<Rightarrow> exc + memory_candidate option" where
  "candidate_from_event float_repr event =
     (if ev_event_type event \<noteq> ''memory.candidate'' \<or> \<not> ev_learning_allowed event then Inr None
      else (case candidate_fields float_repr (ev_payload event) of
          Inl e \<Rightarrow> if malformed e then Inr None else Inl e
        | Inr (kind, key, scope, confidence) \<Rightarrow>
            if key = [] \<or> scope = [] then Inr None
            else Inr (Some
              \<lparr>mc_workspace_id = ev_workspace_id event, mc_kind = kind, mc_key = key,
               mc_value = dict_get (ev_payload event) ''value'', mc_scope = scope,
               mc_source_event_ids = [ev_event_id event], mc_confidence = confidence,
               mc_explicit_user_statement =
                 truthy (dict_get_or (ev_payload event) ''explicit_user_statement'' (JBool False))
                 \<and> ev_actor event = ''user''\<rparr>)))"

text \<open>The body of the loop; the result says whether the event was committed.\<close>

definition consume_event :: "(pyfloat \<Rightarrow> string) \<Rightarrow> string \<Rightarrow> event \<Rightarrow> ('z memory_st_scheme, bool) py" where
  "consume_event float_repr consumer_id event =
     bindE (of_result (candidate_from_event float_repr event)) (\<lambda>candidate.
     bindE
       (case candidate of
          None \<Rightarrow> thenE (process_ignored_event event) (ret False)
        | Some c \<Rightarrow> bindE (commit c (Some event)) (\<lambda>record.
            case record of
              None \<Rightarrow> thenE (process_ignored_event event) (ret False)
            | Some _ \<Rightarrow> ret True))
       (\<lambda>committed. thenE (ack consumer_id (ev_sequence event)) (ret committed)))"

record pipeline_counts =
  scanned :: int
  committed :: int
  ignored :: int

definition run_once :: "(pyfloat \<Rightarrow> string) \<Rightarrow> string \<Rightarrow> int \<Rightarrow> ('z memory_st_scheme, pipeline_counts) py" where
  "run_once float_repr consumer_id limit =
     bindE (gets (\<lambda>s. py_take limit (read_after consumer_id s))) (\<lambda>events.
     bindE (mapE (consume_event float_repr consumer_id) events) (\<lambda>outcomes.
     ret \<lparr>scanned = int (length outcomes), committed = int (length (filter id outcomes)),
       ignored = int (length (filter Not outcomes))\<rparr>))"

section \<open>The table is a chain of revisions per key\<close>

lemma row_to_memory_to_row [simp]: "row_to_memory (memory_to_row r) = Inr r"
  by (simp add: row_to_memory_def memory_to_row_def strategy_column_def split: option.splits)

definition row_entry :: "memory_record \<Rightarrow> string \<times> memory_row" where
  "row_entry r = (me_memory_id r, memory_to_row r)"

lemma row_entry_simps [simp]:
  "fst (row_entry r) = me_memory_id r" "snd (row_entry r) = memory_to_row r"
  "mr_memory_id (memory_to_row r) = me_memory_id r" "mr_revision (memory_to_row r) = me_revision r"
  by (simp_all add: row_entry_def memory_to_row_def)

lemma row_group_to_row [simp]:
  "row_group (memory_to_row r) = row_group (memory_to_row q) \<longleftrightarrow> record_key r = record_key q"
  by (auto simp: row_group_def memory_to_row_def record_key_def)

definition key_group :: "memory_key \<Rightarrow> string \<times> string \<times> string \<times> string" where
  "key_group k = (case k of (w, sc, ky, kd) \<Rightarrow> (w, sc, ky, memory_kind_value kd))"

lemma row_group_key: "row_group (memory_to_row r) = key_group k \<longleftrightarrow> record_key r = k"
  by (auto simp: row_group_def memory_to_row_def record_key_def key_group_def split: prod.splits)

text \<open>The records of one key, in the order of their commits.\<close>

definition revisions_of :: "memory_key \<Rightarrow> memory_record list \<Rightarrow> memory_record list" where
  "revisions_of k rs = filter (\<lambda>r. record_key r = k) rs"

text \<open>What each of them supersedes: nothing, then the one before it.\<close>

definition links :: "memory_record list \<Rightarrow> string option list" where
  "links rs = take (length rs) (None # map (Some \<circ> me_memory_id) rs)"

definition chain :: "memory_record list \<Rightarrow> bool" where
  "chain rs \<longleftrightarrow> distinct (map me_memory_id rs)
     \<and> (\<forall>k. map me_revision (revisions_of k rs) = [1..int (length (revisions_of k rs))]
          \<and> map me_supersedes (revisions_of k rs) = links (revisions_of k rs))"

lemma chainD:
  assumes "chain rs"
  shows "distinct (map me_memory_id rs)"
    "map me_revision (revisions_of k rs) = [1..int (length (revisions_of k rs))]"
    "map me_supersedes (revisions_of k rs) = links (revisions_of k rs)"
  using assms unfolding chain_def by blast+

lemma chain_Nil [simp]: "chain []"
  by (simp add: chain_def revisions_of_def links_def)

lemma revisions_of_snoc [simp]:
  "revisions_of k (rs @ [r]) = revisions_of k rs @ (if record_key r = k then [r] else [])"
  by (simp add: revisions_of_def)

lemma links_snoc:
  "links (rs @ [r]) = links rs @ [if rs = [] then None else Some (me_memory_id (last rs))]"
  by (cases rs rule: rev_cases) (simp_all add: links_def)

definition previous_of :: "memory_record list \<Rightarrow> (int \<times> string) option" where
  "previous_of rs = (if rs = [] then None else Some (me_revision (last rs), me_memory_id (last rs)))"

lemma chain_last_revision:
  assumes "chain rs" and "revisions_of k rs \<noteq> []"
  shows "me_revision (last (revisions_of k rs)) = int (length (revisions_of k rs))"
proof -
  have "me_revision (last (revisions_of k rs)) = last (map me_revision (revisions_of k rs))"
    using assms(2) by (simp add: last_map)
  also have "\<dots> = last [1..int (length (revisions_of k rs))]"
    by (simp only: chainD(2)[OF assms(1)])
  also have "\<dots> = int (length (revisions_of k rs))"
    using assms(2) by (subst upto_rec2) (auto simp: Suc_le_eq)
  finally show ?thesis .
qed

lemma chain_snoc:
  assumes "chain rs" and "mid \<notin> set (map me_memory_id rs)"
  shows "chain (rs @ [new_record mid c (previous_of (revisions_of (candidate_key c) rs))])"
proof -
  let ?g = "revisions_of (candidate_key c) rs"
  let ?r = "new_record mid c (previous_of ?g)"
  have key: "record_key ?r = candidate_key c" "me_memory_id ?r = mid"
    by (simp_all add: record_key_def candidate_key_def new_record_def)
  have rev: "me_revision ?r = int (length ?g) + 1"
    using chain_last_revision[OF assms(1), of "candidate_key c"]
    by (simp add: new_record_def previous_of_def)
  have sup: "me_supersedes ?r = (if ?g = [] then None else Some (me_memory_id (last ?g)))"
    by (simp add: new_record_def previous_of_def)
  have "[1..int (length ?g) + 1] = [1..int (length ?g)] @ [int (length ?g) + 1]"
    by (simp add: upto_rec2)
  then show ?thesis
    using assms rev sup key by (auto simp: chain_def links_snoc)
qed

text \<open>Changing records without touching identity, key, revision and link.\<close>

definition same_place :: "memory_record \<Rightarrow> memory_record \<Rightarrow> bool" where
  "same_place r q \<longleftrightarrow> me_memory_id r = me_memory_id q \<and> record_key r = record_key q
     \<and> me_revision r = me_revision q \<and> me_supersedes r = me_supersedes q
     \<and> me_source_event_ids r = me_source_event_ids q"

lemma same_place_refl [simp]: "same_place r r"
  by (simp add: same_place_def)

lemma revisions_same_place:
  assumes "list_all2 same_place rs qs"
  shows "list_all2 same_place (revisions_of k rs) (revisions_of k qs)"
  using assms by (induction rule: list_all2_induct) (auto simp: revisions_of_def same_place_def)

lemma same_place_maps:
  assumes "list_all2 same_place rs qs"
  shows "map me_memory_id rs = map me_memory_id qs" "map me_revision rs = map me_revision qs"
    "map me_supersedes rs = map me_supersedes qs" "length rs = length qs"
  using assms by (induction rule: list_all2_induct) (auto simp: same_place_def)

lemma chain_same_place:
  assumes "list_all2 same_place rs qs" and "chain rs"
  shows "chain qs"
proof -
  have "map me_revision (revisions_of k qs) = [1..int (length (revisions_of k qs))]
      \<and> map me_supersedes (revisions_of k qs) = links (revisions_of k qs)" for k
  proof -
    note * = same_place_maps[OF revisions_same_place[OF assms(1), of k]]
    have "links (revisions_of k qs) = links (revisions_of k rs)"
      using *(1,4) unfolding links_def map_map[symmetric] by simp
    then show ?thesis using * chainD(2,3)[OF assms(2), of k] by simp
  qed
  then show ?thesis
    using same_place_maps(1)[OF assms(1)] chainD(1)[OF assms(2)] by (simp add: chain_def)
qed

text \<open>The last record of a chain is what the query for the previous revision finds.\<close>

lemma chain_sorted:
  assumes "chain rs"
  shows "sort_key (\<lambda>r. - me_revision r) (revisions_of k rs) = List.rev (revisions_of k rs)"
proof (rule sort_key_inj_key_eq)
  let ?g = "revisions_of k rs"
  have m: "map me_revision ?g = [1..int (length ?g)]"
    by (rule chainD(2)[OF assms])
  then have "distinct (map me_revision ?g)" by (metis distinct_upto)
  then show "inj_on (\<lambda>r. - me_revision r) (set ?g)"
    by (auto simp: distinct_map inj_on_def)
  have "sorted (map me_revision ?g)" unfolding m by simp
  then show "sorted (map (\<lambda>r. - me_revision r) (List.rev ?g))"
    by (simp add: sorted_wrt_map sorted_wrt_rev)
qed simp

definition represents_memory :: "memory_record list \<Rightarrow> db \<Rightarrow> bool" where
  "represents_memory rs d \<longleftrightarrow> memory_tbl d = map row_entry rs \<and> chain rs"

lemma latest_row_chain:
  assumes "represents_memory rs d"
  shows "map_option (\<lambda>r. (mr_revision r, mr_memory_id r)) (latest_row (key_group k) d) =
    previous_of (revisions_of k rs)"
proof -
  have "filter (\<lambda>r. row_group r = key_group k) (map snd (memory_tbl d)) =
      map memory_to_row (revisions_of k rs)"
    using assms by (simp add: represents_memory_def revisions_of_def filter_map comp_def row_group_key)
  then have "latest_row (key_group k) d =
      (case sort_key (\<lambda>r. - mr_revision r) (map memory_to_row (revisions_of k rs)) of
         [] \<Rightarrow> None | r # _ \<Rightarrow> Some r)"
    by (simp add: latest_row_def)
  also have "sort_key (\<lambda>r. - mr_revision r) (map memory_to_row (revisions_of k rs)) =
      map memory_to_row (List.rev (revisions_of k rs))"
    using assms chain_sorted[of rs k] by (simp add: sort_key_map comp_def represents_memory_def)
  finally show ?thesis
    by (cases "revisions_of k rs" rule: rev_cases) (simp_all add: previous_of_def)
qed
section \<open>Runs keep the chain\<close>

definition mem_drawn :: "'z host_st_scheme \<Rightarrow> string \<Rightarrow> bool" where
  "mem_drawn s mid \<longleftrightarrow> (\<exists>i < ids_drawn s. mid = ''mem_'' @ hex_supply s i)"

lemma mem_drawn_mono:
  "mem_drawn s mid \<Longrightarrow> hex_supply s' = hex_supply s \<Longrightarrow> ids_drawn s \<le> ids_drawn s' \<Longrightarrow> mem_drawn s' mid"
  unfolding mem_drawn_def by (auto intro: less_le_trans)

text \<open>
  The records \<open>rs\<close> of the table; a record the process holds under an identifier of the
  table is the record of the table. The process may hold others: those committed without an
  event never reach the table.
\<close>

definition memory_view :: "memory_record list \<Rightarrow> 'z memory_st_scheme \<Rightarrow> bool" where
  "memory_view rs s \<longleftrightarrow> represents_memory rs (db s)
     \<and> (\<forall>r \<in> set rs. mem_drawn s (me_memory_id r))
     \<and> (\<forall>k r. map_of (ms_records (memory s)) k = Some r \<longrightarrow> me_memory_id r = k \<and> mem_drawn s k
          \<and> (k \<in> set (map me_memory_id rs) \<longrightarrow> r \<in> set rs))"

definition grows :: "memory_record list \<Rightarrow> memory_record list \<Rightarrow> bool" where
  "grows rs rs' \<longleftrightarrow> (\<exists>qs new. rs' = qs @ new \<and> list_all2 same_place rs qs)"

lemma same_place_trans: "same_place a b \<Longrightarrow> same_place b c \<Longrightarrow> same_place a c"
  by (simp add: same_place_def)

lemma grows_refl [simp]: "grows rs rs"
  unfolding grows_def by (rule exI[of _ rs]) (simp add: list.rel_refl)

lemma grows_snoc: "grows rs (rs @ new)"
  unfolding grows_def by (rule exI[of _ rs]) (simp add: list.rel_refl)

lemma grows_trans:
  assumes "grows a b" and "grows b c"
  shows "grows a c"
proof -
  obtain qs new where 1: "b = qs @ new" "list_all2 same_place a qs"
    using assms(1) by (auto simp: grows_def)
  obtain ps qs' new' where 2: "c = (ps @ qs') @ new'" "list_all2 same_place qs ps"
    using assms(2) 1(1) by (auto simp: grows_def list_all2_append1)
  have "list_all2 same_place a ps"
    using list_all2_trans[OF _ 1(2) 2(2), of same_place] same_place_trans by blast
  with 2(1) show ?thesis
    unfolding grows_def by (intro exI[of _ ps] exI[of _ "qs' @ new'"]) simp
qed

lemma map_of_row_entry:
  "distinct (map me_memory_id rs) \<Longrightarrow> r \<in> set rs \<Longrightarrow>
    map_of (map row_entry rs) (me_memory_id r) = Some (memory_to_row r)"
  by (rule map_of_is_SomeI) (auto simp: row_entry_def comp_def image_iff)

lemma map_of_row_entryD:
  "map_of (map row_entry rs) k = Some row \<Longrightarrow> \<exists>r \<in> set rs. me_memory_id r = k \<and> row = memory_to_row r"
  by (induction rs) (auto simp: row_entry_def split: if_splits)

lemma map_of_row_entry_None:
  "map_of (map row_entry rs) k = None \<longleftrightarrow> k \<notin> set (map me_memory_id rs)"
  by (induction rs) (auto simp: row_entry_def)

lemma fresh_memory_id:
  assumes "memory_view rs s" and "inj (hex_supply s)"
  shows "''mem_'' @ hex_supply s (ids_drawn s) \<notin> set (map me_memory_id rs)"
  using assms by (auto simp: memory_view_def mem_drawn_def inj_eq)

lemma view_process:
  "memory_view rs s \<Longrightarrow> map_of (ms_records (memory s)) k = Some r \<Longrightarrow> k \<in> set (map me_memory_id rs) \<Longrightarrow> r \<in> set rs"
  by (simp add: memory_view_def)

lemma fresh_process_id:
  assumes "memory_view rs s" and "inj (hex_supply s)"
  shows "map_of (ms_records (memory s)) (''mem_'' @ hex_supply s (ids_drawn s)) = None"
proof (rule ccontr)
  assume "map_of (ms_records (memory s)) (''mem_'' @ hex_supply s (ids_drawn s)) \<noteq> None"
  then have "mem_drawn s (''mem_'' @ hex_supply s (ids_drawn s))"
    using assms(1) unfolding memory_view_def by blast
  with assms(2) show False by (auto simp: mem_drawn_def inj_eq)
qed

lemma revision_free:
  assumes "represents_memory rs d" and "chain (rs @ [r])"
  shows "\<not> revision_taken (memory_to_row r) d"
proof
  assume "revision_taken (memory_to_row r) d"
  then obtain q where q: "q \<in> set rs" "record_key q = record_key r" "me_revision q = me_revision r"
    using assms(1) by (auto simp: revision_taken_def represents_memory_def list_ex_iff)
  let ?k = "record_key r"
  have "map me_revision (revisions_of ?k rs @ [r]) = [1..int (length (revisions_of ?k (rs @ [r])))]"
    using chainD(2)[OF assms(2), of ?k] by simp
  then have "distinct (map me_revision (revisions_of ?k rs @ [r]))" by (metis distinct_upto)
  moreover have "q \<in> set (revisions_of ?k rs)" using q by (simp add: revisions_of_def)
  ultimately show False using q(3) by (auto simp: image_iff)
qed

text \<open>A first delivery with a candidate commits the next revision of its key.\<close>

lemma process_commits:
  fixes s :: "'z memory_st_scheme" and c :: memory_candidate
  assumes view: "memory_view rs s" and inj: "inj (hex_supply s)"
    and new: "map_of (receipts_tbl (db s)) (''memory'', ev_event_id e) = None"
  defines "r \<equiv> new_record (''mem_'' @ hex_supply s (ids_drawn s)) c
      (previous_of (revisions_of (candidate_key c) rs))"
  shows "process_memory_event e (Some c) s = (Inr (Some r),
      s\<lparr>ids_drawn := Suc (ids_drawn s),
        db := advance_consumer_in_transaction ''memory'' (ev_event_id e) (ev_sequence e) ''committed''
          (Some (me_memory_id r)) (insert_memory_row (memory_to_row r) (db s))\<rparr>)"
    and "chain (rs @ [r])"
proof -
  let ?mid = "''mem_'' @ hex_supply s (ids_drawn s)"
  have rep: "represents_memory rs (db s)" using view by (simp add: memory_view_def)
  have id: "me_memory_id r = ?mid" by (simp add: r_def new_record_def)
  show ch: "chain (rs @ [r])"
    unfolding r_def using rep fresh_memory_id[OF view inj]
    by (intro chain_snoc) (simp_all add: represents_memory_def)
  have prev: "map_option (\<lambda>r. (mr_revision r, mr_memory_id r))
      (latest_row (mc_workspace_id c, mc_scope c, mc_key c, memory_kind_value (mc_kind c)) (db s)) =
      previous_of (revisions_of (candidate_key c) rs)"
    using latest_row_chain[OF rep, of "candidate_key c"] by (simp add: key_group_def candidate_key_def)
  have none: "map_of (memory_tbl (db s)) ?mid = None"
    using rep fresh_memory_id[OF view inj] by (simp add: represents_memory_def map_of_row_entry_None)
  show "process_memory_event e (Some c) s = (Inr (Some r),
      s\<lparr>ids_drawn := Suc (ids_drawn s),
        db := advance_consumer_in_transaction ''memory'' (ev_event_id e) (ev_sequence e) ''committed''
          (Some (me_memory_id r)) (insert_memory_row (memory_to_row r) (db s))\<rparr>)"
    using new none revision_free[OF rep ch] prev id
    by (simp add: process_memory_event_def py_simps r_def)
qed

lemma advance_receipts:
  "map_of (receipts_tbl d) k = Some q \<Longrightarrow>
    map_of (receipts_tbl (advance_consumer_in_transaction c eid sq st ref d)) k = Some q"
  by (auto simp: advance_consumer_in_transaction_def map_add_Some_iff split: option.splits)

lemma memory_view_frame:
  assumes "memory_view rs s" and "memory_tbl (db s') = memory_tbl (db s)"
    and "memory s' = memory s" and "hex_supply s' = hex_supply s" and "ids_drawn s \<le> ids_drawn s'"
  shows "memory_view rs s'"
  using assms mem_drawn_mono[of s _ s'] by (auto simp: memory_view_def represents_memory_def)

lemma view_append:
  assumes view: "memory_view rs s" and inj: "inj (hex_supply s)" and "chain (rs @ [r])"
    and id: "me_memory_id r = ''mem_'' @ hex_supply s (ids_drawn s)"
    and "memory_tbl d = memory_tbl (db s) @ [row_entry r]"
  shows "memory_view (rs @ [r]) (s\<lparr>ids_drawn := Suc (ids_drawn s), db := d\<rparr>)" (is "memory_view _ ?s")
proof -
  have old: "mem_drawn ?s k" if "mem_drawn s k" for k
    using that by (auto simp: mem_drawn_def less_Suc_eq)
  have new: "mem_drawn ?s (me_memory_id r)" unfolding mem_drawn_def id by auto
  have keys: "me_memory_id q = k \<and> mem_drawn s k \<and> (k \<in> set (map me_memory_id rs) \<longrightarrow> q \<in> set rs)
      \<and> k \<noteq> me_memory_id r" if "map_of (ms_records (memory s)) k = Some q" for k q
    using view fresh_process_id[OF view inj] that unfolding memory_view_def id by auto
  have "\<forall>q \<in> set rs. mem_drawn s (me_memory_id q)" "memory_tbl (db s) = map row_entry rs"
    using view by (simp_all add: memory_view_def represents_memory_def)
  then show ?thesis
    unfolding memory_view_def using old new keys assms(3,5)
    by (auto simp: represents_memory_def)
qed

lemma process_run:
  fixes s :: "'z memory_st_scheme"
  assumes view: "memory_view rs s" and inj: "inj (hex_supply s)"
  obtains x s' rs' where "process_memory_event e c s = (Inr x, s')" "memory_view rs' s'"
    "grows rs rs'" "\<And>r. x = Some r \<Longrightarrow> r \<in> set rs'"
    "memory s' = memory s" "memory_durable s' = memory_durable s" "hex_supply s' = hex_supply s"
    "\<And>k q. map_of (receipts_tbl (db s)) k = Some q \<Longrightarrow> map_of (receipts_tbl (db s')) k = Some q"
proof (cases "map_of (receipts_tbl (db s)) (''memory'', ev_event_id e)")
  case (Some receipt)
  have "\<exists>x. replayed receipt (db s) = Inr x \<and> (\<forall>r. x = Some r \<longrightarrow> r \<in> set rs)"
    using view by (auto simp: replayed_def memory_view_def represents_memory_def bindR_Inr_iff
        split: option.splits dest!: map_of_row_entryD)
  then obtain x where "replayed receipt (db s) = Inr x" "\<forall>r. x = Some r \<longrightarrow> r \<in> set rs" by blast
  with Some that[of x s rs] view show thesis by (simp add: process_memory_event_def py_simps)
next
  case None
  show thesis
  proof (cases c)
    case None': None
    let ?s = "s\<lparr>db := advance_consumer_in_transaction ''memory'' (ev_event_id e) (ev_sequence e)
        ''ignored'' None (db s)\<rparr>"
    have "memory_view rs ?s"
      by (rule memory_view_frame[OF view]) (simp_all add: advance_consumer_in_transaction_def)
    moreover have "process_memory_event e c s = (Inr None, ?s)"
      using None None' by (simp add: process_memory_event_def py_simps)
    ultimately show thesis
      using that[of None ?s rs] by (simp add: advance_receipts)
  next
    case (Some c')
    note run = process_commits[OF view inj None, where c = c']
    let ?r = "new_record (''mem_'' @ hex_supply s (ids_drawn s)) c'
        (previous_of (revisions_of (candidate_key c') rs))"
    let ?s = "s\<lparr>ids_drawn := Suc (ids_drawn s),
        db := advance_consumer_in_transaction ''memory'' (ev_event_id e) (ev_sequence e) ''committed''
          (Some (me_memory_id ?r)) (insert_memory_row (memory_to_row ?r) (db s))\<rparr>"
    have "memory_view (rs @ [?r]) ?s"
      using view_append[OF view inj run(2)]
      by (simp add: new_record_def advance_consumer_in_transaction_def insert_memory_row_def row_entry_def)
    then show thesis
      using that[of "Some ?r" ?s "rs @ [?r]"] run(1) Some
      by (simp add: grows_snoc advance_receipts insert_memory_row_def)
  qed
qed
text \<open>
  How a durable memory may change: receipts stay, records keep their place, new ones follow.
\<close>

definition evolved :: "'z memory_st_scheme \<Rightarrow> memory_record list \<Rightarrow> 'z memory_st_scheme \<Rightarrow> bool" where
  "evolved s0 rs s \<longleftrightarrow> inj (hex_supply s) \<and> memory_durable s
     \<and> (\<forall>k q. map_of (receipts_tbl (db s0)) k = Some q \<longrightarrow> map_of (receipts_tbl (db s)) k = Some q)
     \<and> (\<exists>rs'. memory_view rs' s \<and> grows rs rs')"

lemma evolved_start: "inj (hex_supply s) \<Longrightarrow> memory_durable s \<Longrightarrow> memory_view rs s \<Longrightarrow> evolved s rs s"
  unfolding evolved_def using grows_refl by blast

lemma evolved_trans: "evolved s0 rs s \<Longrightarrow> (\<And>rs'. memory_view rs' s \<Longrightarrow> evolved s rs' s') \<Longrightarrow> evolved s0 rs s'"
  unfolding evolved_def using grows_trans by blast

lemma keeps_evolvedI:
  assumes "\<And>rs s. inj (hex_supply s) \<Longrightarrow> memory_durable s \<Longrightarrow> memory_view rs s \<Longrightarrow> evolved s rs (snd (m s))"
  shows "keeps (evolved s0 rs) m"
proof (rule keepsI)
  fix s assume ev: "evolved s0 rs s"
  then have "inj (hex_supply s)" "memory_durable s" by (auto simp: evolved_def)
  with ev show "evolved s0 rs (snd (m s))" by (rule_tac evolved_trans[OF ev]) (rule assms)
qed

lemma keeps_evolved_durable:
  assumes "\<And>s. memory_durable s \<Longrightarrow> m s = m' s" and "keeps (evolved s0 rs) m'"
  shows "keeps (evolved s0 rs) m"
proof (rule keepsI)
  fix s assume ev: "evolved s0 rs s"
  then have "memory_durable s" by (simp add: evolved_def)
  with ev show "evolved s0 rs (snd (m s))" using keepsD[OF assms(2) ev] by (simp add: assms(1))
qed

lemma keeps_evolved_process: "keeps (evolved s0 rs) (process_memory_event e c)"
proof (rule keeps_evolvedI)
  fix rs and s :: "'z memory_st_scheme"
  assume "inj (hex_supply s)" "memory_durable s" "memory_view rs s"
  from process_run[OF this(3,1), of e c] this
  show "evolved s rs (snd (process_memory_event e c s))"
    unfolding evolved_def by (metis snd_conv)
qed

lemma keeps_evolved_ignored [wp]: "keeps (evolved s0 rs) (process_ignored_event e)"
  by (rule keeps_evolved_durable[of _ "thenE (process_memory_event e None) (ret ())"])
    (simp add: process_ignored_event_def py_simps, intro wp keeps_evolved_process)

lemma keeps_evolved_commit_persistent: "keeps (evolved s0 rs) (commit_persistent e c)"
proof (rule keeps_evolvedI)
  fix rs and s :: "'z memory_st_scheme"
  assume a: "inj (hex_supply s)" "memory_durable s" "memory_view rs s"
  obtain x s' rs' where run: "process_memory_event e (Some c) s = (Inr x, s')" "memory_view rs' s'"
    "grows rs rs'" "\<And>r. x = Some r \<Longrightarrow> r \<in> set rs'"
    "memory s' = memory s" "memory_durable s' = memory_durable s" "hex_supply s' = hex_supply s"
    "\<And>k q. map_of (receipts_tbl (db s)) k = Some q \<Longrightarrow> map_of (receipts_tbl (db s')) k = Some q"
    using process_run[OF a(3,1)] by metis
  show "evolved s rs (snd (commit_persistent e c s))"
  proof (cases x)
    case None
    with run a show ?thesis by (auto simp: commit_persistent_def py_simps evolved_def)
  next
    case (Some r)
    have "memory_view rs' (s'\<lparr>memory := note_latest r (note_record r (memory s'))\<rparr>)"
      using run(2) run(4)[OF Some]
      by (auto simp: memory_view_def note_latest_def note_record_def mem_drawn_def)
    with run a Some show ?thesis by (auto simp: commit_persistent_def py_simps evolved_def)
  qed
qed

lemma keeps_evolved_commit [wp]: "keeps (evolved s0 rs) (commit c (Some e))"
  by (rule keeps_evolved_durable[of _
        "if validate_candidate c then commit_persistent e (partitioned c) else ret None"])
    (simp add: commit_def py_simps, intro wp keeps_evolved_commit_persistent)

lemma update_row_entry:
  assumes "distinct (map me_memory_id rs)" and "me_memory_id r \<in> set (map me_memory_id rs)"
  shows "AList.update (me_memory_id r) (memory_to_row r) (map row_entry rs) =
    map row_entry (map (\<lambda>q. if me_memory_id q = me_memory_id r then r else q) rs)"
  using assms
proof (induction rs)
  case (Cons q rs)
  show ?case
  proof (cases "me_memory_id q = me_memory_id r")
    case True
    with Cons.prems have "\<forall>p \<in> set rs. me_memory_id p \<noteq> me_memory_id r"
      by (metis distinct.simps(2) image_eqI image_set list.simps(9))
    with True show ?thesis by (simp add: row_entry_def)
  next
    case False
    with Cons show ?thesis by (simp add: row_entry_def)
  qed
qed simp

lemma save_places:
  assumes "represents_memory rs d" and "q \<in> set rs" and "same_place q r"
  shows "list_all2 same_place rs (map (\<lambda>p. if me_memory_id p = me_memory_id r then r else p) rs)"
proof -
  have "p = q" if "p \<in> set rs" "me_memory_id p = me_memory_id r" for p
    using that assms chainD(1) by (auto simp: represents_memory_def same_place_def distinct_map inj_on_def)
  with assms(3) show ?thesis by (auto simp: list_all2_map2 intro!: list.rel_refl_strong)
qed

text \<open>Saving a record over its row changes the row in place.\<close>

lemma save_over_row:
  assumes "represents_memory rs (db s)" and "q \<in> set rs" and "same_place q r"
  shows "\<exists>d. save_memory_record r s = (Inr (), s\<lparr>db := d\<rparr>) \<and> receipts_tbl d = receipts_tbl (db s)
    \<and> represents_memory (map (\<lambda>p. if me_memory_id p = me_memory_id r then r else p) rs) d"
proof -
  have ids: "me_memory_id q = me_memory_id r" "distinct (map me_memory_id rs)"
    using assms by (auto simp: same_place_def represents_memory_def chain_def)
  have "map_of (memory_tbl (db s)) (me_memory_id r) = Some (memory_to_row q)"
    using assms map_of_row_entry[OF ids(2) assms(2)] ids(1) by (simp add: represents_memory_def)
  moreover have "memory_on_conflict (memory_to_row r) (memory_to_row q) = memory_to_row r"
    using assms(3) by (simp add: memory_on_conflict_def memory_to_row_def same_place_def record_key_def)
  ultimately have "save_memory_record r s = (Inr (), s\<lparr>db := (db s)\<lparr>memory_tbl :=
      AList.update (me_memory_id r) (memory_to_row r) (memory_tbl (db s))\<rparr>\<rparr>)"
    by (simp add: save_memory_record_def py_simps Let_def)
  moreover note save_places[OF assms]
  then have "chain (map (\<lambda>p. if me_memory_id p = me_memory_id r then r else p) rs)"
    using assms(1) chain_same_place by (auto simp: represents_memory_def)
  moreover have "me_memory_id r \<in> set (map me_memory_id rs)"
    using assms(2) ids(1) by (metis image_eqI image_set)
  ultimately show ?thesis
    using assms(1) update_row_entry[OF ids(2), of r] by (auto simp: represents_memory_def)
qed
text \<open>A commit without an event stays in the process.\<close>

lemma keeps_evolved_unsourced: "keeps (evolved s0 rs) (commit c None)"
proof (rule keeps_evolvedI)
  fix rs and s :: "'z memory_st_scheme"
  assume a: "inj (hex_supply s)" "memory_durable s" "memory_view rs s"
  show "evolved s rs (snd (commit c None s))"
  proof (cases "validate_candidate c")
    case False
    with evolved_start[OF a] show ?thesis by (simp add: commit_def py_simps)
  next
    case True
    define r where "r = new_record (''mem_'' @ hex_supply s (ids_drawn s)) (partitioned c)
      (map_option (\<lambda>r. (me_revision r, me_memory_id r)) (latest_for (candidate_key (partitioned c)) (memory s)))"
    let ?s = "s\<lparr>ids_drawn := Suc (ids_drawn s), memory := note_latest r (note_record r (memory s))\<rparr>"
    have run: "commit c None s = (Inr (Some r), ?s)"
      using True by (simp add: commit_def commit_mem_def py_simps r_def)
    have id: "me_memory_id r = ''mem_'' @ hex_supply s (ids_drawn s)" by (simp add: r_def new_record_def)
    have drawn: "mem_drawn ?s k" if "mem_drawn s k" for k
      using that by (auto simp: mem_drawn_def less_Suc_eq)
    have "mem_drawn ?s (me_memory_id r)" by (auto simp: mem_drawn_def id)
    then have "memory_view rs ?s"
      using a(3) fresh_memory_id[OF a(3,1)] drawn
      by (auto simp: memory_view_def note_latest_def note_record_def id)
    with a run show ?thesis by (auto simp: evolved_def)
  qed
qed

lemma evolved_support:
  fixes s :: "'z memory_st_scheme"
  assumes a: "inj (hex_supply s)" "memory_durable s" "memory_view rs s"
    and known: "map_of (ms_records (memory s)) mid \<noteq> None \<Longrightarrow> map_of (memory_tbl (db s)) mid \<noteq> None"
  shows "evolved s rs (snd (add_strategy_support mid evid conf s))"
proof (cases "\<exists>q. map_of (ms_records (memory s)) mid = Some q \<and> me_kind q = MK_STRATEGY
      \<and> (evid = None \<longrightarrow> conf)")
    case False
    then have "snd (add_strategy_support mid evid conf s) = s"
      by (auto simp: add_strategy_support_def py_simps split: option.splits)
    with evolved_start[OF a] show ?thesis by simp
  next
    case True
    then obtain q where q: "map_of (ms_records (memory s)) mid = Some q" "me_kind q = MK_STRATEGY"
      "evid = None \<longrightarrow> conf" by blast
    define q' where "q' = (case evid of
          Some eid \<Rightarrow> (if eid \<notin> set (me_support_event_ids q)
                 then q\<lparr>me_support_event_ids := me_support_event_ids q @ [eid],
                   me_support_count := me_support_count q + 1\<rparr> else q)
        | None \<Rightarrow> q)"
    define r where "r = promoted conf q'"
    have place: "same_place q r"
      by (simp add: r_def q'_def promoted_def same_place_def record_key_def split: option.splits)
    have "mid \<in> set (map me_memory_id rs)"
      using known q(1) a(3) map_of_row_entry_None[of rs mid]
      by (auto simp: memory_view_def represents_memory_def)
    then have in_rs: "q \<in> set rs" "me_memory_id q = mid"
      using q(1) a(3) by (auto simp: memory_view_def)
    let ?s = "s\<lparr>memory := (memory s)\<lparr>ms_records := AList.update mid r (ms_records (memory s))\<rparr>\<rparr>"
    let ?rs = "map (\<lambda>p. if me_memory_id p = me_memory_id r then r else p) rs"
    obtain d where d: "save_memory_record r ?s = (Inr (), ?s\<lparr>db := d\<rparr>)"
      "receipts_tbl d = receipts_tbl (db s)" "represents_memory ?rs d"
      using save_over_row[of rs ?s q r] a(3) in_rs place by (auto simp: memory_view_def)
    have "add_strategy_support mid evid conf s = (Inr r, ?s\<lparr>db := d\<rparr>)"
      using q a(2) d(1)
      by (auto simp: add_strategy_support_def py_simps r_def q'_def split: option.splits)
    moreover have "memory_view ?rs (?s\<lparr>db := d\<rparr>)"
    proof -
      have dr: "mem_drawn (?s\<lparr>db := d\<rparr>) (me_memory_id p)" if "p \<in> set rs" for p
        using a(3) that by (auto simp: memory_view_def mem_drawn_def)
      have id: "me_memory_id r = mid" using place in_rs by (simp add: same_place_def)
      have ids: "map me_memory_id ?rs = map me_memory_id rs" by simp
      have r: "r \<in> set ?rs" "mem_drawn (?s\<lparr>db := d\<rparr>) mid"
        using in_rs id dr[OF in_rs(1)] by (auto simp: image_iff)
      have held: "me_memory_id p = k \<and> mem_drawn (?s\<lparr>db := d\<rparr>) k \<and> (k \<in> set (map me_memory_id rs) \<longrightarrow> p \<in> set ?rs)"
        if "map_of (ms_records (memory s)) k = Some p" "k \<noteq> mid" for k p
      proof -
        have p: "me_memory_id p = k" "mem_drawn s k" using a(3) that(1) by (auto simp: memory_view_def)
        then have "p \<in> set ?rs" if "k \<in> set (map me_memory_id rs)"
          using view_process[OF a(3) \<open>map_of _ k = Some p\<close> that] \<open>k \<noteq> mid\<close> id by (auto simp: image_iff)
        with p show ?thesis by (auto simp: mem_drawn_def)
      qed
      have "\<forall>p \<in> set ?rs. mem_drawn (?s\<lparr>db := d\<rparr>) (me_memory_id p)"
        using dr r(2) id by auto
      moreover have "\<forall>k p. map_of (AList.update mid r (ms_records (memory s))) k = Some p \<longrightarrow>
          me_memory_id p = k \<and> mem_drawn (?s\<lparr>db := d\<rparr>) k \<and> (k \<in> set (map me_memory_id ?rs) \<longrightarrow> p \<in> set ?rs)"
        unfolding ids update_conv' using r id held by (auto simp del: set_map split: if_splits)
      moreover have "db (?s\<lparr>db := d\<rparr>) = d"
        "ms_records (memory (?s\<lparr>db := d\<rparr>)) = AList.update mid r (ms_records (memory s))" by simp_all
      ultimately show ?thesis unfolding memory_view_def using d(3) by (simp only: simp_thms)
    qed
    moreover have "grows rs ?rs"
      using place in_rs a(3) save_places[OF _ in_rs(1) place]
      by (auto simp: grows_def memory_view_def represents_memory_def)
    ultimately show ?thesis
      using a d(2) by (auto simp: evolved_def)
qed

text \<open>Everything that does not touch the memory: the frame the log methods leave alone.\<close>

definition memory_frame :: "'z memory_st_scheme \<Rightarrow> 'z memory_st_scheme \<Rightarrow> bool" where
  "memory_frame s0 s \<longleftrightarrow> memory_tbl (db s) = memory_tbl (db s0)
     \<and> receipts_tbl (db s) = receipts_tbl (db s0) \<and> memory s = memory s0
     \<and> memory_durable s = memory_durable s0 \<and> hex_supply s = hex_supply s0
     \<and> ids_drawn s0 \<le> ids_drawn s"

lemma memory_frame_refl [simp]: "memory_frame s s"
  by (simp add: memory_frame_def)

lemma evolved_frame:
  fixes m :: "('z memory_st_scheme, 'a) py"
  assumes "\<And>s1. keeps (memory_frame s1) m"
  shows "keeps (evolved s0 rs) m"
proof (rule keeps_evolvedI)
  fix rs and s :: "'z memory_st_scheme"
  assume a: "inj (hex_supply s)" "memory_durable s" "memory_view rs s"
  have "memory_frame s (snd (m s))" using keepsD[OF assms] by simp
  with a show "evolved s rs (snd (m s))"
    using memory_view_frame[OF a(3), of "snd (m s)"] by (auto simp: evolved_def memory_frame_def)
qed

lemma keeps_frame_commit:
  "(\<And>d. memory_tbl (f d) = memory_tbl d \<and> receipts_tbl (f d) = receipts_tbl d) \<Longrightarrow>
    keeps (memory_frame s1) (commit_db f)"
  by (simp add: keeps_def py_simps memory_frame_def)

lemma keeps_frame_supplies: "keeps (memory_frame s1) (new_id p)" "keeps (memory_frame s1) now"
  by (simp_all add: keeps_def py_simps memory_frame_def)

lemma keeps_frame_events:
  "keeps (memory_frame s1) (modify (\<lambda>s. s\<lparr>mem_outbox := ob s\<rparr>))"
  "keeps (memory_frame s1) (modify (\<lambda>s. s\<lparr>mem_events := es s\<rparr>))"
  "keeps (memory_frame s1) (modify (\<lambda>s. s\<lparr>mem_cursors := cs s\<rparr>))"
  by (simp_all add: keeps_def py_simps memory_frame_def)

lemmas keeps_frame = keeps_frame_commit keeps_frame_supplies keeps_frame_events

lemma keeps_frame_ack: "keeps (memory_frame s1) (ack c n)"
  unfolding ack_def ack_event_consumer_def by (intro wp keeps_frame) simp

lemma keeps_frame_enqueue: "keeps (memory_frame s1) (enqueue_outbox a)"
  unfolding enqueue_outbox_def enqueue_event_outbox_def insert_outbox_def
  by (intro wp keeps_frame) simp

lemma keeps_frame_flush: "keeps (memory_frame s1) flush_outbox"
  unfolding flush_outbox_def dispatch_event_outbox_def dispatch_row_def emit_def
  by (intro wp keeps_frame) (simp_all add: insert_event_def update_outbox_def)

lemmas keeps_evolved_log [wp] = evolved_frame[OF keeps_frame_ack] evolved_frame[OF keeps_frame_enqueue]
  evolved_frame[OF keeps_frame_flush]

lemma keeps_evolved_run_once [wp]: "keeps (evolved s0 rs) (run_once fr c n)"
  unfolding run_once_def consume_event_def by (intro wp)

section \<open>A restart finds the latest revisions\<close>

lemma mapR_rows: "mapR row_to_memory (map memory_to_row xs) = Inr xs"
  by (induction xs) simp_all

lemma load_memory_rows:
  assumes "represents_memory rs d"
  obtains xs where "load_memory_records d = Inr xs" "mset xs = mset rs"
proof -
  let ?f = "\<lambda>r. (mr_scope r, mr_key r, mr_kind r, mr_revision r)"
  let ?xs = "sort_key (?f \<circ> memory_to_row) rs"
  have "load_memory_records d = mapR row_to_memory (map memory_to_row ?xs)"
    using assms by (simp add: load_memory_records_def represents_memory_def comp_def sort_key_map)
  also have "\<dots> = Inr ?xs" by (rule mapR_rows)
  finally show thesis using that by simp
qed

text \<open>A store that holds exactly the records \<open>R\<close>, with the greatest revision of each key latest.\<close>

definition greatest :: "memory_record set \<Rightarrow> memory_key \<Rightarrow> memory_record \<Rightarrow> bool" where
  "greatest R key r \<longleftrightarrow> r \<in> R \<and> record_key r = key
     \<and> (\<forall>q \<in> R. record_key q = key \<longrightarrow> me_revision q \<le> me_revision r)"

definition loaded :: "memory_record set \<Rightarrow> memory_store \<Rightarrow> bool" where
  "loaded R m \<longleftrightarrow>
     (\<forall>k r. map_of (ms_records m) k = Some r \<longleftrightarrow> r \<in> R \<and> me_memory_id r = k)
     \<and> (\<forall>key. case map_of (ms_latest_by_key m) key of
           None \<Rightarrow> \<forall>q \<in> R. record_key q \<noteq> key
         | Some mid \<Rightarrow> \<exists>r. greatest R key r \<and> me_memory_id r = mid)"

lemma loaded_empty: "loaded {} empty_memory"
  by (simp add: loaded_def empty_memory_def)

lemma loadedD:
  assumes "loaded R m"
  shows "map_of (ms_records m) k = Some r \<longleftrightarrow> r \<in> R \<and> me_memory_id r = k"
    "case map_of (ms_latest_by_key m) key of
       None \<Rightarrow> \<forall>q \<in> R. record_key q \<noteq> key
     | Some mid \<Rightarrow> \<exists>r. greatest R key r \<and> me_memory_id r = mid"
  using assms unfolding loaded_def by blast+

lemma loadedI:
  assumes "\<And>k r. map_of (ms_records m) k = Some r \<longleftrightarrow> r \<in> R \<and> me_memory_id r = k"
    and "\<And>key. case map_of (ms_latest_by_key m) key of
       None \<Rightarrow> \<forall>q \<in> R. record_key q \<noteq> key
     | Some mid \<Rightarrow> \<exists>r. greatest R key r \<and> me_memory_id r = mid"
  shows "loaded R m"
  using assms unfolding loaded_def by blast

lemma loaded_latest:
  assumes "loaded R m" and "\<forall>q \<in> R. me_memory_id q \<noteq> []"
  shows "case latest_for key m of None \<Rightarrow> \<forall>q \<in> R. record_key q \<noteq> key | Some r \<Rightarrow> greatest R key r"
proof (cases "map_of (ms_latest_by_key m) key")
  case None
  then show ?thesis using loadedD(2)[OF assms(1), of key] by (simp add: latest_for_def)
next
  case (Some mid)
  then obtain r where r: "greatest R key r" "me_memory_id r = mid"
    using loadedD(2)[OF assms(1), of key] by auto
  then have "map_of (ms_records m) mid = Some r" "mid \<noteq> []"
    using assms(2) loadedD(1)[OF assms(1), of mid r] by (auto simp: greatest_def)
  with Some r show ?thesis by (simp add: latest_for_def)
qed

lemma load_record_loaded:
  assumes "loaded R m" and "\<forall>q \<in> insert r R. me_memory_id q \<noteq> []"
    and "\<forall>q \<in> R. me_memory_id q \<noteq> me_memory_id r"
  shows "loaded (insert r R) (load_record r m)"
proof -
  let ?m = "note_record r m" and ?new = "load_record r m"
  have recs: "map_of (ms_records ?m) k = Some q \<longleftrightarrow> q \<in> insert r R \<and> me_memory_id q = k" for k q
    using assms(1,3) by (auto simp: loaded_def note_record_def)
  have "map_of (ms_latest_by_key m) key \<noteq> Some (me_memory_id r)" for key
    using loadedD(2)[OF assms(1), of key] assms(3) by (auto simp: greatest_def)
  then have "latest_for (record_key r) ?m = latest_for (record_key r) m"
    using assms(1) by (auto simp: latest_for_def note_record_def split: option.splits)
  with loaded_latest[OF assms(1), of "record_key r"] assms(2)
  have cur: "case latest_for (record_key r) ?m of
      None \<Rightarrow> \<forall>q \<in> R. record_key q \<noteq> record_key r | Some c \<Rightarrow> greatest R (record_key r) c"
    by simp
  define keep where "keep = (\<exists>c. latest_for (record_key r) ?m = Some c \<and> me_revision r \<le> me_revision c)"
  have new: "?new = (if keep then ?m else note_latest r ?m)"
    by (auto simp: load_record_def keep_def Let_def split: option.splits)
  have other: "case map_of (ms_latest_by_key m) key of
      None \<Rightarrow> \<forall>q \<in> insert r R. record_key q \<noteq> key
    | Some mid \<Rightarrow> \<exists>q. greatest (insert r R) key q \<and> me_memory_id q = mid" if "key \<noteq> record_key r" for key
    using loadedD(2)[OF assms(1), of key] that
    by (cases "map_of (ms_latest_by_key m) key") (auto simp: greatest_def)
  show ?thesis
  proof (cases keep)
    case True
    then obtain c where c: "latest_for (record_key r) ?m = Some c" "me_revision r \<le> me_revision c"
      by (auto simp: keep_def)
    with cur have "greatest (insert r R) (record_key r) c" by (auto simp: greatest_def)
    moreover have "map_of (ms_latest_by_key m) (record_key r) = Some (me_memory_id c)"
      using c(1) recs by (auto simp: latest_for_def note_record_def split: option.splits if_splits)
    ultimately have "case map_of (ms_latest_by_key m) key of
        None \<Rightarrow> \<forall>q \<in> insert r R. record_key q \<noteq> key
      | Some mid \<Rightarrow> \<exists>q. greatest (insert r R) key q \<and> me_memory_id q = mid" for key
      using other[of key] by (cases "key = record_key r") auto
    with True recs show ?thesis
      unfolding new by (intro loadedI) (simp_all add: note_record_def)
  next
    case False
    with cur have "greatest (insert r R) (record_key r) r"
      by (auto simp: greatest_def keep_def split: option.splits)
    with False recs other show ?thesis
      unfolding new by (intro loadedI) (auto simp: note_record_def note_latest_def)
  qed
qed

lemma fold_load_record:
  assumes "loaded R m" and "distinct (map me_memory_id xs)"
    and "\<forall>q \<in> R. me_memory_id q \<notin> set (map me_memory_id xs)" and "\<forall>q \<in> R \<union> set xs. me_memory_id q \<noteq> []"
  shows "loaded (R \<union> set xs) (fold load_record xs m)"
  using assms
proof (induction xs arbitrary: R m)
  case (Cons x xs)
  have "loaded (insert x R) (load_record x m)"
    using Cons.prems by (intro load_record_loaded) auto
  then have "loaded (insert x R \<union> set xs) (fold load_record xs (load_record x m))"
    using Cons.prems by (intro Cons.IH) auto
  then show ?case by simp
qed simp

lemma from_persistence_loaded:
  assumes "represents_memory rs d" and "\<forall>r \<in> set rs. me_memory_id r \<noteq> []"
  obtains m where "from_persistence d = Inr m" "loaded (set rs) m"
proof -
  obtain xs where xs: "load_memory_records d = Inr xs" "mset xs = mset rs"
    using load_memory_rows[OF assms(1)] .
  have "distinct (map me_memory_id xs)"
    using assms(1) chainD(1)[of rs] mset_eq_imp_distinct_iff[of "map me_memory_id xs" "map me_memory_id rs"] xs(2)
    by (simp add: represents_memory_def)
  then have "loaded ({} \<union> set xs) (fold load_record xs empty_memory)"
    using assms(2) mset_eq_setD[OF xs(2)] by (intro fold_load_record loaded_empty) auto
  with that xs show thesis by (simp add: from_persistence_def mset_eq_setD[OF xs(2)])
qed

lemma loaded_chain_latest:
  assumes "loaded (set rs) m" and "chain rs" and "\<forall>r \<in> set rs. me_memory_id r \<noteq> []"
  shows "latest_for key m =
    (if revisions_of key rs = [] then None else Some (last (revisions_of key rs)))"
proof (cases "revisions_of key rs = []")
  case True
  then have "\<forall>q \<in> set rs. record_key q \<noteq> key" by (simp add: revisions_of_def filter_empty_conv)
  with loaded_latest[OF assms(1,3), of key] True show ?thesis
    by (auto simp: greatest_def split: option.splits)
next
  case False
  let ?g = "revisions_of key rs"
  have g: "set ?g = {r \<in> set rs. record_key r = key}" by (auto simp: revisions_of_def)
  then have "last ?g \<in> set rs" "record_key (last ?g) = key" using last_in_set[OF False] by auto
  with loaded_latest[OF assms(1,3), of key] obtain r where r: "latest_for key m = Some r"
    "greatest (set rs) key r" by (auto split: option.splits)
  have "me_revision r \<in> set (map me_revision ?g)" using r(2) g by (auto simp: greatest_def)
  then have "me_revision r \<le> me_revision (last ?g)"
    unfolding chainD(2)[OF assms(2)] chain_last_revision[OF assms(2) False] by simp
  moreover have "me_revision (last ?g) \<le> me_revision r"
    using r(2) \<open>last ?g \<in> set rs\<close> \<open>record_key (last ?g) = key\<close> by (simp add: greatest_def)
  moreover have "inj_on me_revision (set ?g)"
    using chainD(2)[OF assms(2), of key] by (metis distinct_map distinct_upto)
  ultimately have "r = last ?g"
    using r(2) g last_in_set[OF False] by (auto simp: greatest_def inj_on_def)
  with r(1) False show ?thesis by simp
qed

section \<open>Runs of a durable memory\<close>

text \<open>
  Rounds of the pipeline, commits with and without an event, refused events, strategy supports,
  the log and restarts, exceptions included. The one condition: a support is given to a record
  that the table has. \<^verbatim>\<open>add_strategy_support\<close> of a record that was committed without an
  event inserts it into the table with a revision the table may know nothing of.
\<close>

inductive memory_step :: "'z memory_st_scheme \<Rightarrow> 'z memory_st_scheme \<Rightarrow> bool" where
  pipeline: "memory_step s (snd (run_once fr c n s))"
| commit: "memory_step s (snd (commit cand (Some e) s))"
| unsourced: "memory_step s (snd (commit cand None s))"
| ignored: "memory_step s (snd (process_ignored_event e s))"
| support: "(map_of (ms_records (memory s)) mid \<noteq> None \<Longrightarrow> map_of (memory_tbl (db s)) mid \<noteq> None) \<Longrightarrow>
    memory_step s (snd (add_strategy_support mid evid conf s))"
| publish: "memory_step s (snd (enqueue_outbox a s))"
| flush: "memory_step s (snd (flush_outbox s))"
| restart: "from_persistence (db s) = Inr m \<Longrightarrow> memory_step s (s\<lparr>memory := m\<rparr>)"

lemma view_row:
  assumes "memory_view rs s" and "map_of (ms_records (memory s)) k = Some r"
    and "map_of (memory_tbl (db s)) k = Some row"
  shows "row = memory_to_row r"
proof -
  have rows: "memory_tbl (db s) = map row_entry rs" "distinct (map me_memory_id rs)"
    using assms(1) chainD(1) by (auto simp: memory_view_def represents_memory_def)
  obtain q where q: "q \<in> set rs" "me_memory_id q = k" "row = memory_to_row q"
    using map_of_row_entryD[of rs k row] assms(3) rows(1) by auto
  moreover have "r \<in> set rs" "me_memory_id r = k"
    using view_process[OF assms(1,2)] assms(1,2) q by (auto simp: memory_view_def)
  ultimately have "r = q" using rows(2) by (auto simp: distinct_map inj_on_def)
  with q show ?thesis by simp
qed

lemma view_ids: "memory_view rs s \<Longrightarrow> \<forall>r \<in> set rs. me_memory_id r \<noteq> []"
  by (auto simp: memory_view_def mem_drawn_def)

lemma evolved_restart:
  assumes "evolved s0 rs s" and "from_persistence (db s) = Inr m"
  shows "evolved s0 rs (s\<lparr>memory := m\<rparr>)"
proof (rule evolved_trans[OF assms(1)])
  fix qs assume v: "memory_view qs s"
  then have "loaded (set qs) m"
    using from_persistence_loaded[of qs "db s"] view_ids[OF v] assms(2)
    by (auto simp: memory_view_def)
  then have "memory_view qs (s\<lparr>memory := m\<rparr>)"
    using v by (auto simp: memory_view_def loaded_def mem_drawn_def)
  then show "evolved s qs (s\<lparr>memory := m\<rparr>)"
    using assms(1) by (auto simp: evolved_def)
qed

lemma memory_step_evolved:
  fixes s :: "'z memory_st_scheme"
  shows "memory_step s s' \<Longrightarrow> evolved s0 rs s \<Longrightarrow> evolved s0 rs s'"
proof (induction rule: memory_step.induct)
  case (support s mid evid conf)
  then show ?case
    by (intro evolved_trans[OF support.prems] evolved_support) (auto simp: evolved_def)
qed (auto intro: keepsD keeps_evolved_run_once keeps_evolved_commit keeps_evolved_unsourced
      keeps_evolved_ignored keeps_evolved_log evolved_restart)

lemma memory_steps_evolved: "memory_step\<^sup>*\<^sup>* s s' \<Longrightarrow> evolved s0 rs s \<Longrightarrow> evolved s0 rs s'"
  by (induction rule: rtranclp_induct) (auto intro: memory_step_evolved)

lemma grows_member:
  assumes "grows rs rs'" and "r \<in> set rs"
  obtains q where "q \<in> set rs'" "same_place r q"
proof -
  obtain qs new where g: "rs' = qs @ new" "list_all2 same_place rs qs"
    using assms(1) by (auto simp: grows_def)
  from assms(2) obtain i where "i < length rs" "r = rs ! i" by (auto simp: in_set_conv_nth)
  with g(2) have "same_place r (qs ! i)" "qs ! i \<in> set qs"
    by (auto simp: list_all2_conv_all_nth)
  with g(1) that show thesis by (metis UnI1 set_append)
qed

lemma process_receipt:
  fixes s :: "'z memory_st_scheme"
  assumes "memory_view rs s" and "inj (hex_supply s)" and "process_memory_event e c s = (Inr (Some r), s')"
  shows "\<exists>q. map_of (receipts_tbl (db s')) (''memory'', ev_event_id e) = Some q
    \<and> rr_result_ref q = Some (me_memory_id r)"
proof (cases "map_of (receipts_tbl (db s)) (''memory'', ev_event_id e)")
  case (Some q)
  then have run: "replayed q (db s) = Inr (Some r)" "s' = s"
    using assms(3) by (auto simp: process_memory_event_def py_simps)
  have rows: "memory_tbl (db s) = map row_entry rs"
    using assms(1) by (simp add: memory_view_def represents_memory_def)
  have "rr_result_ref q = Some (me_memory_id r)"
    using run(1) by (auto simp: replayed_def rows bindR_Inr_iff split: option.splits if_splits
        dest!: map_of_row_entryD)
  with Some run(2) show ?thesis by simp
next
  case None
  then obtain c' where c: "c = Some c'"
    using assms(3) by (cases c) (auto simp: process_memory_event_def py_simps)
  from process_commits(1)[OF assms(1,2) None, where c = c'] assms(3) c None show ?thesis
    by (auto simp: advance_consumer_in_transaction_def insert_memory_row_def map_add_Some_iff)
qed

text \<open>What the store returns for an event has its row.\<close>

lemma process_row:
  fixes s :: "'z memory_st_scheme"
  assumes "memory_view rs s" and "inj (hex_supply s)" and "process_memory_event e c s = (Inr (Some r), s')"
  shows "map_of (memory_tbl (db s')) (me_memory_id r) = Some (memory_to_row r)"
proof -
  obtain x s1 rs' where run: "process_memory_event e c s = (Inr x, s1)" "memory_view rs' s1"
    "\<And>r. x = Some r \<Longrightarrow> r \<in> set rs'"
    using process_run[OF assms(1,2), of e c] by metis
  then have "r \<in> set rs'" "memory_view rs' s'" using assms(3) by auto
  then show ?thesis
    using map_of_row_entry[OF chainD(1), of rs' r] by (simp add: memory_view_def represents_memory_def)
qed

text \<open>A record whose receipt is there is found again, and finding it changes nothing.\<close>

lemma redelivery:
  fixes s :: "'z memory_st_scheme"
  assumes "memory_view rs s" and "q \<in> set rs"
    and "map_of (receipts_tbl (db s)) (''memory'', ev_event_id e) = Some t"
    and "rr_result_ref t = Some (me_memory_id q)"
  shows "process_memory_event e c s = (Inr (Some q), s)"
proof -
  have "map_of (memory_tbl (db s)) (me_memory_id q) = Some (memory_to_row q)"
    using assms(1,2) map_of_row_entry[OF chainD(1), of rs q]
    by (simp add: memory_view_def represents_memory_def)
  then show ?thesis
    using assms(3,4) view_ids[OF assms(1)] assms(2)
    by (simp add: process_memory_event_def py_simps replayed_def)
qed

section \<open>The pipeline gets through the log\<close>

lemma process_shape:
  fixes s :: "'z memory_st_scheme"
  assumes "process_memory_event e c s = (Inr x, s')"
  obtains "s' = s" | st ref n d where "ids_drawn s \<le> n" "same_log (db s) d"
    "s' = s\<lparr>ids_drawn := n,
       db := advance_consumer_in_transaction ''memory'' (ev_event_id e) (ev_sequence e) st ref d\<rparr>"
proof (cases "map_of (receipts_tbl (db s)) (''memory'', ev_event_id e)")
  case (Some t)
  with assms that(1) show thesis by (simp add: process_memory_event_def py_simps)
next
  case None
  show thesis
  proof (cases c)
    case None': None
    with assms None that(2)[of "ids_drawn s" "db s"] show thesis
      by (auto simp: process_memory_event_def py_simps same_log_def)
  next
    case (Some c')
    with assms None obtain ref row where "s' = s\<lparr>ids_drawn := Suc (ids_drawn s),
        db := advance_consumer_in_transaction ''memory'' (ev_event_id e) (ev_sequence e) ''committed'' ref
          (insert_memory_row row (db s))\<rparr>"
      by (auto simp: process_memory_event_def py_simps split: if_splits)
    then show thesis
      by (rule that(2)[rotated 2]) (simp_all add: insert_memory_row_def same_log_def)
  qed
qed

lemma store_ok_cursor:
  assumes "store_ok s" and "0 \<le> v" and "v \<le> events_seq (db s)"
  shows "store_ok (s\<lparr>db := (db s)\<lparr>receipts_tbl := q, cursors_tbl := AList.update c v (cursors_tbl (db s))\<rparr>\<rparr>)"
    (is "store_ok ?s")
proof -
  have "log_split ?s dn pd \<longleftrightarrow> log_split s dn pd" for dn pd
    by (simp add: log_split_def drawn_id_def)
  then have "log_inv ?s" using assms(1) by (simp add: store_ok_def log_inv_def)
  moreover have "cursors_ok (db ?s)"
    using assms by (auto simp: store_ok_def cursors_ok_def ran_def split: if_splits)
  ultimately show ?thesis using assms(1) by (simp add: store_ok_def)
qed

text \<open>What handling an event leaves of the log and the cursors.\<close>

definition handled :: "event \<Rightarrow> 'z memory_st_scheme \<Rightarrow> 'z memory_st_scheme \<Rightarrow> bool" where
  "handled e s s' \<longleftrightarrow> facade_ok s' \<and> facade_log s' = facade_log s
     \<and> (\<forall>c. facade_cursor s' c = facade_cursor s c
          \<or> facade_cursor s' c = max (facade_cursor s c) (ev_sequence e))"

lemma handled_refl: "facade_ok s \<Longrightarrow> handled e s s"
  by (simp add: handled_def)

lemma handled_trans: "handled e s s1 \<Longrightarrow> handled e s1 s2 \<Longrightarrow> handled e s s2"
  unfolding handled_def
proof (elim conjE, intro conjI allI)
  fix c
  assume "\<forall>c. facade_cursor s1 c = facade_cursor s c \<or> facade_cursor s1 c = max (facade_cursor s c) (ev_sequence e)"
    and "\<forall>c. facade_cursor s2 c = facade_cursor s1 c \<or> facade_cursor s2 c = max (facade_cursor s1 c) (ev_sequence e)"
  from spec[OF this(1), of c] spec[OF this(2), of c]
  show "facade_cursor s2 c = facade_cursor s c \<or> facade_cursor s2 c = max (facade_cursor s c) (ev_sequence e)"
    by (auto simp: max_def)
qed simp_all

lemma handled_memory: "handled e s (s'\<lparr>memory := m\<rparr>) \<longleftrightarrow> handled e s s'"
  by (simp add: handled_def facade_ok_def facade_log_def facade_cursor_def mem_ok_def mem_cursor_def
      store_ok_def log_inv_def log_split_def drawn_id_def cursors_ok_def)

lemma logged_sequence:
  assumes "facade_ok s" and "e \<in> set (facade_log s)"
  shows "1 \<le> ev_sequence e \<and> ev_sequence e \<le> int (length (facade_log s))"
proof -
  have "ev_sequence e \<in> set (map ev_sequence (facade_log s))" using assms(2) by simp
  then show ?thesis unfolding facade.log_numbered[OF assms(1)] by simp
qed

lemma process_handled:
  fixes s :: "'z memory_st_scheme"
  assumes "process_memory_event e c s = (Inr x, s')" and "facade_ok s" and "e \<in> set (facade_log s)"
  shows "handled e s s'"
  using assms(1)
proof (cases rule: process_shape)
  case 1
  with assms(2) show ?thesis by (simp add: handled_refl)
next
  case (2 st ref n d)
  show ?thesis
  proof (cases "events_durable s")
    case False
    with 2 assms(2) show ?thesis
      by (simp add: handled_def facade_ok_def facade_log_def facade_cursor_def mem_ok_def mem_cursor_def)
  next
    case True
    let ?s = "s\<lparr>ids_drawn := n, db := d\<rparr>"
    have ok: "store_ok s" using True assms(2) by (simp add: facade_ok_def)
    have ok1: "store_ok ?s" by (rule store_ok_mono[OF ok]) (simp_all add: 2)
    have len: "int (length (facade_log s)) = events_seq d"
    proof -
      have "events_seq (db s) = int (length (events_tbl (db s)))" using ok by (rule log_prefix)
      with True 2(2) show ?thesis by (simp add: facade_log_def same_log_def)
    qed
    let ?v = "case map_of (cursors_tbl d) ''memory'' of None \<Rightarrow> ev_sequence e
        | Some m \<Rightarrow> if ev_sequence e > m then ev_sequence e else m"
    have "0 \<le> ?v" "?v \<le> events_seq d"
      using logged_sequence[OF assms(2,3)] len ok1
      by (auto simp: store_ok_def cursors_ok_def ran_def split: option.splits)
    then have "store_ok s'"
      using store_ok_cursor[OF ok1] by (simp add: 2(3) advance_consumer_in_transaction_def)
    then show ?thesis
      using True 2(2) logged_sequence[OF assms(2,3)]
      by (auto simp: handled_def facade_ok_def facade_log_def facade_cursor_def 2(3) same_log_def
          advance_consumer_in_transaction_def cursor_of_def split: option.splits)
  qed
qed

definition memory_ok :: "'z memory_st_scheme \<Rightarrow> bool" where
  "memory_ok s \<longleftrightarrow> inj (hex_supply s)
     \<and> (\<forall>k r. map_of (ms_records (memory s)) k = Some r \<longrightarrow> mem_drawn s k)
     \<and> (memory_durable s \<longrightarrow> (\<exists>rs. memory_view rs s))"

lemma memory_okI: "inj (hex_supply s) \<Longrightarrow> memory_view rs s \<Longrightarrow> memory_ok s"
  by (auto simp: memory_ok_def memory_view_def)

lemma memory_ok_frame: "memory_ok s \<Longrightarrow> memory_frame s s' \<Longrightarrow> memory_ok s'"
  using memory_view_frame[of _ s s'] mem_drawn_mono[of s _ s']
  by (auto simp: memory_ok_def memory_frame_def)

text \<open>
  A candidate is recorded when the process, and the table where there is one, hold a record
  with its partition, scope, key, kind, value and source. An event is new to the memory as long
  as the table has no receipt for it.
\<close>

definition recorded :: "memory_candidate \<Rightarrow> 'z memory_st_scheme \<Rightarrow> bool" where
  "recorded c s \<longleftrightarrow> (\<exists>r. map_of (ms_records (memory s)) (me_memory_id r) = Some r
     \<and> record_key r = candidate_key (partitioned c) \<and> me_value r = mc_value c
     \<and> me_source_event_ids r = mc_source_event_ids c
     \<and> (memory_durable s \<longrightarrow> map_of (memory_tbl (db s)) (me_memory_id r) = Some (memory_to_row r)))"

definition new_event :: "'z memory_st_scheme \<Rightarrow> event \<Rightarrow> bool" where
  "new_event s e \<longleftrightarrow> (memory_durable s \<longrightarrow> map_of (receipts_tbl (db s)) (''memory'', ev_event_id e) = None)"

text \<open>Handling an event forgets no record, and leaves other events as new as they were.\<close>

definition advances :: "event \<Rightarrow> 'z memory_st_scheme \<Rightarrow> 'z memory_st_scheme \<Rightarrow> bool" where
  "advances e s s' \<longleftrightarrow> (\<forall>c. recorded c s \<longrightarrow> recorded c s')
     \<and> (\<forall>e'. ev_event_id e' \<noteq> ev_event_id e \<longrightarrow> new_event s e' \<longrightarrow> new_event s' e')"

lemma advances_refl [simp]: "advances e s s"
  by (simp add: advances_def)

lemma advances_trans: "advances e s s1 \<Longrightarrow> advances e s1 s2 \<Longrightarrow> advances e s s2"
  by (simp add: advances_def)

lemma recorded_mono:
  "recorded c s \<Longrightarrow> memory_durable s' = memory_durable s \<Longrightarrow>
    (\<And>k q. map_of (ms_records (memory s)) k = Some q \<Longrightarrow> map_of (ms_records (memory s')) k = Some q) \<Longrightarrow>
    (\<And>k row. map_of (memory_tbl (db s)) k = Some row \<Longrightarrow> map_of (memory_tbl (db s')) k = Some row) \<Longrightarrow>
    recorded c s'"
  unfolding recorded_def by blast

lemma recorded_frame: "memory_frame s s' \<Longrightarrow> recorded c s' \<longleftrightarrow> recorded c s"
  by (simp add: memory_frame_def recorded_def)

lemma advances_frame: "memory_frame s s' \<Longrightarrow> advances e s s'"
  by (simp add: advances_def recorded_frame) (simp add: memory_frame_def new_event_def)

lemma process_leaves:
  fixes s :: "'z memory_st_scheme"
  assumes "memory_view rs s" and "inj (hex_supply s)" and "process_memory_event e c s = (Inr x, s')"
  shows "memory_durable s' = memory_durable s" "memory s' = memory s"
    "k \<noteq> (''memory'', ev_event_id e) \<Longrightarrow> map_of (receipts_tbl (db s')) k = map_of (receipts_tbl (db s)) k"
    "map_of (memory_tbl (db s)) mid = Some row \<Longrightarrow> map_of (memory_tbl (db s')) mid = Some row"
proof -
  have new: "s' = s \<or> (map_of (receipts_tbl (db s)) (''memory'', ev_event_id e) = None
    \<and> (\<exists>n st ref rows. s' = s\<lparr>ids_drawn := n, db := advance_consumer_in_transaction ''memory''
        (ev_event_id e) (ev_sequence e) st ref ((db s)\<lparr>memory_tbl := memory_tbl (db s) @ rows\<rparr>)\<rparr>))"
  proof (cases "map_of (receipts_tbl (db s)) (''memory'', ev_event_id e)")
    case (Some t)
    with assms(3) show ?thesis by (simp add: process_memory_event_def py_simps)
  next
    case None
    show ?thesis
    proof (cases c)
      case None': None
      with assms(3) None show ?thesis
        by (intro disjI2 conjI exI[of _ "ids_drawn s"] exI[of _ "''ignored''"]
            exI[of "\<lambda>ref. \<exists>rows. _ ref rows" None] exI[of _ "[]"])
          (simp_all add: process_memory_event_def py_simps)
    next
      case (Some c')
      with assms(3) process_commits(1)[OF assms(1,2) None, of c'] None show ?thesis
        by (auto simp: insert_memory_row_def)
    qed
  qed
  then show "memory_durable s' = memory_durable s" "memory s' = memory s"
    "k \<noteq> (''memory'', ev_event_id e) \<Longrightarrow> map_of (receipts_tbl (db s')) k = map_of (receipts_tbl (db s)) k"
    "map_of (memory_tbl (db s)) mid = Some row \<Longrightarrow> map_of (memory_tbl (db s')) mid = Some row"
    by (auto simp: advance_consumer_in_transaction_def map_add_Some_iff map_add_dom_app_simps(3)
        map_add_def split: option.splits)
qed

lemma process_advances:
  fixes s :: "'z memory_st_scheme"
  assumes "memory_view rs s" and "inj (hex_supply s)" and "process_memory_event e c s = (Inr x, s')"
  shows "advances e s s'"
  using process_leaves[OF assms] by (auto simp: advances_def recorded_def new_event_def)

lemma ignored_runs:
  assumes "memory_ok s" and "facade_ok s" and "e \<in> set (facade_log s)"
  shows "\<exists>s'. process_ignored_event e s = (Inr (), s') \<and> memory_ok s' \<and> handled e s s' \<and> advances e s s'"
proof (cases "memory_durable s")
  case True
  with assms(1) obtain rs where v: "memory_view rs s" "inj (hex_supply s)" by (auto simp: memory_ok_def)
  obtain x s' rs' where r: "process_memory_event e None s = (Inr x, s')" "memory_view rs' s'"
    "hex_supply s' = hex_supply s"
    using process_run[OF v, of e None] by metis
  with v(2) process_handled[OF r(1) assms(2,3)] process_advances[OF v r(1)] True show ?thesis
    by (auto simp: process_ignored_event_def py_simps intro: memory_okI)
next
  case False
  with assms show ?thesis
    by (simp add: process_ignored_event_def py_simps memory_ok_def handled_memory handled_refl
        advances_def recorded_def new_event_def mem_drawn_def)
qed

text \<open>A commit of an event: a valid candidate of a new event is recorded.\<close>

lemma commit_runs_durable:
  fixes s :: "'z memory_st_scheme"
  assumes "memory_ok s" and "facade_ok s" and "e \<in> set (facade_log s)"
    and "memory_durable s" and "validate_candidate c"
  shows "\<exists>r s'. commit c (Some e) s = (Inr r, s') \<and> memory_ok s' \<and> handled e s s' \<and> advances e s s'
    \<and> (new_event s e \<longrightarrow> r \<noteq> None \<and> recorded c s')"
proof -
  obtain rs where v: "memory_view rs s" "inj (hex_supply s)"
    using assms(1,4) by (auto simp: memory_ok_def)
  obtain x s0 where run: "process_memory_event e (Some (partitioned c)) s = (Inr x, s0)"
    using process_run[OF v] by metis
  note lv = process_leaves[OF v run]
  define s' where "s' = (case x of None \<Rightarrow> s0
    | Some r \<Rightarrow> s0\<lparr>memory := note_latest r (note_record r (memory s0))\<rparr>)"
  have c: "commit c (Some e) s = (Inr x, s')"
    using assms(4,5) run by (simp add: commit_def commit_persistent_def py_simps s'_def split: option.splits)
  have "evolved s rs s'"
    using keepsD[OF keeps_evolved_commit evolved_start[OF v(2) assms(4) v(1)], of c e] c by simp
  then have ok: "memory_ok s'" by (auto simp: evolved_def intro: memory_okI)
  have tables: "db s' = db s0" "memory_durable s'" by (simp_all add: s'_def lv(1) assms(4) split: option.splits)
  have row: "map_of (memory_tbl (db s')) (me_memory_id r) = Some (memory_to_row r)" if "x = Some r" for r
    using process_row[OF v] run that tables by auto
  have "recorded c' s'" if rc: "recorded c' s" for c'
  proof -
    obtain q where q: "map_of (ms_records (memory s)) (me_memory_id q) = Some q"
      "record_key q = candidate_key (partitioned c')" "me_value q = mc_value c'"
      "me_source_event_ids q = mc_source_event_ids c'"
      "map_of (memory_tbl (db s)) (me_memory_id q) = Some (memory_to_row q)"
      using rc assms(4) by (auto simp: recorded_def)
    have qrow: "map_of (memory_tbl (db s')) (me_memory_id q) = Some (memory_to_row q)"
      using lv(4)[OF q(5)] tables by simp
    have same: "r = q" if "x = Some r" "me_memory_id r = me_memory_id q" for r
      using row[OF that(1)] qrow that(2) row_to_memory_to_row[of r] row_to_memory_to_row[of q] by simp
    have "map_of (ms_records (memory s')) (me_memory_id q) = Some q"
      using same by (cases x) (auto simp: s'_def q(1) lv(2) note_latest_def note_record_def update_conv')
    with q(2-4) qrow show ?thesis by (auto simp: recorded_def)
  qed
  moreover have "new_event s' e'" if "ev_event_id e' \<noteq> ev_event_id e" "new_event s e'" for e'
    using that lv(3) tables assms(4) by (auto simp: new_event_def)
  ultimately have adv: "advances e s s'" by (simp add: advances_def)
  have "handled e s s'"
    using process_handled[OF run assms(2,3)] by (simp add: s'_def handled_memory split: option.splits)
  moreover have "x \<noteq> None \<and> recorded c s'" if "new_event s e"
  proof -
    have none: "map_of (receipts_tbl (db s)) (''memory'', ev_event_id e) = None"
      using that assms(4) by (simp add: new_event_def)
    obtain r where r: "x = Some r" "r = new_record (''mem_'' @ hex_supply s (ids_drawn s)) (partitioned c)
        (previous_of (revisions_of (candidate_key (partitioned c)) rs))"
      using process_commits(1)[OF v none, of "partitioned c"] run by auto
    have "record_key r = candidate_key (partitioned c)" "me_value r = mc_value c"
      "me_source_event_ids r = mc_source_event_ids c"
      by (simp_all add: r(2) new_record_def record_key_def candidate_key_def partitioned_def)
    moreover have "map_of (ms_records (memory s')) (me_memory_id r) = Some r"
      by (simp add: s'_def r(1) note_latest_def note_record_def)
    ultimately show ?thesis using r(1) row by (auto simp: recorded_def)
  qed
  ultimately show ?thesis using c ok adv by blast
qed

lemma commit_runs_process:
  fixes s :: "'z memory_st_scheme"
  assumes "memory_ok s" and "facade_ok s" and "\<not> memory_durable s" and "validate_candidate c"
  shows "\<exists>r s'. commit c (Some e) s = (Inr (Some r), s') \<and> memory_ok s' \<and> handled e s s' \<and> advances e s s'
    \<and> recorded c s'"
proof -
  define r where "r = new_record (''mem_'' @ hex_supply s (ids_drawn s)) (partitioned c)
    (map_option (\<lambda>r. (me_revision r, me_memory_id r)) (latest_for (candidate_key (partitioned c)) (memory s)))"
  let ?s = "s\<lparr>ids_drawn := Suc (ids_drawn s)\<rparr>"
  let ?s' = "?s\<lparr>memory := note_latest r (note_record r (memory s))\<rparr>"
  have run: "commit c (Some e) s = (Inr (Some r), ?s')"
    using assms(3,4) by (simp add: commit_def commit_mem_def py_simps r_def)
  have "handled e s ?s"
    using assms(2) store_ok_mono[of s ?s]
    by (cases "events_durable s") (simp_all add: handled_def facade_ok_def facade_log_def facade_cursor_def mem_ok_def
        mem_cursor_def same_log_def)
  then have h: "handled e s ?s'" by (simp add: handled_memory)
  have id: "me_memory_id r = ''mem_'' @ hex_supply s (ids_drawn s)" by (simp add: r_def new_record_def)
  have held: "mem_drawn s k" if "map_of (ms_records (memory s)) k = Some q" for k q
    using assms(1) that by (simp add: memory_ok_def)
  have "\<not> mem_drawn s (me_memory_id r)"
    using assms(1) by (auto simp: mem_drawn_def memory_ok_def inj_eq id)
  with held have fresh: "map_of (ms_records (memory s)) (me_memory_id r) = None"
    by (cases "map_of (ms_records (memory s)) (me_memory_id r)") auto
  have drawn: "mem_drawn ?s' k" if "mem_drawn s k" for k
    using that by (auto simp: mem_drawn_def less_Suc_eq)
  have "mem_drawn ?s' (me_memory_id r)" unfolding mem_drawn_def id by auto
  then have "memory_ok ?s'"
    using assms(1,3) held drawn by (auto simp: memory_ok_def note_latest_def note_record_def update_conv' split: if_splits)
  moreover have "recorded c ?s'"
    using assms(3) by (auto simp: recorded_def note_latest_def note_record_def r_def new_record_def record_key_def
        candidate_key_def partitioned_def)
  moreover have "recorded c' ?s'" if "recorded c' s" for c'
    by (rule recorded_mono[OF that]) (use fresh in \<open>auto simp: note_latest_def note_record_def update_conv'\<close>)
  then have "advances e s ?s'" by (auto simp: advances_def new_event_def assms(3))
  ultimately show ?thesis using run h by blast
qed

lemma commit_runs:
  fixes s :: "'z memory_st_scheme"
  assumes "memory_ok s" and "facade_ok s" and "e \<in> set (facade_log s)"
  shows "\<exists>r s'. commit c (Some e) s = (Inr r, s') \<and> memory_ok s' \<and> handled e s s' \<and> advances e s s'
    \<and> (if validate_candidate c then new_event s e \<longrightarrow> r \<noteq> None \<and> recorded c s' else r = None)"
proof (cases "validate_candidate c")
  case True
  show ?thesis
  proof (cases "memory_durable s")
    case True
    with commit_runs_durable[OF assms True \<open>validate_candidate c\<close>] \<open>validate_candidate c\<close> show ?thesis by simp
  next
    case False
    with commit_runs_process[OF assms(1,2) False \<open>validate_candidate c\<close>, of e] \<open>validate_candidate c\<close>
    show ?thesis by auto
  qed
next
  case False
  with assms show ?thesis by (simp add: commit_def py_simps handled_refl)
qed

text \<open>The events that carry a valid memory candidate.\<close>

definition carries_memory :: "(pyfloat \<Rightarrow> string) \<Rightarrow> event \<Rightarrow> bool" where
  "carries_memory fr e \<longleftrightarrow>
     (case candidate_from_event fr e of Inr (Some c) \<Rightarrow> validate_candidate c | _ \<Rightarrow> False)"

lemma consume_body_runs:
  fixes s :: "'z memory_st_scheme"
  assumes "memory_ok s" and "facade_ok s" and "e \<in> set (facade_log s)"
  defines "body cand \<equiv> (case cand of
      None \<Rightarrow> thenE (process_ignored_event e) (ret False)
    | Some c \<Rightarrow> bindE (commit c (Some e)) (\<lambda>record.
        case record of None \<Rightarrow> thenE (process_ignored_event e) (ret False) | Some _ \<Rightarrow> ret True))"
  shows "\<exists>b s1. body cand s = (Inr b, s1) \<and> memory_ok s1 \<and> handled e s s1 \<and> advances e s s1
    \<and> (new_event s e \<longrightarrow> (case cand of None \<Rightarrow> \<not> b
         | Some c \<Rightarrow> (b \<longleftrightarrow> validate_candidate c) \<and> (validate_candidate c \<longrightarrow> recorded c s1)))"
proof (cases cand)
  case None
  with ignored_runs[OF assms(1-3)] show ?thesis by (auto simp: body_def py_simps)
next
  case (Some c)
  obtain r s0 where r: "commit c (Some e) s = (Inr r, s0)" "memory_ok s0" "handled e s s0" "advances e s s0"
    "if validate_candidate c then new_event s e \<longrightarrow> r \<noteq> None \<and> recorded c s0 else r = None"
    using commit_runs[OF assms(1-3), of c] by blast
  show ?thesis
  proof (cases r)
    case (Some q)
    with \<open>cand = Some c\<close> r show ?thesis by (auto simp: body_def py_simps split: if_splits)
  next
    case None
    have "facade_ok s0" "e \<in> set (facade_log s0)" using r(3) assms(3) by (auto simp: handled_def)
    with ignored_runs[OF r(2)] obtain s1 where "process_ignored_event e s0 = (Inr (), s1)" "memory_ok s1"
      "handled e s0 s1" "advances e s0 s1" by blast
    with \<open>cand = Some c\<close> None r show ?thesis
      by (auto simp: body_def py_simps intro: handled_trans advances_trans split: if_splits)
  qed
qed

lemma consume_event_runs:
  fixes s :: "'z memory_st_scheme"
  assumes "memory_ok s" and "facade_ok s" and "e \<in> set (facade_log s)"
    and "facade_cursor s c \<le> ev_sequence e" and "candidate_from_event fr e = Inr cand"
  shows "\<exists>b s'. consume_event fr c e s = (Inr b, s') \<and> memory_ok s' \<and> facade_ok s'
    \<and> facade_log s' = facade_log s \<and> facade_cursor s' c = ev_sequence e \<and> advances e s s'
    \<and> (new_event s e \<longrightarrow> b = carries_memory fr e
         \<and> (\<forall>cd. cand = Some cd \<longrightarrow> validate_candidate cd \<longrightarrow> recorded cd s'))"
proof -
  let ?body = "case cand of
      None \<Rightarrow> thenE (process_ignored_event e) (ret False)
    | Some c \<Rightarrow> bindE (commit c (Some e)) (\<lambda>record.
        case record of None \<Rightarrow> thenE (process_ignored_event e) (ret False) | Some _ \<Rightarrow> ret True)"
  obtain b s1 where b: "?body s = (Inr b, s1)" "memory_ok s1" "handled e s s1" "advances e s s1"
    and out: "new_event s e \<Longrightarrow> (case cand of None \<Rightarrow> \<not> b
         | Some c \<Rightarrow> (b \<longleftrightarrow> validate_candidate c) \<and> (validate_candidate c \<longrightarrow> recorded c s1))"
    using consume_body_runs[OF assms(1-3), of cand] by blast
  have "facade_cursor s1 c \<le> ev_sequence e"
    using b(3) assms(4) by (auto simp: handled_def dest!: spec[of _ c])
  moreover have s1: "facade_ok s1" "facade_log s1 = facade_log s" using b(3) by (auto simp: handled_def)
  moreover have "ev_sequence e \<le> int (length (facade_log s1))"
    using logged_sequence[OF assms(2,3)] s1(2) by simp
  ultimately obtain s2 where s2: "ack c (ev_sequence e) s1 = (Inr (), s2)" "facade_log s2 = facade_log s1"
    "facade_cursor s2 = (facade_cursor s1)(c := ev_sequence e)" "facade_ok s2"
    using facade.ack_advances by metis
  have fr: "memory_frame s1 s2" using keepsD[OF keeps_frame_ack, of s1 s1 c "ev_sequence e"] s2(1) by simp
  have run: "consume_event fr c e s = (Inr b, s2)"
    using assms(5) b(1) s2(1) by (simp add: consume_event_def py_simps)
  have "b = carries_memory fr e \<and> (\<forall>cd. cand = Some cd \<longrightarrow> validate_candidate cd \<longrightarrow> recorded cd s2)"
    if "new_event s e"
    using out[OF that] recorded_frame[OF fr] assms(5) by (auto simp: carries_memory_def split: option.splits)
  with run s2 s1 memory_ok_frame[OF b(2) fr] advances_trans[OF b(4) advances_frame[OF fr]]
  show ?thesis by simp
qed

text \<open>A round over several events, each identified by its own id.\<close>

lemma consume_events_run:
  fixes s :: "'z memory_st_scheme"
  assumes "memory_ok s" and "facade_ok s" and "set es \<subseteq> set (facade_log s)"
    and "sorted (map ev_sequence es)" and "\<forall>e \<in> set es. facade_cursor s c \<le> ev_sequence e"
    and "\<forall>e \<in> set es. \<exists>cand. candidate_from_event fr e = Inr cand"
  shows "\<exists>bs s'. mapE (consume_event fr c) es s = (Inr bs, s') \<and> length bs = length es
    \<and> memory_ok s' \<and> facade_ok s' \<and> facade_log s' = facade_log s
    \<and> facade_cursor s' c = (if es = [] then facade_cursor s c else ev_sequence (last es))
    \<and> (\<forall>cd. recorded cd s \<longrightarrow> recorded cd s')
    \<and> (distinct (map ev_event_id es) \<longrightarrow> (\<forall>e \<in> set es. new_event s e) \<longrightarrow>
        bs = map (carries_memory fr) es
        \<and> (\<forall>e \<in> set es. \<forall>cd. candidate_from_event fr e = Inr (Some cd) \<longrightarrow> validate_candidate cd \<longrightarrow> recorded cd s'))"
  using assms
proof (induction es arbitrary: s)
  case Nil
  then show ?case by (simp add: py_simps)
next
  case (Cons e es)
  obtain cand where cand: "candidate_from_event fr e = Inr cand" using Cons.prems(6) by auto
  obtain b s1 where 1: "consume_event fr c e s = (Inr b, s1)" "memory_ok s1" "facade_ok s1"
    "facade_log s1 = facade_log s" "facade_cursor s1 c = ev_sequence e" "advances e s s1"
    "new_event s e \<longrightarrow> b = carries_memory fr e
         \<and> (\<forall>cd. cand = Some cd \<longrightarrow> validate_candidate cd \<longrightarrow> recorded cd s1)"
    using consume_event_runs[OF Cons.prems(1,2) _ _ cand, of c] Cons.prems(3,5) by auto
  obtain bs s2 where 2: "mapE (consume_event fr c) es s1 = (Inr bs, s2)" "length bs = length es"
    "memory_ok s2" "facade_ok s2" "facade_log s2 = facade_log s1"
    "facade_cursor s2 c = (if es = [] then facade_cursor s1 c else ev_sequence (last es))"
    "\<forall>cd. recorded cd s1 \<longrightarrow> recorded cd s2"
    "distinct (map ev_event_id es) \<longrightarrow> (\<forall>e \<in> set es. new_event s1 e) \<longrightarrow>
        bs = map (carries_memory fr) es
        \<and> (\<forall>e \<in> set es. \<forall>cd. candidate_from_event fr e = Inr (Some cd) \<longrightarrow> validate_candidate cd \<longrightarrow> recorded cd s2)"
    using Cons.IH[OF 1(2,3)] Cons.prems(3,4,6) 1(4,5) by auto
  have run: "mapE (consume_event fr c) (e # es) s = (Inr (b # bs), s2)"
    using 1(1) 2(1) by (simp add: py_simps)
  have "b # bs = map (carries_memory fr) (e # es)
      \<and> (\<forall>e \<in> set (e # es). \<forall>cd. candidate_from_event fr e = Inr (Some cd) \<longrightarrow> validate_candidate cd \<longrightarrow> recorded cd s2)"
    if d: "distinct (map ev_event_id (e # es))" "\<forall>e \<in> set (e # es). new_event s e"
  proof -
    have "new_event s1 e'" if "e' \<in> set es" for e'
    proof -
      have "ev_event_id e' \<noteq> ev_event_id e" using d(1) that by (auto simp: image_iff)
      with 1(6) d(2) that show ?thesis by (simp add: advances_def)
    qed
    with 2(8) d(1) have rest: "bs = map (carries_memory fr) es"
      "\<forall>e \<in> set es. \<forall>cd. candidate_from_event fr e = Inr (Some cd) \<longrightarrow> validate_candidate cd \<longrightarrow> recorded cd s2"
      by simp_all
    have "b = carries_memory fr e" "\<And>cd. cand = Some cd \<Longrightarrow> validate_candidate cd \<Longrightarrow> recorded cd s1"
      using 1(7) d(2) by auto
    with rest 2(7) cand show ?thesis by auto
  qed
  moreover have "\<forall>cd. recorded cd s \<longrightarrow> recorded cd s2" using 1(6) 2(7) by (simp add: advances_def)
  ultimately show ?case
    using run 1(4,5) 2(2-6) by (intro exI[of _ "b # bs"] exI[of _ s2]) simp
qed

section \<open>Properties\<close>

definition fresh_memory :: "bool \<Rightarrow> memory_st" where
  "fresh_memory durable = events_st.extend (fresh_events durable) (memory_st.fields durable empty_memory)"

lemma fresh_memory_view: "memory_view [] (fresh_memory d)"
  by (simp add: memory_view_def represents_memory_def fresh_memory_def events_st.defs memory_st.defs
      fresh_events_def world_st.defs fresh_world_def store_st.defs sample_store_def fresh_store_def
      empty_db_def empty_memory_def)

lemma fresh_memory_simps [simp]:
  "hex_supply (fresh_memory d) = sample_hex" "memory_durable (fresh_memory d) = d"
  "events_durable (fresh_memory d) = d" "ids_drawn (fresh_memory d) = 0"
  "memory (fresh_memory d) = empty_memory" "db (fresh_memory d) = empty_db"
  by (simp_all add: fresh_memory_def events_st.defs memory_st.defs fresh_events_def world_st.defs
      fresh_world_def store_st.defs sample_store_def fresh_store_def)

definition sample_candidate :: memory_candidate where
  "sample_candidate = \<lparr>mc_workspace_id = ''ws'', mc_kind = MK_FACT, mc_key = ''colour'',
     mc_value = JStr ''blue'', mc_scope = ''project'', mc_source_event_ids = [''evt_a''],
     mc_confidence = 1, mc_explicit_user_statement = False\<rparr>"

definition sample_memory_event :: event where
  "sample_memory_event = \<lparr>ev_sequence = 1, ev_event_id = ''evt_a'', ev_workspace_id = ''ws'',
     ev_event_type = ''memory.candidate'', ev_actor = ''agent'', ev_task_id = None,
     ev_operation_id = None, ev_object_refs = [],
     ev_payload = [(''kind'', JStr ''FACT''), (''key'', JStr ''colour''), (''scope'', JStr ''project''),
       (''value'', JStr ''blue'')],
     ev_causation_id = None, ev_correlation_id = None, ev_occurred_at = 0, ev_observed_at = 0,
     ev_learning_allowed = True\<rparr>"

text \<open>
  C11: the memory table is a chain per key. Whatever sequence of pipeline rounds, commits with
  and without an event, refused events, strategy supports, new events and restarts has run on a
  durable memory, with every exception on the way, the table holds for each partition, scope,
  key and kind the revisions 1, 2, ..., n in the order of their commits, each superseding the
  one before it, and whatever record of the process the table has too, it has as it is in the
  process. The one condition is that a support is given to a record the table has: a record
  committed without an event is in the process only, and supporting it would insert it into
  the table out of order.
\<close>

theorem memory_revisions_chain:
  assumes "memory_step\<^sup>*\<^sup>* s s'" and "memory_view rs s" and "memory_durable s" and "inj (hex_supply s)"
  shows "\<exists>rs'. map snd (memory_tbl (db s')) = map memory_to_row rs'
    \<and> map me_revision (revisions_of k rs') = [1..int (length (revisions_of k rs'))]
    \<and> map me_supersedes (revisions_of k rs') = links (revisions_of k rs')
    \<and> (\<forall>mid r row. map_of (ms_records (memory s')) mid = Some r \<longrightarrow>
         map_of (memory_tbl (db s')) mid = Some row \<longrightarrow> row = memory_to_row r)"
proof -
  have "evolved s rs s'"
    by (rule memory_steps_evolved[OF assms(1) evolved_start[OF assms(4,3,2)]])
  then obtain rs' where v: "memory_view rs' s'" by (auto simp: evolved_def)
  then have rep: "memory_tbl (db s') = map row_entry rs'" "chain rs'"
    by (simp_all add: memory_view_def represents_memory_def)
  have "row = memory_to_row r"
    if "map_of (ms_records (memory s')) mid = Some r" "map_of (memory_tbl (db s')) mid = Some row" for mid r row
    by (rule view_row[OF v that])
  then show ?thesis
    using rep chainD(2,3)[of rs' k] by (auto simp: comp_def)
qed

theorem memory_revisions_chain_witness:
  "let s' = snd (commit sample_candidate (Some sample_memory_event) (fresh_memory True)) in
   \<exists>rs'. map snd (memory_tbl (db s')) = map memory_to_row rs'
    \<and> map me_revision (revisions_of (''ws'', ''project'', ''colour'', MK_FACT) rs') =
      [1..int (length (revisions_of (''ws'', ''project'', ''colour'', MK_FACT) rs'))]"
proof -
  have st: "memory_step\<^sup>*\<^sup>* (fresh_memory True)
      (snd (commit sample_candidate (Some sample_memory_event) (fresh_memory True)))"
    by (rule r_into_rtranclp, rule memory_step.commit)
  show ?thesis
    using memory_revisions_chain[OF st fresh_memory_view, of "(''ws'', ''project'', ''colour'', MK_FACT)"]
    by (auto simp: inj_sample_hex Let_def)
qed

text \<open>
  Why the steps ask that a support be given to a record of the table: two commits without an
  event, then a support of the second record, write a table whose one row has revision 2 and
  supersedes a row that is not there.
\<close>

lemma unsourced_support_out_of_order:
  fixes s :: memory_st and c :: memory_candidate
  defines "s \<equiv> fresh_memory True" and "c \<equiv> sample_candidate\<lparr>mc_kind := MK_STRATEGY\<rparr>"
  defines "s2 \<equiv> snd (commit c None (snd (commit c None s)))"
  shows "map (\<lambda>(_, row). (mr_revision row, mr_supersedes row))
      (memory_tbl (db (snd (add_strategy_support (''mem_'' @ sample_hex 1) (Some ''evt_b'') False s2))))
    = [(2, Some (''mem_'' @ sample_hex 0))]"
proof -
  have ne: "sample_hex 1 \<noteq> sample_hex 0" using inj_sample_hex by (simp add: inj_eq)
  have v: "validate_candidate c" by (simp add: validate_candidate_def c_def sample_candidate_def)
  show ?thesis
    using ne v
    by (simp add: s2_def s_def commit_def commit_mem_def py_simps latest_for_def empty_memory_def note_latest_def
        note_record_def record_key_def candidate_key_def new_record_def c_def sample_candidate_def partitioned_def
        memory_partition_def update_conv' add_strategy_support_def promoted_def save_memory_record_def empty_db_def
        insert_memory_row_def memory_to_row_def revision_taken_def Let_def)
qed

text \<open>
  C10: an event commits one record, however often it is delivered. Once an event has been
  committed, then after any further run of the memory its redelivery to the store, with
  whatever candidate, returns the record with the same identifier, key and revision and changes
  nothing. Redelivery through \<open>commit\<close>, with a valid candidate, returns that same record and
  leaves the tables, the log and the supply of identifiers as they are; it does write the
  record into the process and makes it the latest of its key there, even if newer revisions
  have been committed since.
\<close>

theorem memory_event_exactly_once:
  assumes "memory_view rs s" and "memory_durable s" and "inj (hex_supply s)"
    and "commit c (Some e) s = (Inr (Some r), s1)"
    and "memory_step\<^sup>*\<^sup>* s1 s2"
  shows "\<exists>r'. process_memory_event e c' s2 = (Inr (Some r'), s2)
    \<and> (validate_candidate again \<longrightarrow> commit again (Some e) s2 =
         (Inr (Some r'), s2\<lparr>memory := note_latest r' (note_record r' (memory s2))\<rparr>))
    \<and> me_memory_id r' = me_memory_id r \<and> record_key r' = record_key r \<and> me_revision r' = me_revision r"
proof -
  have run: "commit_persistent e (partitioned c) s = (Inr (Some r), s1)"
    using assms(2,4) by (simp add: commit_def py_simps split: if_splits)
  then obtain s0 where s0: "process_memory_event e (Some (partitioned c)) s = (Inr (Some r), s0)"
    "db s1 = db s0" "map_of (ms_records (memory s1)) (me_memory_id r) = Some r"
    by (auto simp: commit_persistent_def py_simps note_latest_def note_record_def
        split: prod.splits sum.splits option.splits)
  obtain t where t: "map_of (receipts_tbl (db s1)) (''memory'', ev_event_id e) = Some t"
    "rr_result_ref t = Some (me_memory_id r)"
    using process_receipt[OF assms(1,3) s0(1)] s0(2) by auto
  have "evolved s rs s1"
    using keepsD[OF keeps_evolved_commit evolved_start[OF assms(3,2,1)], of c e] assms(4) by simp
  then obtain rs1 where v1: "memory_view rs1 s1" and e1: "inj (hex_supply s1)" "memory_durable s1"
    by (auto simp: evolved_def)
  have "evolved s1 rs1 s2"
    by (rule memory_steps_evolved[OF assms(5) evolved_start[OF e1 v1]])
  then obtain rs2 where v2: "memory_view rs2 s2" "grows rs1 rs2"
    and t2: "map_of (receipts_tbl (db s2)) (''memory'', ev_event_id e) = Some t"
    and d2: "memory_durable s2"
    using t(1) by (auto simp: evolved_def)
  have "map_of (memory_tbl (db s1)) (me_memory_id r) \<noteq> None"
    using process_row[OF assms(1,3) s0(1)] s0(2) by simp
  then have "me_memory_id r \<in> set (map me_memory_id rs1)"
    using v1 map_of_row_entry_None[of rs1 "me_memory_id r"]
    by (auto simp: memory_view_def represents_memory_def)
  then have "r \<in> set rs1" by (rule view_process[OF v1 s0(3)])
  then obtain q where q: "q \<in> set rs2" "same_place r q" using grows_member[OF v2(2)] by blast
  then have ref: "rr_result_ref t = Some (me_memory_id q)" using t(2) by (simp add: same_place_def)
  have "commit again (Some e) s2 =
      (Inr (Some q), s2\<lparr>memory := note_latest q (note_record q (memory s2))\<rparr>)" if "validate_candidate again"
    using that d2 redelivery[OF v2(1) q(1) t2 ref, of "Some (partitioned again)"]
    by (simp add: commit_def commit_persistent_def py_simps)
  with redelivery[OF v2(1) q(1) t2 ref, of c'] q(2) show ?thesis by (auto simp: same_place_def)
qed

theorem memory_event_exactly_once_witness:
  "\<exists>r r' s1. commit sample_candidate (Some sample_memory_event) (fresh_memory True) = (Inr (Some r), s1)
    \<and> process_memory_event sample_memory_event None s1 = (Inr (Some r'), s1)
    \<and> me_memory_id r' = me_memory_id r"
proof -
  have v: "validate_candidate sample_candidate"
    by (simp add: validate_candidate_def sample_candidate_def)
  have "map_of (receipts_tbl (db (fresh_memory True))) (''memory'', ev_event_id sample_memory_event) = None"
    by (simp add: empty_db_def)
  from process_commits(1)[OF fresh_memory_view _ this, where c = "partitioned sample_candidate"] v
  obtain r s1 where run: "commit sample_candidate (Some sample_memory_event) (fresh_memory True) = (Inr (Some r), s1)"
    by (auto simp: commit_def commit_persistent_def py_simps inj_sample_hex)
  from memory_event_exactly_once[OF fresh_memory_view _ _ run rtranclp.rtrancl_refl, of None]
  have "\<exists>r'. process_memory_event sample_memory_event None s1 = (Inr (Some r'), s1)
    \<and> me_memory_id r' = me_memory_id r" by (auto simp: inj_sample_hex)
  with run show ?thesis by blast
qed
text \<open>
  C35: a restart finds the latest revisions. After any run of a durable memory, loading the
  table succeeds, and for every workspace, scope, key and kind \<open>latest\<close> then returns the
  record of the highest revision in that partition, or nothing when there is none; global
  memories are found from every workspace.
\<close>

theorem latest_after_restart:
  assumes "memory_step\<^sup>*\<^sup>* s s'" and "memory_view rs s" and "memory_durable s" and "inj (hex_supply s)"
  shows "\<exists>m rs'. from_persistence (db s') = Inr m \<and> map snd (memory_tbl (db s')) = map memory_to_row rs'
    \<and> latest ws scope key kind m =
      (let g = revisions_of (if scope = ''global'' then ''*'' else ws, scope, key, kind) rs' in
       if g = [] then None else Some (last g))"
proof -
  have "evolved s rs s'"
    by (rule memory_steps_evolved[OF assms(1) evolved_start[OF assms(4,3,2)]])
  then obtain rs' where v: "memory_view rs' s'" by (auto simp: evolved_def)
  then have rep: "represents_memory rs' (db s')" by (simp add: memory_view_def)
  obtain m where m: "from_persistence (db s') = Inr m" "loaded (set rs') m"
    using from_persistence_loaded[OF rep view_ids[OF v]] .
  have "map snd (memory_tbl (db s')) = map memory_to_row rs'" "chain rs'"
    using rep by (auto simp: represents_memory_def comp_def)
  with m loaded_chain_latest[OF m(2) _ view_ids[OF v]] show ?thesis
    by (auto simp: latest_def memory_partition_def Let_def)
qed

theorem latest_after_restart_witness:
  "\<exists>m rs'. from_persistence (db (snd (commit sample_candidate (Some sample_memory_event) (fresh_memory True)))) = Inr m
    \<and> latest ''ws'' ''project'' ''colour'' MK_FACT m =
      (let g = revisions_of (''ws'', ''project'', ''colour'', MK_FACT) rs' in
       if g = [] then None else Some (last g))"
proof -
  have st: "memory_step\<^sup>*\<^sup>* (fresh_memory True)
      (snd (commit sample_candidate (Some sample_memory_event) (fresh_memory True)))"
    by (rule r_into_rtranclp, rule memory_step.commit)
  show ?thesis
    using latest_after_restart[OF st fresh_memory_view, of "''ws''" "''project''" "''colour''" MK_FACT]
    by (auto simp: inj_sample_hex)
qed

text \<open>
  C36: memories stay in their workspace. A record committed from an event that was not seen
  before has the workspace of the event as its partition, or, when its scope is global, the
  common partition, and that only when the event is a statement the user made explicitly; its
  confidence lies between 0 and 1 and it names the event as its source.
\<close>

theorem memory_partition_respected:
  assumes "memory_view rs s" and "memory_durable s" and "inj (hex_supply s)"
    and "map_of (receipts_tbl (db s)) (''memory'', ev_event_id e) = None"
    and "candidate_from_event fr e = Inr (Some c)"
    and "commit c (Some e) s = (Inr (Some r), s')"
  shows "me_workspace_id r = (if me_scope r = ''global'' then ''*'' else ev_workspace_id e)
    \<and> (me_scope r = ''global'' \<longrightarrow> ev_actor e = ''user''
         \<and> truthy (dict_get (ev_payload e) ''explicit_user_statement''))
    \<and> 0 \<le> me_confidence r \<and> me_confidence r \<le> 1 \<and> me_source_event_ids r = [ev_event_id e]
    \<and> ev_learning_allowed e"
proof -
  have v: "validate_candidate c" and run: "commit_persistent e (partitioned c) s = (Inr (Some r), s')"
    using assms(2,6) by (simp_all add: commit_def py_simps split: if_splits)
  have r: "r = new_record (''mem_'' @ hex_supply s (ids_drawn s)) (partitioned c)
      (previous_of (revisions_of (candidate_key (partitioned c)) rs))"
    using run process_commits(1)[OF assms(1,3,4), where c = "partitioned c"]
    by (simp add: commit_persistent_def py_simps)
  have c: "mc_workspace_id c = ev_workspace_id e" "mc_source_event_ids c = [ev_event_id e]"
    "mc_explicit_user_statement c \<longrightarrow> ev_actor e = ''user''
      \<and> truthy (dict_get (ev_payload e) ''explicit_user_statement'')" "ev_learning_allowed e"
    using assms(5)
    by (auto simp: candidate_from_event_def dict_get_def dict_get_or_def split: if_splits sum.splits option.splits)
  then show ?thesis
    using v by (auto simp: r new_record_def partitioned_def memory_partition_def validate_candidate_def)
qed

definition float_text :: "pyfloat \<Rightarrow> string" where
  "float_text q = ''1.0''"

theorem memory_partition_respected_witness:
  "\<exists>r s'. commit (sample_candidate) (Some sample_memory_event) (fresh_memory True) = (Inr (Some r), s')
    \<and> me_workspace_id r = (if me_scope r = ''global'' then ''*'' else ''ws'')"
proof -
  have c: "candidate_from_event float_text sample_memory_event = Inr (Some sample_candidate)"
    by (simp add: candidate_from_event_def sample_memory_event_def candidate_fields_def
        required_field_def memory_kind_of_def enum_of_def dict_get_or_def dict_get_def sample_candidate_def)
  have v: "validate_candidate sample_candidate"
    by (simp add: validate_candidate_def sample_candidate_def)
  have none: "map_of (receipts_tbl (db (fresh_memory True))) (''memory'', ev_event_id sample_memory_event) = None"
    by (simp add: empty_db_def)
  from process_commits(1)[OF fresh_memory_view _ this, where c = "partitioned sample_candidate"] v
  obtain r s1 where run: "commit sample_candidate (Some sample_memory_event) (fresh_memory True) = (Inr (Some r), s1)"
    by (auto simp: commit_def commit_persistent_def py_simps inj_sample_hex)
  have ws: "ev_workspace_id sample_memory_event = ''ws''" by (simp add: sample_memory_event_def)
  have "me_workspace_id r = (if me_scope r = ''global'' then ''*'' else ''ws'')"
    using memory_partition_respected[OF fresh_memory_view _ _ none c run] ws
    by (simp add: inj_sample_hex)
  with run show ?thesis by blast
qed

text \<open>
  C38: an oversized confidence stops the pipeline. When the next unread event is a well-formed
  memory candidate whose confidence is an integer beyond the floats, the pipeline raises
  \<open>OverflowError\<close> and leaves everything as it was, the cursor too: the event stays the
  next one, and no later event is ever processed.
\<close>

theorem poison_event_blocks:
  assumes "read_after c s = e # es" and "limit > 0"
    and "ev_event_type e = ''memory.candidate''" and "ev_learning_allowed e"
    and "map_of (ev_payload e) ''kind'' = Some (JStr (memory_kind_value kind))"
    and "map_of (ev_payload e) ''key'' = Some (JStr key)"
    and "map_of (ev_payload e) ''scope'' = Some (JStr scope)"
    and "map_of (ev_payload e) ''confidence'' = Some (JInt n)" and "\<bar>n\<bar> \<ge> float_limit"
  shows "run_once fr c limit s = (Inl (OverflowError ''int too large to convert to float''), s)"
proof -
  have "candidate_from_event fr e = Inl (OverflowError ''int too large to convert to float'')"
    using assms(3-) by (simp add: candidate_from_event_def candidate_fields_def required_field_def
        dict_get_or_def)
  moreover have "py_take limit (e # es) = e # take (nat limit - 1) es"
    using assms(2) by (cases "nat limit") (simp_all add: py_take_def)
  ultimately show ?thesis using assms(1) by (simp add: run_once_def py_simps consume_event_def)
qed

definition poison_event :: event where
  "poison_event = sample_memory_event\<lparr>ev_payload := ev_payload sample_memory_event @ [(''confidence'', JInt (2 ^ 1024))]\<rparr>"

theorem poison_event_blocks_witness:
  "run_once float_text ''memory'' 100 ((fresh_memory False)\<lparr>mem_events := [poison_event, sample_memory_event]\<rparr>)
    = (Inl (OverflowError ''int too large to convert to float''),
       (fresh_memory False)\<lparr>mem_events := [poison_event, sample_memory_event]\<rparr>)"
proof -
  let ?s = "(fresh_memory False)\<lparr>mem_events := [poison_event, sample_memory_event]\<rparr>"
  have c: "mem_cursors (fresh_memory False) = []"
    by (simp add: fresh_memory_def events_st.defs fresh_events_def world_st.defs fresh_world_def)
  have r: "read_after ''memory'' ?s = poison_event # [sample_memory_event]"
    by (simp add: read_after_def mem_cursor_def c poison_event_def sample_memory_event_def)
  have lim: "\<bar>2 ^ 1024\<bar> \<ge> float_limit" unfolding float_limit_def by simp
  show ?thesis
    by (rule poison_event_blocks[OF r, where kind = MK_FACT and key = "''colour''" and scope = "''project''"
          and n = "2 ^ 1024"])
      (use lim in \<open>simp_all only: poison_event_def sample_memory_event_def\<close>, simp_all)
qed

text \<open>
  C37: the pipeline gets through the log. With a store or without one, when none of the next
  \<open>limit\<close> unread events raises while its candidate is built (an integer confidence
  beyond the floats does), a round of the pipeline returns, scans exactly those events, commits or ignores each of
  them, and moves its cursor to the last of them. When these events have different identifiers
  and none was handled before, the round commits exactly those that carry a valid memory
  candidate, and the partition, key, kind, value and source of each of these is then in a
  record of the process and, with a store, in the same record of the table.
\<close>

theorem pipeline_progress:
  assumes "memory_ok s" and "facade_ok s" and "0 \<le> limit"
    and "\<forall>e \<in> set (take (nat limit) (read_after c s)). \<exists>cand. candidate_from_event fr e = Inr cand"
  shows "\<exists>cnt s'. run_once fr c limit s = (Inr cnt, s') \<and> memory_ok s' \<and> facade_ok s'
    \<and> facade_log s' = facade_log s
    \<and> scanned cnt = min limit (int (length (facade_log s)) - facade_cursor s c)
    \<and> committed cnt + ignored cnt = scanned cnt
    \<and> facade_cursor s' c = facade_cursor s c + scanned cnt
    \<and> (let es = take (nat limit) (read_after c s) in
       distinct (map ev_event_id es) \<longrightarrow> (\<forall>e \<in> set es. new_event s e) \<longrightarrow>
       committed cnt = int (length (filter (carries_memory fr) es))
       \<and> (\<forall>e \<in> set es. \<forall>cd. candidate_from_event fr e = Inr (Some cd) \<longrightarrow> validate_candidate cd \<longrightarrow> recorded cd s'))"
proof -
  let ?k = "nat (facade_cursor s c)" and ?n = "length (facade_log s)"
  define es where "es = take (nat limit) (read_after c s)"
  have k: "0 \<le> facade_cursor s c" "facade_cursor s c \<le> int ?n"
    using facade.cursor_range[OF assms(2)] by auto
  have es: "es = take (nat limit) (drop ?k (facade_log s))"
    by (simp add: es_def facade.read_beyond[OF assms(2)])
  have seq: "map ev_sequence es = take (nat limit) (drop ?k [1..int ?n])"
    unfolding es by (simp flip: take_map drop_map add: facade.log_numbered[OF assms(2)])
  then have len: "length es = min (nat limit) (?n - ?k)" by (simp add: es)
  have nth: "ev_sequence (es ! i) = facade_cursor s c + int i + 1" if "i < length es" for i
  proof -
    have "ev_sequence (es ! i) = map ev_sequence es ! i" using that by simp
    also have "\<dots> = [1..int ?n] ! (?k + i)"
      unfolding seq using that len k by (subst nth_take) (simp_all add: nth_drop)
    also have "\<dots> = 1 + int (?k + i)" using that len by (subst nth_upto) auto
    finally show ?thesis using k(1) by simp
  qed
  have "sorted (map ev_sequence es)" unfolding seq by (simp add: sorted_wrt_take sorted_wrt_drop)
  moreover have "\<forall>e \<in> set es. facade_cursor s c \<le> ev_sequence e"
    using nth by (auto simp: in_set_conv_nth)
  moreover have "set es \<subseteq> set (facade_log s)"
    unfolding es by (auto dest: in_set_takeD in_set_dropD)
  ultimately obtain bs s' where run: "mapE (consume_event fr c) es s = (Inr bs, s')" "length bs = length es"
    "memory_ok s'" "facade_ok s'" "facade_log s' = facade_log s"
    "facade_cursor s' c = (if es = [] then facade_cursor s c else ev_sequence (last es))"
    and new: "distinct (map ev_event_id es) \<longrightarrow> (\<forall>e \<in> set es. new_event s e) \<longrightarrow>
        bs = map (carries_memory fr) es
        \<and> (\<forall>e \<in> set es. \<forall>cd. candidate_from_event fr e = Inr (Some cd) \<longrightarrow> validate_candidate cd \<longrightarrow> recorded cd s')"
    using consume_events_run[OF assms(1,2), of es c fr] assms(4) es_def by blast
  have cur: "facade_cursor s' c = facade_cursor s c + int (length es)"
    using run(6) nth[of "length es - 1"] by (cases es rule: rev_cases) (simp_all add: last_conv_nth)
  have cnt: "length (filter id bs) + length (filter Not bs) = length bs"
    using sum_length_filter_compl[of id bs] by (simp add: id_def)
  have "run_once fr c limit s = (Inr \<lparr>scanned = int (length bs), committed = int (length (filter id bs)),
      ignored = int (length (filter Not bs))\<rparr>, s')"
    using run(1) assms(3) by (simp add: run_once_def py_simps py_take_def es_def)
  moreover have "int (length bs) = min limit (int ?n - facade_cursor s c)"
    using run(2) len k assms(3) by (auto simp: min_def)
  moreover have "length (filter id (map f xs)) = length (filter f xs)" for f and xs :: "event list"
    by (induction xs) simp_all
  ultimately show ?thesis
    using run cur cnt new unfolding es_def[symmetric] Let_def by (auto simp flip: of_nat_add)
qed

theorem pipeline_progress_witness:
  "\<exists>cnt s'. run_once float_text ''memory'' 100 ((fresh_memory False)\<lparr>mem_events := [sample_memory_event]\<rparr>)
      = (Inr cnt, s') \<and> scanned cnt = 1 \<and> committed cnt = 1 \<and> facade_cursor s' ''memory'' = 1
      \<and> recorded sample_candidate s'"
proof -
  let ?s = "(fresh_memory False)\<lparr>mem_events := [sample_memory_event]\<rparr>"
  have c: "mem_cursors (fresh_memory False) = []"
    by (simp add: fresh_memory_def events_st.defs fresh_events_def world_st.defs fresh_world_def)
  have ok: "memory_ok ?s" "facade_ok ?s"
    by (simp_all add: memory_ok_def facade_ok_def mem_ok_def c inj_sample_hex sample_memory_event_def empty_memory_def)
  have log: "facade_log ?s = [sample_memory_event]" "facade_cursor ?s ''memory'' = 0"
    "read_after ''memory'' ?s = [sample_memory_event]"
    by (simp_all add: facade_log_def facade_cursor_def mem_cursor_def c read_after_def sample_memory_event_def)
  have cand: "candidate_from_event float_text sample_memory_event = Inr (Some sample_candidate)"
    by (simp add: candidate_from_event_def sample_memory_event_def candidate_fields_def
        required_field_def memory_kind_of_def enum_of_def dict_get_or_def dict_get_def sample_candidate_def)
  have valid: "validate_candidate sample_candidate"
    by (simp add: validate_candidate_def sample_candidate_def)
  have "carries_memory float_text sample_memory_event" "new_event ?s sample_memory_event"
    by (simp_all add: carries_memory_def cand valid new_event_def)
  with pipeline_progress[OF ok, of 100 "''memory''" float_text] log cand valid show ?thesis
    by (auto simp: Let_def)
qed

end
