(* ===== verification/Recovery.thy ===== *)
theory Recovery
  imports Agent Memory
begin

text \<open>
  Recovery after a restart, \<^verbatim>\<open>src/liandanlu_native/recovery.py\<close>: the runtimes are rebuilt
  from the tables of the store, interrupted operations are reconciled, pending control requests
  are settled and the outbox is flushed. The new process is a state over the tables of the old
  one.

  Shown here: a restart resumes exactly the tasks, operations and world of the process that
  died and the memories of the table; recovery brings every operation to rest, and to do so it calls the
  verification and reconciliation of capabilities only.
\<close>

section \<open>The coordinator\<close>

definition from_store ::
  "registry \<Rightarrow> (string \<times> 'w capability) list \<Rightarrow> ('w, 'z) op_st_scheme
   \<Rightarrow> exc + ('w, 'z) op_st_scheme \<times> memory_store" where
  "from_store reg caps s =
     bindR (load_tasks (db s)) (\<lambda>ts.
     bindR (load_operations (db s)) (\<lambda>ops.
     bindR (from_persistence (db s)) (\<lambda>mem.
       Inr (s\<lparr>world_durable := True, world := load_world_model (db s),
              events_durable := True, mem_events := [], mem_outbox := [], mem_cursors := [],
              tasks_durable := True, tasks := ts,
              ops_durable := True, registry := reg, capabilities := caps, operations := ops\<rparr>, mem))))"

definition rebuild_scheduler :: "(('w, 'z) sched_st_scheme, unit) py" where
  "rebuild_scheduler = rebuild"

definition interrupted :: "operation \<Rightarrow> bool" where
  "interrupted p \<longleftrightarrow> op_state p \<in> {OS_PREPARED, OS_RUNNING, OS_UNKNOWN, OS_RECONCILING, OS_OBSERVED,
     OS_VERIFYING}"

text \<open>The bodies of the two loops; each says whether it counts.\<close>

definition recover_one :: "string \<Rightarrow> (('w, 'z) op_st_scheme, bool) py" where
  "recover_one oid =
     bindE (get_operation oid) (\<lambda>p.
     if interrupted p then thenE (recover_operation oid) (ret True) else ret False)"

definition settle_one :: "string \<Rightarrow> ('z task_st_scheme, bool) py" where
  "settle_one tid =
     bindE (get_task tid) (\<lambda>t.
     if tk_desired_state t \<in> {TS_PAUSED, TS_CANCELLED}
     then bindE (settle_control tid True False) (\<lambda>t'. ret (tk_state t' \<noteq> tk_state t))
     else ret False)"

record recovery_counts =
  operations_reconciled :: int
  controls_settled :: int

definition recover :: "(('w, 'z) op_st_scheme, recovery_counts) py" where
  "recover =
     bindE (gets (\<lambda>s. map fst (operations s))) (\<lambda>oids.
     bindE (mapE recover_one oids) (\<lambda>rs.
     bindE (gets (\<lambda>s. map fst (tasks s))) (\<lambda>tids.
     bindE (mapE settle_one tids) (\<lambda>cs.
     thenE flush_outbox
     (ret \<lparr>operations_reconciled = int (length (filter id rs)),
           controls_settled = int (length (filter id cs))\<rparr>)))))"

section \<open>Recovery keeps the tables\<close>

lemma keeps_engine_recover_all: "keeps engine_ok recover"
  unfolding recover_def recover_one_def settle_one_def get_operation_def get_task_def
  by (intro wp keeps_engine_recover)

section \<open>One operation\<close>

text \<open>Everything but the operation at hand and the world outside.\<close>

definition rest_same :: "string \<Rightarrow> ('w, 'z) op_st_scheme \<Rightarrow> ('w, 'z) op_st_scheme \<Rightarrow> bool" where
  "rest_same oid s0 s \<longleftrightarrow> capabilities s = capabilities s0 \<and> tasks s = tasks s0 \<and> world s = world s0
     \<and> (\<forall>k. k \<noteq> oid \<longrightarrow> map_of (operations s) k = map_of (operations s0) k)
     \<and> map fst (operations s) = map fst (operations s0)"

lemma keeps_rest_put [wp]:
  fixes s0 :: "('w, 'z) op_st_scheme"
  assumes "op_operation_id p = oid" and "oid \<in> set (map fst (operations s0))"
  shows "keeps (rest_same oid s0) (put_and_record p et actor pl)"
    "keeps (rest_same oid s0) (put_and_save p)"
proof -
  have *: "rest_same oid s0 s'" if "rest_same oid s0 s"
    and "wrote p (s\<lparr>operations := AList.update (op_operation_id p) p (operations s)\<rparr>) s'"
    for s s' :: "('w, 'z) op_st_scheme"
  proof -
    have "oid \<in> fst ` set (operations s)"
      using that(1) assms(2) by (metis image_set rest_same_def)
    then show ?thesis
      using that assms by (simp add: wrote_def rest_same_def keys_update)
  qed
  show "keeps (rest_same oid s0) (put_and_record p et actor pl)"
    by (rule keepsI) (metis * put_and_record_run snd_conv)
  show "keeps (rest_same oid s0) (put_and_save p)"
    by (rule keepsI) (metis * put_and_save_run snd_conv)
qed

lemma keeps_rest_call [wp]: "keeps (rest_same oid s0) (call f)"
  by (rule keepsI) (simp add: py_simps rest_same_def split: prod.splits)

lemma keeps_rest_verify [wp]:
  "op_operation_id p = oid \<Longrightarrow> oid \<in> set (map fst (operations s0)) \<Longrightarrow>
    keeps (rest_same oid s0) (verify_operation p cap)"
  "op_operation_id p = oid \<Longrightarrow> oid \<in> set (map fst (operations s0)) \<Longrightarrow>
    keeps (rest_same oid s0) (reconcile_operation p cap)"
  unfolding verify_operation_def reconcile_operation_def put_bind by (intro wp; simp)+

text \<open>Where recovery leaves an operation.\<close>

definition at_rest :: "operation \<Rightarrow> bool" where
  "at_rest p \<longleftrightarrow> op_state p \<notin> {OS_PREPARED, OS_RUNNING, OS_RECONCILING}
     \<and> (op_state p = OS_OBSERVED \<longrightarrow> op_result p = None)"

lemma verified_at_rest: "at_rest (fst (verified p cap w))"
  by (auto simp: verified_def at_rest_def Let_def split: option.splits prod.splits sum.splits)

lemma reconcile_operation_run:
  "\<exists>s' p'. reconcile_operation p cap s = (Inr p', s') \<and> at_rest p' \<and> op_operation_id p' = op_operation_id p
    \<and> map_of (operations s') (op_operation_id p) = Some p'"
proof -
  let ?p1 = "p\<lparr>op_state := OS_RECONCILING\<rparr>"
  obtain s1 where s1: "put_and_record ?p1 ''operation.reconciling'' ''recovery'' [] s = (Inr ?p1, s1)"
    by (rule put_and_record_shows)
  let ?asked = "bindE (of_result (resolve_locators (world s1) ?p1)) (\<lambda>locators. call (cap_reconcile cap ?p1 locators))"
  obtain r s2 where r: "?asked s1 = (r, s2)" by fastforce
  define q where "q = (case r of Inl e \<Rightarrow> ?p1\<lparr>op_state := OS_UNKNOWN, op_error := Some (exc_repr e)\<rparr>
    | Inr (v, res) \<Rightarrow> ?p1\<lparr>op_result := Some res, op_state := (if v then OS_VERIFIED else OS_FAILED)\<rparr>)"
  have q: "at_rest q" "op_operation_id q = op_operation_id p"
    by (auto simp: q_def at_rest_def split: sum.splits prod.splits)
  have "\<exists>s'. reconcile_operation p cap s = (Inr q, s') \<and> shows_op q (ext s2) s'"
  proof (cases r)
    case (Inl e)
    obtain s' where "put_and_record q ''operation.reconcile_error'' ''recovery'' [(''error'', JStr (exc_repr e))] s2
        = (Inr q, s')" "shows_op q (ext s2) s'" by (rule put_and_record_shows)
    with Inl s1 r show ?thesis by (auto simp: reconcile_operation_def py_simps q_def)
  next
    case (Inr y)
    then obtain v res where y: "r = Inr (v, res)" by (cases y) auto
    obtain s' where "put_and_record q ''operation.reconciled'' ''recovery'' [(''verified'', JBool v)] s2
        = (Inr q, s')" "shows_op q (ext s2) s'" by (rule put_and_record_shows)
    with y s1 r show ?thesis by (auto simp: reconcile_operation_def py_simps q_def)
  qed
  with q show ?thesis by (auto simp: shows_op_def)
qed

text \<open>One operation of the loop: it is at rest afterwards, the others are as before.\<close>

lemma recover_one_run:
  assumes "map_of (operations s) oid = Some p" and "op_operation_id p = oid"
    and "interrupted p \<longrightarrow> op_state p = OS_PREPARED \<or> map_of (capabilities s) (op_capability p) \<noteq> None"
  shows "\<exists>p' s'. recover_one oid s = (Inr (interrupted p), s') \<and> rest_same oid s s'
    \<and> map_of (operations s') oid = Some p' \<and> at_rest p' \<and> (interrupted p \<or> p' = p)"
proof (cases "interrupted p")
  case False
  with assms(1) show ?thesis
    by (auto simp: recover_one_def py_simps rest_same_def at_rest_def interrupted_def)
next
  case True
  have key: "oid \<in> set (map fst (operations s))" using map_of_SomeD[OF assms(1)] by force
  have start: "rest_same oid s s" by (simp add: rest_same_def)
  have "\<exists>p' s'. recover_operation oid s = (Inr p', s') \<and> rest_same oid s s'
    \<and> map_of (operations s') oid = Some p' \<and> at_rest p'"
  proof (cases "op_state p = OS_PREPARED")
    case True
    let ?q = "p\<lparr>op_state := OS_CANCELLED\<rparr>"
    let ?m = "put_and_record ?q ''operation.abandoned_prepared'' ''recovery''
        [(''reason'', JStr ''no external execution was recorded before restart'')]"
    obtain s' where s': "?m s = (Inr ?q, s')" "shows_op ?q (ext s) s'"
      by (rule put_and_record_shows)
    have "rest_same oid s s'"
      using keepsE[OF keeps_rest_put(1)[OF _ key] s'(1) start] assms(2) by simp
    with s' True assms(1,2) show ?thesis
      by (auto simp: recover_operation_def py_simps shows_op_def at_rest_def)
  next
    case False
    with assms(3) True obtain cap where cap: "map_of (capabilities s) (op_capability p) = Some cap" by auto
    show ?thesis
    proof (cases "op_state p \<in> {OS_OBSERVED, OS_VERIFYING} \<and> op_result p \<noteq> None")
      case True
      obtain s' p' w' where v: "verify_operation p cap s = (Inr p', s')" "verified p cap (ext s) = (p', w')"
        "shows_op p' w' s'" using verify_operation_run[of p cap s] by blast
      have "op_operation_id p' = oid"
        using v(2) assms(2) by (auto simp: verified_def Let_def split: option.splits prod.splits sum.splits)
      moreover have "rest_same oid s s'"
        by (rule keepsE[OF keeps_rest_verify(1)[OF assms(2) key] v(1) start])
      moreover have "recover_operation oid s = (Inr p', s')"
        using assms(1) cap v(1) True False by (auto simp: recover_operation_def py_simps)
      ultimately show ?thesis
        using v verified_at_rest[of p cap "ext s"] by (auto simp: shows_op_def)
    next
      case no: False
      show ?thesis
      proof (cases "op_state p \<in> {OS_RUNNING, OS_UNKNOWN, OS_RECONCILING}")
        case True
        obtain s' p' where r: "reconcile_operation p cap s = (Inr p', s')" "at_rest p'"
          "map_of (operations s') oid = Some p'"
          using reconcile_operation_run[of p cap s] assms(2) by auto
        have "rest_same oid s s'"
          by (rule keepsE[OF keeps_rest_verify(2)[OF assms(2) key] r(1) start])
        moreover have "recover_operation oid s = (Inr p', s')"
          using assms(1) cap r(1) True False no by (auto simp: recover_operation_def py_simps)
        ultimately show ?thesis using r by blast
      next
        case True': False
        with assms(1) cap no False start \<open>interrupted p\<close> show ?thesis
          by (auto simp: recover_operation_def py_simps at_rest_def interrupted_def)
      qed
    qed
  qed
  with True assms(1) show ?thesis by (auto simp: recover_one_def py_simps)
qed

lemma recover_loop:
  assumes "distinct oids"
    and "\<And>oid. oid \<in> set oids \<Longrightarrow> \<exists>p. map_of (operations s) oid = Some p \<and> op_operation_id p = oid
      \<and> (interrupted p \<longrightarrow> op_state p = OS_PREPARED \<or> map_of (capabilities s) (op_capability p) \<noteq> None)"
  shows "\<exists>bs s'. mapE recover_one oids s = (Inr bs, s')
    \<and> bs = map (\<lambda>oid. interrupted (the (map_of (operations s) oid))) oids
    \<and> capabilities s' = capabilities s \<and> tasks s' = tasks s \<and> map fst (operations s') = map fst (operations s)
    \<and> (\<forall>k. k \<notin> set oids \<longrightarrow> map_of (operations s') k = map_of (operations s) k)
    \<and> (\<forall>oid \<in> set oids. \<exists>p'. map_of (operations s') oid = Some p' \<and> at_rest p')"
  using assms
proof (induction oids arbitrary: s)
  case Nil
  then show ?case by (simp add: py_simps)
next
  case (Cons oid oids)
  obtain p where p: "map_of (operations s) oid = Some p" "op_operation_id p = oid"
    "interrupted p \<longrightarrow> op_state p = OS_PREPARED \<or> map_of (capabilities s) (op_capability p) \<noteq> None"
    using Cons.prems(2)[of oid] by auto
  obtain p' s1 where 1: "recover_one oid s = (Inr (interrupted p), s1)" "rest_same oid s s1"
    "map_of (operations s1) oid = Some p'" "at_rest p'"
    using recover_one_run[OF p] by blast
  have same: "map_of (operations s1) k = map_of (operations s) k" if "k \<noteq> oid" for k
    using 1(2) that by (simp add: rest_same_def)
  have caps: "capabilities s1 = capabilities s" using 1(2) by (simp add: rest_same_def)
  have "\<exists>p. map_of (operations s1) k = Some p \<and> op_operation_id p = k
      \<and> (interrupted p \<longrightarrow> op_state p = OS_PREPARED \<or> map_of (capabilities s1) (op_capability p) \<noteq> None)"
    if "k \<in> set oids" for k
    using Cons.prems that same[of k] caps by (metis distinct.simps(2) list.set_intros(2))
  then obtain bs s2 where 2: "mapE recover_one oids s1 = (Inr bs, s2)"
    "bs = map (\<lambda>oid. interrupted (the (map_of (operations s1) oid))) oids"
    "capabilities s2 = capabilities s1" "tasks s2 = tasks s1" "map fst (operations s2) = map fst (operations s1)"
    "\<forall>k. k \<notin> set oids \<longrightarrow> map_of (operations s2) k = map_of (operations s1) k"
    "\<forall>oid \<in> set oids. \<exists>p'. map_of (operations s2) oid = Some p' \<and> at_rest p'"
    using Cons.IH[of s1] Cons.prems(1) by auto
  have "bs = map (\<lambda>oid. interrupted (the (map_of (operations s) oid))) oids"
  proof -
    have "map_of (operations s1) k = map_of (operations s) k" if "k \<in> set oids" for k
      using same that Cons.prems(1) by (metis distinct.simps(2))
    with 2(2) show ?thesis by simp
  qed
  with 1 2 p(1) same Cons.prems(1) show ?case by (auto simp: py_simps rest_same_def)
qed

section \<open>One task\<close>

definition control_settled :: "task \<Rightarrow> bool" where
  "control_settled t \<longleftrightarrow> (tk_desired_state t \<in> {TS_PAUSED, TS_CANCELLED} \<longrightarrow> tk_state t = tk_desired_state t)"

lemma settle_one_run:
  assumes "map_of (tasks s) tid = Some t" and "tk_task_id t = tid"
  shows "\<exists>b t' s'. settle_one tid s = (Inr b, s') \<and> map_of (tasks s') tid = Some t'
    \<and> control_settled t' \<and> tk_desired_state t' = tk_desired_state t
    \<and> (\<forall>k. k \<noteq> tid \<longrightarrow> map_of (tasks s') k = map_of (tasks s) k)
    \<and> map fst (tasks s') = map fst (tasks s) \<and> task_st.more s' = task_st.more s
    \<and> events_durable s' = events_durable s"
proof (cases "tk_state (settled True False t) \<noteq> tk_state t")
  case True
  let ?t = "settled True False t"
  let ?m = "touch_and_record ?t ''task.control_settled'' ''engine''
        [(''desired'', JStr (task_state_value (tk_desired_state ?t))),
         (''actual'', JStr (task_state_value (tk_state ?t)))]"
  have t: "tk_desired_state t \<in> {TS_PAUSED, TS_CANCELLED}" "control_settled ?t" "tk_task_id ?t = tid"
    "tk_desired_state ?t = tk_desired_state t"
    using True assms(2) by (auto simp: settled_def control_settled_def split: if_splits)
  obtain s' where s': "?m s = (Inr (?t\<lparr>tk_revision := tk_revision ?t + 1\<rparr>), s')"
    "tasks s' = AList.update tid (?t\<lparr>tk_revision := tk_revision ?t + 1\<rparr>) (tasks s)"
    "task_st.more s' = task_st.more s" "events_durable s' = events_durable s"
    by (rule touch_and_record_result[of ?t "''task.control_settled''" "''engine''"
          "[(''desired'', JStr (task_state_value (tk_desired_state ?t))),
            (''actual'', JStr (task_state_value (tk_state ?t)))]" s]) (simp add: assms(2))
  have "settle_control tid True False s = ?m s"
    using assms(1) True by (simp add: settle_control_def py_simps Let_def)
  moreover have "tid \<in> fst ` set (tasks s)" using map_of_SomeD[OF assms(1)] by force
  ultimately show ?thesis
    using s' t assms(1) by (auto simp: settle_one_def py_simps control_settled_def keys_update)
next
  case False
  then have "control_settled t" by (auto simp: settled_def control_settled_def split: if_splits)
  with False assms(1) show ?thesis
    by (auto simp: settle_one_def settle_control_def py_simps Let_def settled_def split: if_splits)
qed

lemma settle_loop:
  assumes "distinct tids"
    and "\<And>tid. tid \<in> set tids \<Longrightarrow> \<exists>t. map_of (tasks s) tid = Some t \<and> tk_task_id t = tid"
  shows "\<exists>bs s'. mapE settle_one tids s = (Inr bs, s')
    \<and> (\<forall>tid \<in> set tids. \<exists>t'. map_of (tasks s') tid = Some t' \<and> control_settled t')
    \<and> (\<forall>k. k \<notin> set tids \<longrightarrow> map_of (tasks s') k = map_of (tasks s) k)
    \<and> map fst (tasks s') = map fst (tasks s) \<and> task_st.more s' = task_st.more s
    \<and> events_durable s' = events_durable s"
  using assms
proof (induction tids arbitrary: s)
  case Nil
  then show ?case by (simp add: py_simps)
next
  case (Cons tid tids)
  obtain t where t: "map_of (tasks s) tid = Some t" "tk_task_id t = tid"
    using Cons.prems(2)[of tid] by auto
  obtain b t' s1 where 1: "settle_one tid s = (Inr b, s1)" "map_of (tasks s1) tid = Some t'"
    "control_settled t'" "\<forall>k. k \<noteq> tid \<longrightarrow> map_of (tasks s1) k = map_of (tasks s) k"
    "map fst (tasks s1) = map fst (tasks s)" "task_st.more s1 = task_st.more s"
    "events_durable s1 = events_durable s"
    using settle_one_run[OF t] by blast
  have "\<exists>t. map_of (tasks s1) k = Some t \<and> tk_task_id t = k" if "k \<in> set tids" for k
    using Cons.prems that 1(4) by (metis distinct.simps(2) list.set_intros(2))
  then obtain bs s2 where "mapE settle_one tids s1 = (Inr bs, s2)"
    "\<forall>tid \<in> set tids. \<exists>t'. map_of (tasks s2) tid = Some t' \<and> control_settled t'"
    "\<forall>k. k \<notin> set tids \<longrightarrow> map_of (tasks s2) k = map_of (tasks s1) k"
    "map fst (tasks s2) = map fst (tasks s1)" "task_st.more s2 = task_st.more s1"
    "events_durable s2 = events_durable s1"
    using Cons.IH[of s1] Cons.prems(1) by auto
  with 1 Cons.prems(1) show ?case by (auto simp: py_simps)
qed

section \<open>The whole recovery\<close>

lemma keeps_durable_flag:
  "keeps (\<lambda>s. events_durable s = b) (commit_db f)" "keeps (\<lambda>s. events_durable s = b) (new_id pfx)"
  "keeps (\<lambda>s. events_durable s = b) now" "keeps (\<lambda>s. events_durable s = b) (put_operation p)"
  "keeps (\<lambda>s. events_durable s = b) (call f')"
  "keeps (\<lambda>s. events_durable s = b) (modify (\<lambda>s. s\<lparr>mem_outbox := ob s\<rparr>))"
  by (rule keepsI, simp add: py_simps split: prod.splits)+

lemma keeps_durable_recover: "keeps (\<lambda>s. events_durable s = b) (recover_one oid)"
  unfolding recover_one_def recover_operation_def get_operation_def get_capability_def
    put_and_record_def put_and_save_def record_operation_def save_operation_with_outbox_event_def
    save_op_def save_operation_def verify_operation_def reconcile_operation_def enqueue_outbox_def
    enqueue_event_outbox_def insert_outbox_def Let_def
  by (intro wp keeps_durable_flag)

lemma keeps_flush_tables: "keeps (\<lambda>s. tasks s = ts \<and> operations s = ops) flush_outbox"
proof -
  have "keeps (\<lambda>s. tasks s = ts \<and> operations s = ops) (dispatch_row r)" for r
    unfolding dispatch_row_def
    by (intro wp) (auto simp: keeps_def py_simps)
  moreover have "keeps (\<lambda>s. tasks s = ts \<and> operations s = ops) (emit x)" for x
    by (simp add: keeps_def emit_def py_simps)
  moreover have "keeps (\<lambda>s. tasks s = ts \<and> operations s = ops) (modify (\<lambda>s. s\<lparr>mem_outbox := []\<rparr>))"
    by (simp add: keeps_def py_simps)
  ultimately show ?thesis
    unfolding flush_outbox_def dispatch_event_outbox_def by (intro wp)
qed

lemma ran_key: "x \<in> ran (map_of m) \<Longrightarrow> \<exists>k \<in> set (map fst m). map_of m k = Some x"
proof -
  assume "x \<in> ran (map_of m)"
  then obtain k where k: "map_of m k = Some x" by (auto simp: ran_def)
  then have "k \<in> set (map fst m)" by (metis map_of_eq_None_iff option.distinct(1) image_set)
  with k show ?thesis by blast
qed

text \<open>What recovery leaves behind, for a process whose store is consistent.\<close>

lemma recover_run:
  assumes ok: "engine_ok s" and ev: "events_durable s"
    and caps: "\<And>p. p \<in> ran (map_of (operations s)) \<Longrightarrow> interrupted p \<Longrightarrow> op_state p \<noteq> OS_PREPARED \<Longrightarrow>
      map_of (capabilities s) (op_capability p) \<noteq> None"
  shows "\<exists>cnt s'. recover s = (Inr cnt, s') \<and> engine_ok s'
    \<and> operations_reconciled cnt = int (length (filter interrupted (map snd (operations s))))
    \<and> map fst (operations s') = map fst (operations s) \<and> map fst (tasks s') = map fst (tasks s)
    \<and> (\<forall>p \<in> ran (map_of (operations s')). at_rest p)
    \<and> (\<forall>t \<in> ran (map_of (tasks s')). control_settled t)"
proof -
  have keyed: "keyed op_operation_id (operations s)" "keyed tk_task_id (tasks s)"
    using ok by (auto simp: engine_ok_def ops_ok_def runtime_ok_def tasks_synced_def)
  have dist: "distinct (map fst (operations s))" "distinct (map fst (tasks s))"
    using keyed by (auto simp: keyed_def)
  have "\<exists>p. map_of (operations s) oid = Some p \<and> op_operation_id p = oid
      \<and> (interrupted p \<longrightarrow> op_state p = OS_PREPARED \<or> map_of (capabilities s) (op_capability p) \<noteq> None)"
    if "oid \<in> set (map fst (operations s))" for oid
  proof -
    obtain p where p: "map_of (operations s) oid = Some p"
      using \<open>oid \<in> set (map fst (operations s))\<close> by (metis map_of_eq_None_iff not_Some_eq image_set)
    with keyed_lookup[OF keyed(1) p] caps[of p] show ?thesis by (auto intro: ranI)
  qed
  from recover_loop[OF dist(1) this] obtain bs s1 where 1: "mapE recover_one (map fst (operations s)) s = (Inr bs, s1)"
    "bs = map (\<lambda>oid. interrupted (the (map_of (operations s) oid))) (map fst (operations s))"
    "tasks s1 = tasks s" "map fst (operations s1) = map fst (operations s)"
    "\<forall>oid \<in> set (map fst (operations s)). \<exists>p'. map_of (operations s1) oid = Some p' \<and> at_rest p'"
    by blast
  have "\<exists>t. map_of (tasks s1) tid = Some t \<and> tk_task_id t = tid" if "tid \<in> set (map fst (tasks s1))" for tid
    using that 1(3) keyed_lookup[OF keyed(2)] by (metis map_of_eq_None_iff not_Some_eq image_set)
  moreover have "distinct (map fst (tasks s1))" using dist(2) 1(3) by simp
  ultimately obtain cs s2 where 2: "mapE settle_one (map fst (tasks s1)) s1 = (Inr cs, s2)"
    "\<forall>tid \<in> set (map fst (tasks s1)). \<exists>t'. map_of (tasks s2) tid = Some t' \<and> control_settled t'"
    "map fst (tasks s2) = map fst (tasks s1)" "task_st.more s2 = task_st.more s1"
    "events_durable s2 = events_durable s1"
    using settle_loop[of "map fst (tasks s1)" s1] by blast
  have ops2: "operations s2 = operations s1" using 2(4) by (cases s1; cases s2) simp
  have dur: "events_durable s2"
    using keepsE[OF keeps_mapE[OF keeps_durable_recover] 1(1), of True] ev 2(5) by simp
  have "keeps engine_ok (mapE recover_one oids)" for oids
    unfolding recover_one_def get_operation_def by (intro wp keeps_engine_recover)
  then have "engine_ok s1" using 1(1) ok by (auto dest: keepsE)
  moreover have "keeps engine_ok (mapE settle_one tids)" for tids
    unfolding settle_one_def get_task_def by (intro wp)
  ultimately have ok2: "engine_ok s2" using 2(1) by (auto dest: keepsE)
  then have "facade_ok s2" using dur by (simp add: facade_ok_def engine_ok_def runtime_ok_def)
  then obtain es s3 where 3: "flush_outbox s2 = (Inr es, s3)" using facade.flush_appends by blast
  have keep: "tasks s3 = tasks s2" "operations s3 = operations s2"
    using keepsE[OF keeps_flush_tables 3, of "tasks s2" "operations s2"] by auto
  have ok3: "engine_ok s3" using keepsE[OF keeps_engine_flush 3 ok2] .
  have run: "recover s = (Inr \<lparr>operations_reconciled = int (length (filter id bs)),
      controls_settled = int (length (filter id cs))\<rparr>, s3)"
    using 1(1) 2(1) 3 by (simp add: recover_def py_simps)
  have "map (\<lambda>oid. interrupted (the (map_of (operations s) oid))) (map fst (operations s)) =
      map interrupted (map snd (operations s))"
    using dist(1) by (auto intro!: map_cong)
  then have "bs = map interrupted (map snd (operations s))" using 1(2) by metis
  then have cnt: "length (filter id bs) = length (filter interrupted (map snd (operations s)))"
    by (simp add: filter_map comp_def)
  have "at_rest p" if p: "p \<in> ran (map_of (operations s3))" for p
  proof -
    obtain k where k: "k \<in> set (map fst (operations s1))" "map_of (operations s1) k = Some p"
      using ran_key[OF p] unfolding keep(2) ops2 by blast
    have "\<exists>p'. map_of (operations s1) k = Some p' \<and> at_rest p'"
      by (rule bspec[OF 1(5)]) (use k(1) in \<open>simp only: 1(4)\<close>)
    with k(2) show ?thesis by simp
  qed
  moreover have "control_settled t" if t: "t \<in> ran (map_of (tasks s3))" for t
  proof -
    obtain k where k: "k \<in> set (map fst (tasks s2))" "map_of (tasks s2) k = Some t"
      using ran_key[OF t] unfolding keep(1) by blast
    have "\<exists>t'. map_of (tasks s2) k = Some t' \<and> control_settled t'"
      by (rule bspec[OF 2(2)]) (use k(1) in \<open>simp only: 2(3)\<close>)
    with k(2) show ?thesis by simp
  qed
  ultimately show ?thesis
    using run ok3 cnt keep ops2 1(3,4) 2(3) by simp
qed

section \<open>Recovery calls no action\<close>

text \<open>\<open>Q\<close> holds outside, and the verification and reconciliation of every capability keep it.\<close>

definition observes :: "('w \<Rightarrow> bool) \<Rightarrow> 'w capability \<Rightarrow> bool" where
  "observes Q cap \<longleftrightarrow> (\<forall>p r w. Q w \<longrightarrow> Q (snd (cap_verify cap p r w)))
     \<and> (\<forall>p locs w. Q w \<longrightarrow> Q (snd (cap_reconcile cap p locs w)))"

definition outside_ok :: "('w \<Rightarrow> bool) \<Rightarrow> (string \<times> 'w capability) list \<Rightarrow> ('w, 'z) op_st_scheme \<Rightarrow> bool" where
  "outside_ok Q cs s \<longleftrightarrow> Q (ext s) \<and> capabilities s = cs"

lemma keeps_outside_put [wp_ext]:
  fixes Q :: "'w \<Rightarrow> bool"
  shows "keeps (outside_ok Q cs :: ('w, 'z) op_st_scheme \<Rightarrow> bool) (put_and_record p et actor pl)"
    "keeps (outside_ok Q cs :: ('w, 'z) op_st_scheme \<Rightarrow> bool) (put_and_save p)"
proof -
  have *: "outside_ok Q cs s'" if "outside_ok Q cs s"
    and "wrote p (s\<lparr>operations := AList.update (op_operation_id p) p (operations s)\<rparr>) s'"
    for s s' :: "('w, 'z) op_st_scheme"
    using that by (simp add: outside_ok_def wrote_def)
  show "keeps (outside_ok Q cs :: ('w, 'z) op_st_scheme \<Rightarrow> bool) (put_and_record p et actor pl)"
    by (rule keepsI) (metis * put_and_record_run snd_conv)
  show "keeps (outside_ok Q cs :: ('w, 'z) op_st_scheme \<Rightarrow> bool) (put_and_save p)"
    by (rule keepsI) (metis * put_and_save_run snd_conv)
qed

lemma keeps_outside_call: "(\<And>w. Q w \<Longrightarrow> Q (snd (f w))) \<Longrightarrow> keeps (outside_ok Q cs) (call f)"
  by (rule keepsI) (auto simp: py_simps outside_ok_def split: prod.splits, metis snd_conv)

lemma keeps_outside_recover:
  fixes Q :: "'w \<Rightarrow> bool"
  assumes "\<forall>cap \<in> ran (map_of cs). observes Q cap"
  shows "keeps (outside_ok Q cs :: ('w, 'z) op_st_scheme \<Rightarrow> bool) (recover_operation oid)"
proof (rule keepsI)
  fix s :: "('w, 'z) op_st_scheme"
  assume s: "outside_ok Q cs s"
  have body: "keeps (outside_ok Q cs :: ('w, 'z) op_st_scheme \<Rightarrow> bool) (verify_operation p cap)"
    "keeps (outside_ok Q cs :: ('w, 'z) op_st_scheme \<Rightarrow> bool) (reconcile_operation p cap)"
    if "observes Q cap" for p cap
    unfolding verify_operation_def reconcile_operation_def
    by (intro wp wp_ext keeps_outside_call; use that in \<open>simp add: observes_def\<close>)+
  note put = keepsD[OF keeps_outside_put(1) s]
  show "outside_ok Q cs (snd (recover_operation oid s))"
  proof (cases "map_of (operations s) oid")
    case None
    with s show ?thesis by (simp add: recover_operation_def py_simps)
  next
    case (Some p)
    show ?thesis
    proof (cases "map_of (capabilities s) (op_capability p)")
      case None
      with Some s show ?thesis by (simp add: recover_operation_def py_simps put)
    next
      case (Some cap)
      then have "observes Q cap" using assms s by (auto simp: outside_ok_def intro: ranI)
      with \<open>map_of (operations s) oid = Some p\<close> Some s show ?thesis
        by (simp add: recover_operation_def py_simps put keepsD[OF body(1) s] keepsD[OF body(2) s])
    qed
  qed
qed

lemma keeps_outside_tables:
  fixes Q :: "'w \<Rightarrow> bool"
  shows "keeps (outside_ok Q cs :: ('w, 'z) op_st_scheme \<Rightarrow> bool) (settle_one tid)" "keeps (outside_ok Q cs :: ('w, 'z) op_st_scheme \<Rightarrow> bool) flush_outbox"
proof -
  have more: "outside_ok Q cs s'" if "outside_ok Q cs s" and "task_st.more s' = task_st.more s"
    for s s' :: "('w, 'z) op_st_scheme"
    using that by (cases s; cases s') (simp add: outside_ok_def)
  have "keeps (\<lambda>s :: ('w, 'z) op_st_scheme. task_st.more s = x) (settle_one tid)" for x
    unfolding settle_one_def get_task_def by (intro wp wp_ext)
  then have "task_st.more (snd (settle_one tid s)) = task_st.more s" for s :: "('w, 'z) op_st_scheme"
    using keepsD by fastforce
  with more show "keeps (outside_ok Q cs :: ('w, 'z) op_st_scheme \<Rightarrow> bool) (settle_one tid)"
    by (intro keepsI) blast
  have "keeps (outside_ok Q cs :: ('w, 'z) op_st_scheme \<Rightarrow> bool) (dispatch_row r)" for r
    by (rule keepsI) (auto simp: dispatch_row_def py_simps outside_ok_def split: option.splits)
  moreover have "keeps (outside_ok Q cs :: ('w, 'z) op_st_scheme \<Rightarrow> bool) (emit x)" for x
    by (simp add: keeps_def emit_def py_simps outside_ok_def)
  moreover have "keeps (outside_ok Q cs :: ('w, 'z) op_st_scheme \<Rightarrow> bool) (modify (\<lambda>s. s\<lparr>mem_outbox := []\<rparr>))"
    by (simp add: keeps_def py_simps outside_ok_def)
  ultimately show "keeps (outside_ok Q cs :: ('w, 'z) op_st_scheme \<Rightarrow> bool) flush_outbox"
    unfolding flush_outbox_def dispatch_event_outbox_def by (intro wp)
qed

section \<open>Properties\<close>

text \<open>The records loaded are the rows of the table.\<close>

lemma loaded_rows:
  assumes "loaded (set rs) m" and "represents_memory rs d"
  shows "map_of (ms_records m) mid = Some r \<longleftrightarrow> map_of (memory_tbl d) mid = Some (memory_to_row r)"
proof -
  have rows: "memory_tbl d = map row_entry rs" "distinct (map me_memory_id rs)"
    using assms(2) chainD(1) by (auto simp: represents_memory_def)
  have "map_of (memory_tbl d) mid = Some (memory_to_row r) \<longleftrightarrow> r \<in> set rs \<and> me_memory_id r = mid"
  proof
    assume "map_of (memory_tbl d) mid = Some (memory_to_row r)"
    then have "map_of (map row_entry rs) mid = Some (memory_to_row r)" by (simp only: rows(1))
    from map_of_row_entryD[OF this] obtain q where
      q: "q \<in> set rs" "me_memory_id q = mid" "memory_to_row r = memory_to_row q" by blast
    moreover have "r = q" by (metis q(3) row_to_memory_to_row sum.inject(2))
    ultimately show "r \<in> set rs \<and> me_memory_id r = mid" by simp
  next
    assume "r \<in> set rs \<and> me_memory_id r = mid"
    with map_of_row_entry[OF rows(2), of r] show "map_of (memory_tbl d) mid = Some (memory_to_row r)"
      by (simp only: rows(1))
  qed
  with loadedD(1)[OF assms(1)] show ?thesis by simp
qed

text \<open>
  C21: a restart resumes the process. From the tables a durable process leaves behind at any
  moment between two methods, \<open>from_store\<close> rebuilds a process with the same tasks, the same
  operations and the same world (without the log of observations, which is not stored), again
  in agreement with the tables, on the tables as they are. Its memory is that of the table: it
  holds exactly the records of the memory table, each as its row says, with the greatest
  revision of every key as the latest. A record that the old process had committed without an
  event is in no table and is not found again.
\<close>

theorem restart_resumes:
  assumes "engine_ok s" and "ops_durable s" and "world_durable s" and "represents_memory rs (db s)"
    and "\<forall>r \<in> set rs. me_memory_id r \<noteq> []"
  shows "\<exists>s' mem. from_store reg caps s = Inr (s', mem) \<and> engine_ok s' \<and> db s' = db s
    \<and> tasks s' = tasks s \<and> operations s' = operations s \<and> world s' = (world s)\<lparr>observations := []\<rparr>
    \<and> task_runtime_post_init s' = Inr () \<and> operation_runtime_post_init s' = Inr ()
    \<and> loaded (set rs) mem
    \<and> (\<forall>mid r. map_of (ms_records mem) mid = Some r \<longleftrightarrow> map_of (memory_tbl (db s)) mid = Some (memory_to_row r))"
proof -
  have ok: "store_ok s" "world_saved s" "tasks_synced s" "ops_ok s" "ops_durable s = tasks_durable s"
    using assms(1) by (auto simp: engine_ok_def runtime_ok_def ops_ok_def)
  then have td: "tasks_durable s" using assms(2) by simp
  have w: "mirrors (db s) (world s)" using ok(2) assms(3) by (simp add: world_saved_def)
  obtain mem where mem: "from_persistence (db s) = Inr mem" "loaded (set rs) mem"
    using from_persistence_loaded[OF assms(4,5)] .
  let ?s = "s\<lparr>world_durable := True, world := (world s)\<lparr>observations := []\<rparr>,
      events_durable := True, mem_events := [], mem_outbox := [], mem_cursors := [],
      tasks_durable := True, ops_durable := True, registry := reg, capabilities := caps\<rparr>"
  have run: "from_store reg caps s = Inr (?s, mem)"
    using engine_ok_load[OF assms(1,2)] engine_ok_load_tasks[OF assms(1) td] mem(1) mirrors_load[OF w]
    by (simp add: from_store_def)
  have st: "store_ok ?s"
    by (rule store_ok_mono[OF ok(1)]) (simp_all add: same_log_def)
  have "world_saved ?s" using w by (simp add: world_saved_def mirrors_def)
  moreover have "tasks_synced ?s" using ok(3) td by (simp add: tasks_synced_def)
  moreover have "ops_ok ?s"
    using ok(4) assms(2) td by (simp add: ops_ok_def op_drawn_def)
  ultimately have "engine_ok ?s" using st by (simp add: engine_ok_def runtime_ok_def)
  with run mem(2) loaded_rows[OF mem(2) assms(4)] show ?thesis
    by (simp add: task_runtime_post_init_def operation_runtime_post_init_def)
qed

definition durable_engine :: "(string \<times> nat capability) list \<Rightarrow> nat op_st" where
  "durable_engine caps = task_st.extend
     (events_st.extend (fresh_events True) (task_st.fields True [])) (op_st.fields True [] caps [] 0)"

lemma durable_engine_sel [simp]:
  "db (durable_engine caps) = empty_db" "tasks (durable_engine caps) = []"
  "operations (durable_engine caps) = []" "ops_durable (durable_engine caps)"
  "world_durable (durable_engine caps)" "events_durable (durable_engine caps)"
  "tasks_durable (durable_engine caps)" "capabilities (durable_engine caps) = caps"
  "hex_supply (durable_engine caps) = sample_hex" "ids_drawn (durable_engine caps) = 0"
  "world (durable_engine caps) = empty_world" "ext (durable_engine caps) = 0"
  by (simp_all add: durable_engine_def task_st.defs op_st.defs events_st.defs fresh_events_def
      world_st.defs fresh_world_def sample_store_def fresh_store_def store_st.defs)

lemma durable_engine_ok: "engine_ok (durable_engine caps)"
proof -
  have "store_ok (durable_engine caps)"
    by (simp add: store_ok_def log_inv_def log_split_def cursors_ok_def empty_db_def inj_sample_hex)
  then show ?thesis
    by (simp add: engine_ok_def runtime_ok_def world_saved_def tasks_synced_def ops_ok_def mirrors_def
        tasks_saved_def operations_saved_def empty_db_def empty_world_def)
qed

theorem restart_resumes_witness:
  "\<exists>s' mem. from_store [] [] (durable_engine []) = Inr (s', mem) \<and> engine_ok s' \<and> db s' = empty_db
    \<and> tasks s' = [] \<and> operations s' = []"
proof -
  have "represents_memory [] (db (durable_engine []))" by (simp add: represents_memory_def empty_db_def)
  from restart_resumes[OF durable_engine_ok _ _ this] show ?thesis by fastforce
qed

text \<open>
  C22: recovery brings every operation to rest. When the events go to the store and the
  capability of every operation that was running, unknown, observed, verifying or reconciling
  is registered, \<open>recover\<close> returns, whatever the capabilities answer or raise (an operation whose
  capability is not registered makes it raise \<open>KeyError\<close> and stop there); afterwards
  no operation is prepared, running or reconciling, or observed with a result nobody verified,
  every task whose pause or cancellation was requested is paused or cancelled, none has been
  added or lost, and the tables agree with the process.
\<close>

theorem recovery_brings_to_rest:
  assumes "engine_ok s" and "events_durable s"
    and "\<And>p. p \<in> ran (map_of (operations s)) \<Longrightarrow> interrupted p \<Longrightarrow> op_state p \<noteq> OS_PREPARED \<Longrightarrow>
      map_of (capabilities s) (op_capability p) \<noteq> None"
  shows "\<exists>cnt s'. recover s = (Inr cnt, s') \<and> engine_ok s'
    \<and> operations_reconciled cnt = int (length (filter interrupted (map snd (operations s))))
    \<and> map fst (operations s') = map fst (operations s) \<and> map fst (tasks s') = map fst (tasks s)
    \<and> (\<forall>p \<in> ran (map_of (operations s')). op_state p \<notin> {OS_PREPARED, OS_RUNNING, OS_RECONCILING}
         \<and> (op_state p = OS_OBSERVED \<longrightarrow> op_result p = None))
    \<and> (\<forall>t \<in> ran (map_of (tasks s')). tk_desired_state t \<in> {TS_PAUSED, TS_CANCELLED} \<longrightarrow>
         tk_state t = tk_desired_state t)"
  using recover_run[OF assms] unfolding at_rest_def control_settled_def .

text \<open>A process that died with one prepared operation, and its table.\<close>

definition crashed :: "nat op_st" where
  "crashed = (let p = (sample_operation OS_PREPARED)\<lparr>op_operation_id := ''op_'' @ sample_hex 0\<rparr> in
     (durable_engine [])\<lparr>ids_drawn := 1, operations := [(op_operation_id p, p)],
       db := upsert_operation p empty_db\<rparr>)"

lemma crashed_ok: "engine_ok crashed"
proof -
  have "store_ok crashed"
    by (simp add: crashed_def Let_def store_ok_def log_inv_def log_split_def cursors_ok_def empty_db_def
        upsert_operation_def inj_sample_hex)
  then show ?thesis
    by (simp add: crashed_def Let_def engine_ok_def runtime_ok_def world_saved_def tasks_synced_def ops_ok_def
        mirrors_def tasks_saved_def operations_saved_def empty_db_def empty_world_def
        upsert_operation_def keyed_def op_drawn_def)
qed

theorem recovery_brings_to_rest_witness:
  "\<exists>cnt s'. recover crashed = (Inr cnt, s') \<and> engine_ok s' \<and> operations_reconciled cnt = 1"
proof -
  have "op_state p = OS_PREPARED" if "p \<in> ran (map_of (operations crashed))" for p
    using that by (auto simp: crashed_def Let_def ran_def sample_operation_def split: if_splits)
  moreover have "events_durable crashed"
    "filter interrupted (map snd (operations crashed)) = map snd (operations crashed)"
    by (simp_all add: crashed_def Let_def interrupted_def sample_operation_def)
  moreover have "length (operations crashed) = 1" by (simp add: crashed_def Let_def)
  ultimately show ?thesis using recovery_brings_to_rest[OF crashed_ok] by fastforce
qed

text \<open>
  C23: recovery never executes. Whatever \<open>Q\<close> the verification and the reconciliation of
  the registered capabilities keep outside the process still holds after \<open>recover\<close>,
  however it ends: no capability's \<open>execute\<close> is called, so an operation interrupted by a
  crash is not run a second time.
\<close>

theorem recovery_never_executes:
  assumes "Q (ext s)" and "\<forall>cap \<in> ran (map_of (capabilities s)).
      (\<forall>p r w. Q w \<longrightarrow> Q (snd (cap_verify cap p r w))) \<and> (\<forall>p locs w. Q w \<longrightarrow> Q (snd (cap_reconcile cap p locs w)))"
  shows "Q (ext (snd (recover s)))"
proof -
  have obs: "\<forall>cap \<in> ran (map_of (capabilities s)). observes Q cap" using assms(2) by (simp add: observes_def)
  have "keeps (outside_ok Q (capabilities s)) recover"
    unfolding recover_def recover_one_def get_operation_def
    by (intro wp keeps_outside_recover[OF obs] keeps_outside_tables)
  from keepsD[OF this, of s] assms(1) show ?thesis by (simp add: outside_ok_def)
qed

theorem recovery_never_executes_witness:
  "ext (snd (recover (sample_engine [] [sample_operation OS_RUNNING] [(''files'', counting)] 7))) = 7"
proof -
  let ?s = "sample_engine [] [sample_operation OS_RUNNING] [(''files'', counting)] (7 :: nat)"
  show ?thesis
    using recovery_never_executes[of "\<lambda>w. w = 7" ?s]
    by (auto simp: counting_def ran_def split: if_splits)
qed

end
