(* ===== verification/Outdated.thy ===== *)
theory Outdated
  imports Recovery
begin

text \<open>
  Operations that expect a \<open>tasks\<close> revision the world has left behind
  (\<^verbatim>\<open>src/liandanlu_native/runtime.py\<close>). The revision only grows, no method rewrites what an
  operation expects, and a fresh operation never takes the identifier of an old one, so that
  such an operation stays outdated through every method of the process.
\<close>

section \<open>An outdated operation\<close>

text \<open>What the operation under an identifier expects, if there is one.\<close>

definition expects :: "string \<Rightarrow> int \<Rightarrow> operation \<Rightarrow> bool" where
  "expects oid v p \<longleftrightarrow> (op_operation_id p = oid \<longrightarrow> (''tasks'', v) \<in> set (op_expected_revisions p))"

definition outdated :: "string \<Rightarrow> int \<Rightarrow> ('w, 'z) op_st_scheme \<Rightarrow> bool" where
  "outdated oid v s \<longleftrightarrow> inj (hex_supply s) \<and> op_drawn s oid \<and> keyed op_operation_id (operations s)
     \<and> v < rev_tasks (revisions (world s)) \<and> (\<forall>p. map_of (operations s) oid = Some p \<longrightarrow> expects oid v p)"

named_theorems old \<open>what keeps an operation outdated\<close>

lemma expects_fields [simp]:
  "expects oid v (p\<lparr>op_state := st\<rparr>) = expects oid v p" "expects oid v (p\<lparr>op_error := er\<rparr>) = expects oid v p"
  "expects oid v (p\<lparr>op_result := rs\<rparr>) = expects oid v p" "expects oid v (p\<lparr>op_evidence := ev\<rparr>) = expects oid v p"
  by (simp_all add: expects_def)

lemma outdated_frame:
  assumes "outdated oid v s" "hex_supply s' = hex_supply s" "ids_drawn s \<le> ids_drawn s'"
    "operations s' = operations s" "rev_tasks (revisions (world s)) \<le> rev_tasks (revisions (world s'))"
  shows "outdated oid v s'"
  using assms op_drawn_mono[of s oid s'] by (auto simp: outdated_def)

lemma keeps_outdated_host [old]:
  "keeps (outdated oid v) now" "keeps (outdated oid v) (new_id pfx)" "keeps (outdated oid v) (resolve_ts ts)"
  by (rule keepsI, auto simp: py_simps resolve_ts_def split: option.splits intro: outdated_frame)+

lemma keeps_outdated_tables [old]:
  "keeps (outdated oid v) (commit_db f)" "keeps (outdated oid v) (transaction g)"
  "keeps (outdated oid v) (on_table h)" "keeps (outdated oid v) (call c)"
  by (rule keepsI, auto simp: py_simps on_table_def split: prod.splits intro: outdated_frame)+

lemma keeps_outdated_events [old]:
  "keeps (outdated oid v) (insert_outbox a)" "keeps (outdated oid v) (enqueue_outbox a)"
  "keeps (outdated oid v) (emit item)" "keeps (outdated oid v) (modify (\<lambda>s. s\<lparr>mem_outbox := m\<rparr>))"
  "keeps (outdated oid v) (dispatch_row r)"
  by (rule keepsI, auto simp: py_simps insert_outbox_def enqueue_outbox_def enqueue_event_outbox_def emit_def
      dispatch_row_def split: option.splits intro: outdated_frame)+

lemma keeps_outdated_world [old]:
  "keeps (outdated oid v) bump_tasks_revision" "keeps (outdated oid v) persist_revisions"
  "keeps (outdated oid v) (bump_workspace ws)"
  "keeps (outdated oid v) (modify_world (\<lambda>w. w\<lparr>entities := f w\<rparr>))"
  "keeps (outdated oid v) (modify_world (\<lambda>w. w\<lparr>relations := g w\<rparr>))"
  "keeps (outdated oid v) (modify_world (\<lambda>w. w\<lparr>observations := h w\<rparr>))"
  by (rule keepsI, auto simp: py_simps Let_def save_world_tbls_def bumped_def intro: outdated_frame)+

lemma keeps_outdated_bump [old]: "keeps (outdated oid v) (bump_revision d)"
proof (rule keepsI)
  fix s :: "('w, 'z) op_st_scheme"
  assume o: "outdated oid v s"
  have "rev_tasks r \<le> rev_tasks r'" if "bump r d = Inr r'" for r r'
    using bump_attr[OF that, of "''tasks''"] by (auto simp: rev_attr_def split: if_splits)
  with o show "outdated oid v (snd (bump_revision d s))"
    by (auto simp: bump_revision_def modify_world_def py_simps split: sum.splits intro: outdated_frame)
qed

lemma keeps_outdated_put [old]: "keeps (outdated oid v) (put_task t)"
  by (rule keepsI) (auto simp: py_simps intro: outdated_frame)

lemma keeps_outdated_put_operation [old]:
  assumes "expects oid v p"
  shows "keeps (outdated oid v) (put_operation p)"
proof (rule keepsI)
  fix s :: "('w, 'z) op_st_scheme"
  assume o: "outdated oid v s"
  let ?s = "s\<lparr>operations := AList.update (op_operation_id p) p (operations s)\<rparr>"
  have "op_drawn ?s oid" by (rule op_drawn_mono[of s]) (use o in \<open>simp_all add: outdated_def\<close>)
  then have "outdated oid v ?s" using o assms by (auto simp: outdated_def keyed_update)
  then show "outdated oid v (snd (put_operation p s))" by (simp add: py_simps)
qed

text \<open>What a method reads as an operation, and what it draws as a new identifier.\<close>

lemma keeps_outdated_get [old]:
  fixes k :: "operation \<Rightarrow> (('w, 'z) op_st_scheme, 'a) py"
  assumes "\<And>p. expects oid v p \<Longrightarrow> keeps (outdated oid v) (k p)"
  shows "keeps (outdated oid v) (bindE (get_operation i) k)"
proof (rule keepsI)
  fix s :: "('w, 'z) op_st_scheme"
  assume o: "outdated oid v s"
  have "expects oid v p" if "map_of (operations s) i = Some p" for p
    using o that keyed_lookup[of op_operation_id "operations s" i p]
    by (cases "i = oid") (auto simp: outdated_def expects_def)
  with o assms show "outdated oid v (snd (bindE (get_operation i) k s))"
    by (auto simp: py_simps split: option.splits intro: keepsD)
qed

lemma keeps_outdated_fresh [old]:
  fixes k :: "string \<Rightarrow> (('w, 'z) op_st_scheme, 'a) py"
  assumes "\<And>i. i \<noteq> oid \<Longrightarrow> keeps (outdated oid v) (k i)"
  shows "keeps (outdated oid v) (bindE (new_id ''op'') k)"
proof (rule keepsI)
  fix s :: "('w, 'z) op_st_scheme"
  assume o: "outdated oid v s"
  have "''op_'' @ hex_supply s (ids_drawn s) \<noteq> oid"
    using o by (auto simp: outdated_def op_drawn_def dest: injD)
  moreover have "outdated oid v (s\<lparr>ids_drawn := Suc (ids_drawn s)\<rparr>)"
    using keepsD[OF keeps_outdated_host(2) o] by (simp add: py_simps)
  ultimately show "outdated oid v (snd (bindE (new_id ''op'') k s))"
    using assms by (auto simp: py_simps intro: keepsD)
qed

section \<open>Every method leaves it outdated\<close>

lemma keeps_outdated_records [old]:
  "keeps (outdated oid v) (record_task t et actor pl)" "keeps (outdated oid v) (record_operation p et actor pl)"
  "keeps (outdated oid v) (save_op p)" "keeps (outdated oid v) (record_prepared t p)"
  unfolding record_task_def save_task_with_outbox_event_def record_operation_def Let_def save_op_def save_operation_def
    save_operation_with_outbox_event_def record_prepared_def save_task_and_operation_with_outbox_event_def
  by (intro wp old)+

lemma keeps_outdated_store_task [old]: "keeps (outdated oid v) (store_task t et actor pl)"
  unfolding store_task_def by (intro wp old)

lemma keeps_outdated_put_and [old]:
  "expects oid v p \<Longrightarrow> keeps (outdated oid v) (put_and_record p et actor pl)"
  "expects oid v p \<Longrightarrow> keeps (outdated oid v) (put_and_save p)"
  unfolding put_and_record_def put_and_save_def by (intro wp old; assumption)+

lemma keeps_outdated_verify [old]:
  "expects oid v p \<Longrightarrow> keeps (outdated oid v) (verify_operation p cap)"
  "expects oid v p \<Longrightarrow> keeps (outdated oid v) (reconcile_operation p cap)"
  unfolding verify_operation_def reconcile_operation_def put_bind by (intro wp old; simp)+

lemma keeps_outdated_task_methods [old]:
  "keeps (outdated oid v) (create goal sc ws cs lane prio budget)"
  "keeps (outdated oid v) (queue tid)"
  "keeps (outdated oid v) (wait tid reason et)"
  "keeps (outdated oid v) (update_runtime_state tid st ph et actor)"
  "keeps (outdated oid v) (control tid desired)"
  "keeps (outdated oid v) (settle_control tid sb ec)"
  "keeps (outdated oid v) (evaluate_goal tid claims)"
  unfolding create_store queue_def wait_def update_runtime_state_def control_def
    settle_control_def evaluate_goal_def Let_def touch_and_record_store get_task_def
  by (intro wp old)+

lemma keeps_outdated_checks [old]:
  "keeps (outdated oid v) (check_task_lease t tlease)" "keeps (outdated oid v) (check_resource_lease t rlease)"
  unfolding check_task_lease_def check_resource_lease_def validate_task_lease_identity_def
    validate_resource_lease_identity_def resolve_ts_def option.case
  by (intro wp old)+

lemma keeps_outdated_prepare [old]: "keeps (outdated oid v) (prepare tid proposal er tlease rlease)"
proof -
  have p: "expects oid v (new_operation i t proposal spec er tlease rlease)" if "i \<noteq> oid" for i t spec
    using that by (simp add: expects_def)
  show ?thesis
    unfolding prepare_def get_task_def Let_def
    by (rule keeps_outdated_fresh p wp old | assumption)+
qed

lemma keeps_outdated_execute [old]: "keeps (outdated oid v) (execute i)" "keeps (outdated oid v) (recover_operation i)"
proof -
  have valid: "keeps (outdated oid v) (validate_task_lease_identity t own g None)"
    "keeps (outdated oid v) (validate_resource_lease_identity t own g None)" for t own g
    unfolding validate_task_lease_identity_def validate_resource_lease_identity_def by (intro wp old)+
  show "keeps (outdated oid v) (execute i)"
    unfolding execute_def begin_execution_def get_capability_def lease_check_def
    by (simp only: bindE_assoc bindE_thenE put_bind ret_bindE prod.case, rule keeps_outdated_get)
      (intro wp old valid; simp)
  show "keeps (outdated oid v) (recover_operation i)"
    unfolding recover_operation_def get_capability_def
    by (rule keeps_outdated_get) (intro wp old; simp)
qed

lemma keeps_outdated_flush [old]: "keeps (outdated oid v) flush_outbox"
  unfolding flush_outbox_def dispatch_event_outbox_def by (intro wp old)

lemma keeps_outdated_resources [old]:
  "keeps (outdated oid v) (acquire t own req secs now_ts)" "keeps (outdated oid v) (release_resource l)"
  unfolding acquire_def acquire_resource_lease_def release_resource_def release_resource_lease_def
  by (intro wp old)+

lemma keeps_outdated_world_methods [old]:
  "keeps (outdated oid v) (register_entity e)" "keeps (outdated oid v) (observe src typ x d ws)"
  "keeps (outdated oid v) (relate src rel tgt)"
  unfolding register_entity_def observe_def relate_def Let_def save_world_entity_def save_world_relation_def
  by (intro wp old)+

lemma keeps_outdated_run [old]: "keeps (outdated oid v) (run_operation tid proposal er tlease rlease)"
  unfolding run_operation_def lease_lost_wait_def after_operation_def
  by (intro wp old | split exc.split; safe | simp only:)+

lemma keeps_outdated_step [old]: "keeps (outdated oid v) (step tid manifest tlease)"
proof -
  have "keeps (outdated oid v) (obtain_resources tid spec tlease)" for spec
    unfolding obtain_resources_def wait_for_resource_def by (intro wp old)
  moreover have "keeps (outdated oid v) (release_if_held l)" for l
    unfolding release_if_held_def by (intro wp old)
  ultimately have "keeps (outdated oid v) (act tid proposal spec er tlease decision)" for proposal spec er decision
    unfolding act_def by (cases decision; simp only: policy_decision.case; intro wp old)
  then show ?thesis unfolding step_def think_def get_task_def by (intro wp old)
qed

lemma keeps_outdated_recover [old]: "keeps (outdated oid v) recover"
proof -
  have "keeps (outdated oid v) (recover_one i)" for i
    unfolding recover_one_def by (rule keeps_outdated_get) (intro wp old)
  moreover have "keeps (outdated oid v) (settle_one i)" for i
    unfolding settle_one_def get_task_def by (intro wp old)
  ultimately show ?thesis unfolding recover_def by (intro wp old)
qed

text \<open>Preparing with an expectation of the \<open>tasks\<close> revision makes an outdated operation.\<close>

lemma prepare_outdated:
  assumes "prepare tid proposal er tlease rlease s = (Inr p, s')" and "(''tasks'', v) \<in> set er" and "engine_ok s"
  shows "outdated (op_operation_id p) v s'"
proof -
  obtain t spec and ts :: pyfloat where run: "assert_revisions (world s) er (Some (tk_workspace_id t)) = Inr ()"
    "p = new_operation (op_operation_id p) t proposal spec er tlease rlease"
    "operations s' = AList.update (op_operation_id p) p (operations s)"
    "rev_tasks (revisions (world s')) = rev_tasks (revisions (world s)) + 1"
    by (rule prepare_run[OF assms(1)])
  have ok: "engine_ok s'" using keepsE[OF keeps_engine_prepare assms(1,3)] .
  have "(''tasks'', v) \<in> set (op_expected_revisions p)"
    by (subst run(2)) (simp add: new_operation_def assms(2))
  moreover have "rev_tasks (revisions (world s)) = v"
    using run(1) assms(2) by (auto simp: assert_revisions_Inr current_revision_def rev_attr_def)
  moreover have "op_operation_id p \<in> fst ` set (operations s')" by (simp add: run(3) dom_update_keys)
  ultimately show ?thesis
    using ok run(3,4) by (auto simp: outdated_def expects_def engine_ok_def ops_ok_def runtime_ok_def store_ok_def)
qed

end
