(* ===== verification/Supervisor.thy ===== *)
theory Supervisor
  imports Prelude
begin

text \<open>
  The supervisor of service processes, \<^verbatim>\<open>src/liandanlu_native/supervisor.py\<close>. A
  \<^verbatim>\<open>subprocess.Popen\<close> object is its pid and its return code, which stays once it is known.
  What the operating system answers is given by supplies of the state, of which nothing is
  assumed: the outcome of the \<open>n\<close>-th spawn, of the \<open>n\<close>-th question whether a process
  has exited, of the \<open>n\<close>-th wait with a timeout, and the \<open>n\<close>-th reading of the
  monotonic clock.

  Shown here: a generation that a restart has superseded is refused for ever, what \<open>tick\<close>
  decides for every service, and that it reports a service stopped on request as failed.
\<close>

section \<open>State\<close>

datatype service_state =
  SV_REGISTERED | SV_STARTING | SV_READY | SV_RUNNING | SV_DEGRADED | SV_FAILED | SV_RECOVERING
| SV_STOPPING | SV_STOPPED

record service_record =
  sv_service_id :: string
  sv_command :: "string list"
  sv_generation :: int
  sv_desired_state :: service_state
  sv_actual_state :: service_state
  sv_process_ok :: bool
  sv_transport_ok :: bool
  sv_functional_ok :: bool
  sv_restart_count :: int
  sv_pid :: "int option"
  sv_started_at :: "pyfloat option"
  sv_last_heartbeat_at :: "pyfloat option"
  sv_startup_deadline_s :: pyfloat
  sv_heartbeat_timeout_s :: pyfloat
  sv_shutdown_deadline_s :: pyfloat
  sv_last_error :: "string option"

record popen =
  po_pid :: int
  po_returncode :: "int option"

record os_st =
  os_spawns :: "nat \<Rightarrow> exc + int"
  os_exits :: "nat \<Rightarrow> int option"
  os_waits :: "nat \<Rightarrow> int option"
  os_monotonic :: "nat \<Rightarrow> pyfloat"
  spawned :: nat
  exits_asked :: nat
  waited :: nat
  monotonic_reads :: nat

record sup_st = os_st +
  services :: "(string \<times> service_record) list"
  processes :: "(string \<times> popen) list"

section \<open>Processes\<close>

definition monotonic :: "('z os_st_scheme, pyfloat) py" where
  "monotonic = (\<lambda>s. (Inr (os_monotonic s (monotonic_reads s)),
     s\<lparr>monotonic_reads := Suc (monotonic_reads s)\<rparr>))"

definition spawn :: "string list \<Rightarrow> ('z os_st_scheme, popen) py" where
  "spawn command =
     bindE (\<lambda>s. (os_spawns s (spawned s), s\<lparr>spawned := Suc (spawned s)\<rparr>)) (\<lambda>pid.
     ret \<lparr>po_pid = pid, po_returncode = None\<rparr>)"

definition put_process :: "string \<Rightarrow> popen \<Rightarrow> ('z sup_st_scheme, unit) py" where
  "put_process sid p = modify (\<lambda>s. s\<lparr>processes := AList.update sid p (processes s)\<rparr>)"

text \<open>\<^verbatim>\<open>proc.poll()\<close> for the process of a service: the return code, or \<open>None\<close> while it runs.\<close>

definition poll :: "string \<Rightarrow> popen \<Rightarrow> ('z sup_st_scheme, int option) py" where
  "poll sid p =
     (case po_returncode p of
        Some code \<Rightarrow> ret (Some code)
      | None \<Rightarrow>
          bindE (\<lambda>s. (Inr (os_exits s (exits_asked s)), s\<lparr>exits_asked := Suc (exits_asked s)\<rparr>)) (\<lambda>code.
          thenE (put_process sid (p\<lparr>po_returncode := code\<rparr>)) (ret code)))"

text \<open>\<^verbatim>\<open>self._processes.get(service_id)\<close> and, when there is one, its \<open>poll\<close>.\<close>

definition poll_service :: "string \<Rightarrow> ('z sup_st_scheme, int option option) py" where
  "poll_service sid =
     bindE (gets (\<lambda>s. map_of (processes s) sid)) (\<lambda>proc.
     case proc of None \<Rightarrow> ret None | Some p \<Rightarrow> bindE (poll sid p) (\<lambda>code. ret (Some code)))"

text \<open>\<^verbatim>\<open>terminate\<close> and \<^verbatim>\<open>kill\<close> look whether the process is still there and then send a signal.\<close>

definition signal :: "string \<Rightarrow> ('z sup_st_scheme, unit) py" where
  "signal sid = thenE (poll_service sid) (ret ())"

definition wait_process :: "string \<Rightarrow> ('z sup_st_scheme, unit) py" where
  "wait_process sid =
     bindE (gets (\<lambda>s. map_of (processes s) sid)) (\<lambda>proc.
     case proc of
       None \<Rightarrow> ret ()
     | Some p \<Rightarrow>
        (case po_returncode p of
           Some _ \<Rightarrow> ret ()
         | None \<Rightarrow>
             bindE (\<lambda>s. (Inr (os_waits s (waited s)), s\<lparr>waited := Suc (waited s)\<rparr>)) (\<lambda>code.
             case code of
               None \<Rightarrow> raise (External ''TimeoutExpired'' ''timed out'')
             | Some c \<Rightarrow> put_process sid (p\<lparr>po_returncode := Some c\<rparr>))))"

section \<open>Operations\<close>

definition get_service :: "string \<Rightarrow> ('z sup_st_scheme, service_record) py" where
  "get_service sid = bindE (gets (\<lambda>s. map_of (services s) sid)) (of_option (KeyError sid))"

definition put_service :: "string \<Rightarrow> service_record \<Rightarrow> ('z sup_st_scheme, service_record) py" where
  "put_service sid r = thenE (modify (\<lambda>s. s\<lparr>services := AList.update sid r (services s)\<rparr>)) (ret r)"

definition new_service :: "string \<Rightarrow> string list \<Rightarrow> pyfloat \<Rightarrow> pyfloat \<Rightarrow> pyfloat \<Rightarrow> service_record" where
  "new_service sid command startup heartbeat_timeout shutdown =
     \<lparr>sv_service_id = sid, sv_command = command, sv_generation = 1, sv_desired_state = SV_RUNNING,
      sv_actual_state = SV_REGISTERED, sv_process_ok = False, sv_transport_ok = False,
      sv_functional_ok = False, sv_restart_count = 0, sv_pid = None, sv_started_at = None,
      sv_last_heartbeat_at = None, sv_startup_deadline_s = startup,
      sv_heartbeat_timeout_s = heartbeat_timeout, sv_shutdown_deadline_s = shutdown,
      sv_last_error = None\<rparr>"

definition register ::
  "string \<Rightarrow> string list \<Rightarrow> pyfloat \<Rightarrow> pyfloat \<Rightarrow> pyfloat \<Rightarrow> ('z sup_st_scheme, service_record) py" where
  "register sid command startup heartbeat_timeout shutdown =
     bindE (gets (\<lambda>s. map_of (services s) sid)) (\<lambda>known.
     thenE (raise_if (known \<noteq> None) (ValueError (''service already registered: '' @ sid)))
     (put_service sid (new_service sid command startup heartbeat_timeout shutdown)))"

definition started :: "popen \<Rightarrow> pyfloat \<Rightarrow> service_record \<Rightarrow> service_record" where
  "started p ts r = r\<lparr>sv_pid := Some (po_pid p), sv_started_at := Some ts,
     sv_last_heartbeat_at := Some ts, sv_process_ok := True, sv_transport_ok := False,
     sv_functional_ok := False, sv_actual_state := SV_STARTING, sv_last_error := None\<rparr>"

definition start :: "string \<Rightarrow> ('z sup_st_scheme, service_record) py" where
  "start sid =
     bindE (get_service sid) (\<lambda>r.
     thenE (raise_if (sv_command r = []) (ValueError (sid @ '' has no managed command'')))
     (bindE (poll_service sid) (\<lambda>code.
     thenE (raise_if (code = Some None) (RuntimeError (sid @ '' already running'')))
     (bindE (spawn (sv_command r)) (\<lambda>p.
     thenE (put_process sid p)
     (bindE monotonic (\<lambda>ts. put_service sid (started p ts r))))))))"

definition assessed :: "bool \<Rightarrow> bool \<Rightarrow> bool \<Rightarrow> service_record \<Rightarrow> service_record" where
  "assessed process_ok transport_ok functional_ok r =
     r\<lparr>sv_process_ok := process_ok, sv_transport_ok := transport_ok,
       sv_functional_ok := functional_ok,
       sv_actual_state := (if \<not> process_ok then SV_FAILED
         else if \<not> transport_ok \<or> \<not> functional_ok then SV_DEGRADED else SV_RUNNING)\<rparr>"

definition assess :: "string \<Rightarrow> bool \<Rightarrow> bool \<Rightarrow> bool \<Rightarrow> ('z sup_st_scheme, service_record) py" where
  "assess sid process_ok transport_ok functional_ok =
     bindE (get_service sid) (\<lambda>r. put_service sid (assessed process_ok transport_ok functional_ok r))"

definition check_generation :: "int \<Rightarrow> service_record \<Rightarrow> ('s, unit) py" where
  "check_generation generation r =
     raise_if (generation \<noteq> sv_generation r) (ValueError ''stale service generation'')"

definition mark_ready :: "string \<Rightarrow> int \<Rightarrow> bool \<Rightarrow> bool \<Rightarrow> ('z sup_st_scheme, service_record) py" where
  "mark_ready sid generation transport_ok functional_ok =
     bindE (get_service sid) (\<lambda>r.
     thenE (check_generation generation r)
     (bindE monotonic (\<lambda>ts.
     put_service sid ((assessed True transport_ok functional_ok r)\<lparr>sv_last_heartbeat_at := Some ts\<rparr>))))"

definition heartbeat :: "string \<Rightarrow> int \<Rightarrow> ('z sup_st_scheme, unit) py" where
  "heartbeat sid generation =
     bindE (get_service sid) (\<lambda>r.
     thenE (check_generation generation r)
     (bindE monotonic (\<lambda>ts.
     thenE (put_service sid (r\<lparr>sv_last_heartbeat_at := Some ts\<rparr>)) (ret ()))))"

text \<open>\<^verbatim>\<open>t is not None and ts - t > limit\<close>\<close>

definition overdue :: "pyfloat \<Rightarrow> pyfloat option \<Rightarrow> pyfloat \<Rightarrow> bool" where
  "overdue ts t limit = (case t of None \<Rightarrow> False | Some t0 \<Rightarrow> ts - t0 > limit)"

definition judged :: "pyfloat \<Rightarrow> int option \<Rightarrow> service_record \<Rightarrow> service_record" where
  "judged ts exited r =
     (case exited of
        Some code \<Rightarrow> r\<lparr>sv_process_ok := False, sv_actual_state := SV_FAILED,
          sv_last_error := Some (''process exited with '' @ int_str code)\<rparr>
      | None \<Rightarrow>
          if sv_actual_state r = SV_STARTING \<and> overdue ts (sv_started_at r) (sv_startup_deadline_s r)
          then r\<lparr>sv_actual_state := SV_FAILED, sv_last_error := Some ''startup deadline exceeded''\<rparr>
          else if sv_actual_state r = SV_RUNNING
            \<and> overdue ts (sv_last_heartbeat_at r) (sv_heartbeat_timeout_s r)
          then r\<lparr>sv_actual_state := SV_DEGRADED, sv_last_error := Some ''heartbeat timeout''\<rparr>
          else r)"

definition tick_service :: "pyfloat \<Rightarrow> string \<Rightarrow> ('z sup_st_scheme, unit) py" where
  "tick_service ts sid =
     bindE (get_service sid) (\<lambda>r.
     bindE (poll_service sid) (\<lambda>code.
     thenE (put_service sid (judged ts (Option.bind code id) r)) (ret ())))"

definition tick :: "pyfloat option \<Rightarrow> ('z sup_st_scheme, unit) py" where
  "tick now_monotonic =
     bindE (case now_monotonic of None \<Rightarrow> monotonic | Some ts \<Rightarrow> ret ts) (\<lambda>ts.
     bindE (gets (\<lambda>s. map fst (services s))) (\<lambda>sids. forE sids (tick_service ts)))"

text \<open>\<^verbatim>\<open>except subprocess.TimeoutExpired\<close> is the only exception \<open>wait\<close> raises.\<close>

definition stop :: "string \<Rightarrow> ('z sup_st_scheme, service_record) py" where
  "stop sid =
     bindE (get_service sid) (\<lambda>r.
     bindE (put_service sid (r\<lparr>sv_desired_state := SV_STOPPED, sv_actual_state := SV_STOPPING\<rparr>)) (\<lambda>r1.
     bindE (poll_service sid) (\<lambda>code.
     thenE (whenE (code = Some None)
       (thenE (signal sid)
         (tryE (wait_process sid) (\<lambda>_. thenE (signal sid) (wait_process sid)))))
     (put_service sid (r1\<lparr>sv_process_ok := False, sv_transport_ok := False, sv_functional_ok := False,
        sv_actual_state := SV_STOPPED, sv_pid := None\<rparr>)))))"

definition restart :: "string \<Rightarrow> ('z sup_st_scheme, service_record) py" where
  "restart sid =
     thenE (get_service sid)
     (bindE (poll_service sid) (\<lambda>code.
     thenE (whenE (code = Some None) (thenE (stop sid) (ret ())))
     (bindE (get_service sid) (\<lambda>r.
     bindE (put_service sid (r\<lparr>sv_restart_count := sv_restart_count r + 1,
        sv_generation := sv_generation r + 1, sv_desired_state := SV_RUNNING\<rparr>)) (\<lambda>r1.
     if sv_command r1 \<noteq> [] then start sid else ret r1)))))"

section \<open>Generations\<close>

definition generation_of :: "string \<Rightarrow> 'z sup_st_scheme \<Rightarrow> int option" where
  "generation_of sid s = map_option sv_generation (map_of (services s) sid)"

text \<open>A service at a generation of at least \<open>g\<close>.\<close>

definition beyond :: "string \<Rightarrow> int \<Rightarrow> 'z sup_st_scheme \<Rightarrow> bool" where
  "beyond sid g s \<longleftrightarrow> (\<exists>r. map_of (services s) sid = Some r \<and> g \<le> sv_generation r)"

inductive sup_step :: "'z sup_st_scheme \<Rightarrow> 'z sup_st_scheme \<Rightarrow> bool" where
  register: "sup_step s (snd (register sid cmd a b c s))"
| start: "sup_step s (snd (start sid s))"
| assess: "sup_step s (snd (assess sid p t f s))"
| ready: "sup_step s (snd (mark_ready sid g t f s))"
| heartbeat: "sup_step s (snd (heartbeat sid g s))"
| tick: "sup_step s (snd (tick ts s))"
| stop: "sup_step s (snd (stop sid s))"
| restart: "sup_step s (snd (restart sid s))"

text \<open>The parts that leave the services alone.\<close>

lemma keeps_services_process:
  assumes "\<And>s s'. services s' = services s \<Longrightarrow> P s \<Longrightarrow> P s'"
  shows "keeps P (put_process sid p)" "keeps P monotonic" "keeps P (spawn cmd)" "keeps P (poll sid p)"
    "keeps P (poll_service sid)" "keeps P (signal sid)" "keeps P (wait_process sid)"
proof -
  have put: "keeps P (put_process sid p)" for sid p
    by (rule keepsI, rule assms) (simp_all add: put_process_def py_simps)
  have mono: "keeps P monotonic" by (rule keepsI, rule assms) (simp_all add: monotonic_def)
  have spawn: "keeps P (spawn cmd)"
    by (rule keepsI, rule assms) (simp_all add: spawn_def py_simps split: sum.splits)
  have ask: "keeps P (\<lambda>s. (Inr (os_exits s (exits_asked s)), s\<lparr>exits_asked := Suc (exits_asked s)\<rparr>))"
    "keeps P (\<lambda>s. (Inr (os_waits s (waited s)), s\<lparr>waited := Suc (waited s)\<rparr>))"
    by (rule keepsI, rule assms; simp)+
  have poll: "keeps P (poll sid p)" for sid p unfolding poll_def by (intro wp put ask)
  have ps: "keeps P (poll_service sid)" unfolding poll_service_def by (intro wp poll)
  have sig: "keeps P (signal sid)" unfolding signal_def by (intro wp ps)
  have wait: "keeps P (wait_process sid)" unfolding wait_process_def by (intro wp put ask)
  show "keeps P (put_process sid p)" "keeps P monotonic" "keeps P (spawn cmd)" "keeps P (poll sid p)"
    "keeps P (poll_service sid)" "keeps P (signal sid)" "keeps P (wait_process sid)"
    by (rule put mono spawn poll ps sig wait)+
qed

text \<open>While a method holds the record of \<open>sid'\<close>, its generation is at most \<open>n\<close>.\<close>

definition holding :: "string \<Rightarrow> int \<Rightarrow> string \<Rightarrow> int \<Rightarrow> 'z sup_st_scheme \<Rightarrow> bool" where
  "holding sid' n sid g s \<longleftrightarrow> beyond sid g s \<and> (\<exists>r. map_of (services s) sid' = Some r \<and> sv_generation r \<le> n)"

lemma holding_services: "services s' = services s \<Longrightarrow> holding sid' n sid g s \<Longrightarrow> holding sid' n sid g s'"
  by (simp add: holding_def beyond_def)

lemma beyond_services: "services s' = services s \<Longrightarrow> beyond sid g s \<Longrightarrow> beyond sid g s'"
  by (simp add: beyond_def)

lemmas keeps_holding [wp] = keeps_services_process[OF holding_services]
lemmas keeps_beyond [wp] = keeps_services_process[OF beyond_services]

lemma keeps_holding_put [wp]:
  "sv_generation r = n \<Longrightarrow> keeps (holding sid' n sid g) (put_service sid' r)"
  by (rule keepsI) (auto simp: put_service_def py_simps holding_def beyond_def)

lemma keeps_beyond_via:
  assumes "\<And>r. keeps (holding sid' (sv_generation r) sid g) (k r)"
  shows "keeps (beyond sid g) (bindE (get_service sid') k)"
proof (rule keepsI)
  fix s :: "'a sup_st_scheme" assume b: "beyond sid g s"
  show "beyond sid g (snd (bindE (get_service sid') k s))"
  proof (cases "map_of (services s) sid'")
    case None
    with b show ?thesis by (simp add: get_service_def py_simps)
  next
    case (Some r)
    then have "holding sid' (sv_generation r) sid g (snd (k r s))"
      using b by (intro keepsD[OF assms]) (simp add: holding_def)
    with Some show ?thesis by (simp add: get_service_def py_simps holding_def)
  qed
qed

lemma put_service_bind: "bindE (put_service sid r) k = thenE (put_service sid r) (k r)"
  by (simp add: put_service_def thenE_def bindE_assoc)

lemma judged_generation [simp]: "sv_generation (judged ts c r) = sv_generation r"
  by (simp add: judged_def split: option.splits)

lemma keeps_beyond_methods:
  "keeps (beyond sid g) (start sid')" "keeps (beyond sid g) (assess sid' p t f)"
  "keeps (beyond sid g) (mark_ready sid' n t f)" "keeps (beyond sid g) (heartbeat sid' n)"
  "keeps (beyond sid g) (tick_service ts sid')" "keeps (beyond sid g) (stop sid')"
  unfolding start_def assess_def mark_ready_def heartbeat_def tick_service_def stop_def put_service_bind
    check_generation_def
  by (rule keeps_beyond_via, intro wp; simp add: started_def assessed_def)+

lemma keeps_beyond_tick: "keeps (beyond sid g) (tick ts)"
  unfolding tick_def by (intro wp keeps_beyond_methods)

lemma keeps_beyond_register: "keeps (beyond sid g) (register sid' cmd a b c)"
  by (rule keepsI) (auto simp: register_def put_service_def py_simps beyond_def)

text \<open>The end of a restart, after the old process is gone: the generation moves on.\<close>

definition next_generation :: "string \<Rightarrow> ('z sup_st_scheme, service_record) py" where
  "next_generation sid =
     bindE (get_service sid) (\<lambda>r.
     bindE (put_service sid (r\<lparr>sv_restart_count := sv_restart_count r + 1,
        sv_generation := sv_generation r + 1, sv_desired_state := SV_RUNNING\<rparr>)) (\<lambda>r1.
     if sv_command r1 \<noteq> [] then start sid else ret r1))"

definition stop_if_running :: "string \<Rightarrow> ('z sup_st_scheme, unit) py" where
  "stop_if_running sid = thenE (get_service sid) (bindE (poll_service sid) (\<lambda>code.
     whenE (code = Some None) (thenE (stop sid) (ret ()))))"

lemma restart_split: "restart sid = thenE (stop_if_running sid) (next_generation sid)"
  by (simp add: restart_def next_generation_def stop_if_running_def thenE_def bindE_assoc)

lemma next_generation_beyond:
  assumes "beyond sid g s"
  shows "beyond sid (g + 1) (snd (next_generation sid s))"
proof -
  obtain r where r: "map_of (services s) sid = Some r" "g \<le> sv_generation r"
    using assms by (auto simp: beyond_def)
  let ?r = "r\<lparr>sv_restart_count := sv_restart_count r + 1,
        sv_generation := sv_generation r + 1, sv_desired_state := SV_RUNNING\<rparr>"
  let ?s = "s\<lparr>services := AList.update sid ?r (services s)\<rparr>"
  have "beyond sid (g + 1) ?s" using r by (simp add: beyond_def)
  then have "beyond sid (g + 1) (snd ((if sv_command ?r \<noteq> [] then start sid else ret ?r) ?s))"
    by (intro keepsD[where P = "beyond sid (g + 1)"]) (intro wp keeps_beyond_methods)
  with r show ?thesis by (simp add: next_generation_def get_service_def put_service_def py_simps)
qed

lemma keeps_beyond_restart: "keeps (beyond sid g :: 'z sup_st_scheme \<Rightarrow> bool) (restart sid')"
proof -
  have moves: "keeps (beyond sid g :: 'z sup_st_scheme \<Rightarrow> bool) (next_generation sid')"
  proof (rule keepsI)
    fix s :: "'z sup_st_scheme" assume b: "beyond sid g s"
    show "beyond sid g (snd (next_generation sid' s))"
    proof (cases "map_of (services s) sid'")
      case None
      with b show ?thesis by (simp add: next_generation_def get_service_def py_simps)
    next
      case (Some r)
      let ?r = "r\<lparr>sv_restart_count := sv_restart_count r + 1,
            sv_generation := sv_generation r + 1, sv_desired_state := SV_RUNNING\<rparr>"
      let ?s = "s\<lparr>services := AList.update sid' ?r (services s)\<rparr>"
      have "beyond sid g ?s" using b Some by (auto simp: beyond_def)
      then have "beyond sid g (snd ((if sv_command ?r \<noteq> [] then start sid' else ret ?r) ?s))"
        by (intro keepsD[where P = "beyond sid g"]) (intro wp keeps_beyond_methods)
      with Some show ?thesis by (simp add: next_generation_def get_service_def put_service_def py_simps)
    qed
  qed
  show ?thesis
    unfolding restart_split stop_if_running_def get_service_def[of sid']
    by (intro wp keeps_beyond_methods moves)
qed

lemma sup_step_beyond: "sup_step s s' \<Longrightarrow> beyond sid g s \<Longrightarrow> beyond sid g s'"
  by (induction rule: sup_step.induct)
    (auto intro: keepsD keeps_beyond_methods keeps_beyond_tick keeps_beyond_register keeps_beyond_restart)

lemma sup_steps_beyond: "sup_step\<^sup>*\<^sup>* s s' \<Longrightarrow> beyond sid g s \<Longrightarrow> beyond sid g s'"
  by (induction rule: rtranclp_induct) (auto intro: sup_step_beyond)

lemma restart_beyond:
  assumes "beyond sid g s" and "restart sid s = (Inr r, s')"
  shows "beyond sid (g + 1) s'"
proof -
  obtain s1 where s1: "stop_if_running sid s = (Inr (), s1)" "next_generation sid s1 = (Inr r, s')"
    using assms(2) unfolding restart_split by (auto elim: thenE_InrE)
  have "keeps (beyond sid g) (stop_if_running sid)"
    unfolding stop_if_running_def get_service_def by (intro wp keeps_beyond_methods)
  then have "beyond sid g s1" using s1(1) assms(1) by (auto dest: keepsE)
  from next_generation_beyond[OF this] s1(2) show ?thesis by simp
qed

section \<open>One tick\<close>

definition known_exit :: "popen option \<Rightarrow> int option \<Rightarrow> bool" where
  "known_exit proc exited \<longleftrightarrow> (case proc of
      None \<Rightarrow> exited = None
    | Some p \<Rightarrow> (case po_returncode p of None \<Rightarrow> True | Some c \<Rightarrow> exited = Some c))"

lemma poll_service_run:
  "\<exists>code s'. poll_service sid s = (Inr code, s') \<and> services s' = services s
    \<and> known_exit (map_of (processes s) sid) (Option.bind code id)
    \<and> (code = None \<longleftrightarrow> map_of (processes s) sid = None)
    \<and> (\<forall>c. code = Some (Some c) \<longrightarrow> (\<exists>p. map_of (processes s') sid = Some p \<and> po_returncode p = Some c))
    \<and> (\<forall>k. k \<noteq> sid \<longrightarrow> map_of (processes s') k = map_of (processes s) k)"
  by (auto simp: poll_service_def poll_def py_simps put_process_def known_exit_def split: option.splits)

lemma tick_service_run:
  assumes "map_of (services s) sid = Some r"
  shows "\<exists>exited s'. tick_service ts sid s = (Inr (), s')
    \<and> services s' = AList.update sid (judged ts exited r) (services s)
    \<and> known_exit (map_of (processes s) sid) exited
    \<and> (\<forall>k. k \<noteq> sid \<longrightarrow> map_of (processes s') k = map_of (processes s) k)"
proof -
  obtain code s1 where "poll_service sid s = (Inr code, s1)" "services s1 = services s"
    "known_exit (map_of (processes s) sid) (Option.bind code id)"
    "\<forall>k. k \<noteq> sid \<longrightarrow> map_of (processes s1) k = map_of (processes s) k"
    using poll_service_run by blast
  with assms show ?thesis
    by (auto simp: tick_service_def get_service_def put_service_def py_simps)
qed

lemma tick_loop:
  assumes "distinct sids" and "\<And>sid. sid \<in> set sids \<Longrightarrow> map_of (services s) sid \<noteq> None"
  shows "\<exists>s'. forE sids (tick_service ts) s = (Inr (), s')
    \<and> (\<forall>sid. sid \<notin> set sids \<longrightarrow> map_of (services s') sid = map_of (services s) sid)
    \<and> (\<forall>sid \<in> set sids. \<exists>exited. known_exit (map_of (processes s) sid) exited
         \<and> map_of (services s') sid = map_option (judged ts exited) (map_of (services s) sid))"
  using assms
proof (induction sids arbitrary: s)
  case Nil
  then show ?case by (simp add: py_simps)
next
  case (Cons sid sids)
  obtain r where r: "map_of (services s) sid = Some r" using Cons.prems(2)[of sid] by auto
  obtain exited s1 where 1: "tick_service ts sid s = (Inr (), s1)"
    "services s1 = AList.update sid (judged ts exited r) (services s)"
    "known_exit (map_of (processes s) sid) exited"
    "\<forall>k. k \<noteq> sid \<longrightarrow> map_of (processes s1) k = map_of (processes s) k"
    using tick_service_run[OF r] by blast
  have "map_of (services s1) k \<noteq> None" if "k \<in> set sids" for k
    using that 1(2) Cons.prems(2)[of k] by simp
  then obtain s2 where 2: "forE sids (tick_service ts) s1 = (Inr (), s2)"
    "\<forall>sid. sid \<notin> set sids \<longrightarrow> map_of (services s2) sid = map_of (services s1) sid"
    "\<forall>sid \<in> set sids. \<exists>exited. known_exit (map_of (processes s1) sid) exited
         \<and> map_of (services s2) sid = map_option (judged ts exited) (map_of (services s1) sid)"
    using Cons.IH[of s1] Cons.prems(1) by auto
  have "\<exists>exited. known_exit (map_of (processes s) k) exited
         \<and> map_of (services s2) k = map_option (judged ts exited) (map_of (services s) k)"
    if "k \<in> set (sid # sids)" for k
  proof (cases "k = sid")
    case True
    with Cons.prems(1) 1 2(2) r show ?thesis by auto
  next
    case False
    with that have "k \<in> set sids" by simp
    from bspec[OF 2(3) this] False 1(2,4) show ?thesis by simp
  qed
  with 1(1,2) 2(1,2) show ?case by (auto simp: py_simps)
qed

lemma tick_run:
  assumes "distinct (map fst (services s))"
  shows "\<exists>exited s'. tick (Some ts) s = (Inr (), s') \<and> known_exit (map_of (processes s) sid) exited
    \<and> map_of (services s') sid = map_option (judged ts exited) (map_of (services s) sid)"
proof -
  have "\<exists>s'. forE (map fst (services s)) (tick_service ts) s = (Inr (), s')
    \<and> (\<forall>sid. sid \<notin> set (map fst (services s)) \<longrightarrow> map_of (services s') sid = map_of (services s) sid)
    \<and> (\<forall>sid \<in> set (map fst (services s)). \<exists>exited. known_exit (map_of (processes s) sid) exited
         \<and> map_of (services s') sid = map_option (judged ts exited) (map_of (services s) sid))"
    using assms by (intro tick_loop) (auto simp: map_of_eq_None_iff)
  then obtain s' where s': "forE (map fst (services s)) (tick_service ts) s = (Inr (), s')"
    "sid \<notin> set (map fst (services s)) \<Longrightarrow> map_of (services s') sid = map_of (services s) sid"
    "sid \<in> set (map fst (services s)) \<Longrightarrow> \<exists>exited. known_exit (map_of (processes s) sid) exited
         \<and> map_of (services s') sid = map_option (judged ts exited) (map_of (services s) sid)"
    by blast
  have "sid \<in> set (map fst (services s)) \<longleftrightarrow> map_of (services s) sid \<noteq> None"
    by (simp add: map_of_eq_None_iff)
  moreover have "\<exists>exited. known_exit (map_of (processes s) sid) exited"
    by (rule exI[of _ "Option.bind (map_of (processes s) sid) po_returncode"])
      (simp add: known_exit_def split: option.splits)
  moreover have "tick (Some ts) s = (Inr (), s')" using s'(1) by (simp add: tick_def py_simps)
  ultimately show ?thesis using s'(2,3) by (cases "map_of (services s) sid") auto
qed

lemma stop_exited:
  assumes "stop sid s = (Inr r, s')" and "map_of (processes s) sid \<noteq> None"
  shows "\<exists>p c. map_of (processes s') sid = Some p \<and> po_returncode p = Some c"
    "map_of (services s') sid = Some r" "sv_actual_state r = SV_STOPPED" "sv_desired_state r = SV_STOPPED"
  using assms
  by (auto simp: stop_def get_service_def put_service_def py_simps poll_service_def poll_def put_process_def
      signal_def wait_process_def split: option.splits sum.splits prod.splits if_splits)

section \<open>Properties\<close>

definition idle_os :: sup_st where
  "idle_os = \<lparr>os_spawns = (\<lambda>n. Inr (100 + int n)), os_exits = (\<lambda>n. None), os_waits = (\<lambda>n. Some 0),
     os_monotonic = (\<lambda>n. of_nat n), spawned = 0, exits_asked = 0, waited = 0, monotonic_reads = 0,
     services = [(''svc'', new_service ''svc'' [''run''] 5 10 3)], processes = []\<rparr>"

text \<open>
  C26: a superseded generation is refused for ever. After a restart of a service has returned,
  and after whatever the supervisor does later, a readiness report or a heartbeat with the
  generation the service had before the restart, or an older one, raises \<open>ValueError\<close> and
  changes nothing.
\<close>

theorem stale_generation_refused:
  assumes "map_of (services s) sid = Some r" and "g \<le> sv_generation r"
    and "restart sid s = (Inr r1, s1)" and "sup_step\<^sup>*\<^sup>* s1 s2"
  shows "mark_ready sid g t f s2 = (Inl (ValueError ''stale service generation''), s2)
    \<and> heartbeat sid g s2 = (Inl (ValueError ''stale service generation''), s2)"
proof -
  have "beyond sid g s" using assms(1,2) by (simp add: beyond_def)
  then have "beyond sid (g + 1) s2"
    by (rule sup_steps_beyond[OF assms(4) restart_beyond[OF _ assms(3)]])
  then show ?thesis
    by (auto simp: beyond_def mark_ready_def heartbeat_def get_service_def check_generation_def py_simps)
qed

theorem stale_generation_refused_witness:
  "\<exists>r1 s1. restart ''svc'' idle_os = (Inr r1, s1)
    \<and> heartbeat ''svc'' 1 (snd (tick None s1)) = (Inl (ValueError ''stale service generation''), snd (tick None s1))"
proof -
  have r: "map_of (services idle_os) ''svc'' = Some (new_service ''svc'' [''run''] 5 10 3)"
    by (simp add: idle_os_def)
  obtain r1 s1 where s1: "restart ''svc'' idle_os = (Inr r1, s1)"
    by (simp add: restart_def get_service_def put_service_def py_simps idle_os_def poll_service_def
        new_service_def start_def spawn_def put_process_def monotonic_def)
  have "sup_step\<^sup>*\<^sup>* s1 (snd (tick None s1))" by (rule r_into_rtranclp, rule sup_step.tick)
  from stale_generation_refused[OF r _ s1 this, of 1] s1 show ?thesis by (simp add: new_service_def)
qed

text \<open>
  What a tick decides. A tick never fails and judges every service: a service whose
  process has exited is failed with the exit code as its error; a service that is still
  starting after its deadline is failed; a running service without a heartbeat for longer than
  its timeout is degraded; every other service is left as it is.
\<close>

theorem tick_verdicts:
  assumes "distinct (map fst (services s))" and "map_of (services s) sid = Some r"
  shows "\<exists>exited s' r'. tick (Some ts) s = (Inr (), s') \<and> known_exit (map_of (processes s) sid) exited
    \<and> map_of (services s') sid = Some r'
    \<and> (if exited \<noteq> None then sv_actual_state r' = SV_FAILED \<and> \<not> sv_process_ok r'
         \<and> sv_last_error r' = Some (''process exited with '' @ int_str (the exited))
       else if sv_actual_state r = SV_STARTING \<and> overdue ts (sv_started_at r) (sv_startup_deadline_s r)
         then r' = r\<lparr>sv_actual_state := SV_FAILED, sv_last_error := Some ''startup deadline exceeded''\<rparr>
       else if sv_actual_state r = SV_RUNNING \<and> overdue ts (sv_last_heartbeat_at r) (sv_heartbeat_timeout_s r)
         then r' = r\<lparr>sv_actual_state := SV_DEGRADED, sv_last_error := Some ''heartbeat timeout''\<rparr>
       else r' = r)"
proof -
  obtain exited s' where "tick (Some ts) s = (Inr (), s')" "known_exit (map_of (processes s) sid) exited"
    "map_of (services s') sid = Some (judged ts exited r)"
    using tick_run[OF assms(1), of ts sid] assms(2) by auto
  then show ?thesis by (cases exited) (auto simp: judged_def)
qed

theorem tick_verdicts_witness:
  "\<exists>s' r'. tick (Some 3) idle_os = (Inr (), s') \<and> map_of (services s') ''svc'' = Some r'
    \<and> r' = new_service ''svc'' [''run''] 5 10 3"
proof -
  have "distinct (map fst (services idle_os))"
    "map_of (services idle_os) ''svc'' = Some (new_service ''svc'' [''run''] 5 10 3)"
    by (simp_all add: idle_os_def)
  from tick_verdicts[OF this, of 3] show ?thesis
    by (auto simp: known_exit_def idle_os_def new_service_def)
qed

text \<open>
  A service stopped on request is reported as failed. When \<open>stop\<close> has returned for a
  service with a process, the service is STOPPED as desired; the next tick marks it FAILED,
  because the exited process is still in the table.
\<close>

theorem stopped_service_reported_failed:
  assumes "distinct (map fst (services s1))" and "stop sid s = (Inr r, s1)"
    and "map_of (processes s) sid \<noteq> None"
  shows "sv_actual_state r = SV_STOPPED \<and> sv_desired_state r = SV_STOPPED
    \<and> (\<exists>s2 r'. tick (Some ts) s1 = (Inr (), s2) \<and> map_of (services s2) sid = Some r'
        \<and> sv_actual_state r' = SV_FAILED \<and> sv_desired_state r' = SV_STOPPED)"
proof -
  note e = stop_exited[OF assms(2,3)]
  obtain exited s2 where t: "tick (Some ts) s1 = (Inr (), s2)" "known_exit (map_of (processes s1) sid) exited"
    "map_of (services s2) sid = Some (judged ts exited r)"
    using tick_run[OF assms(1), of ts sid] e(2) by auto
  then obtain c where "exited = Some c" using e(1) by (auto simp: known_exit_def)
  with t e(3,4) show ?thesis by (simp add: judged_def)
qed

theorem stopped_service_reported_failed_witness:
  "\<exists>r s1 s2 r'. stop ''svc'' (idle_os\<lparr>processes := [(''svc'', \<lparr>po_pid = 7, po_returncode = None\<rparr>)]\<rparr>) = (Inr r, s1)
    \<and> tick (Some 1) s1 = (Inr (), s2) \<and> map_of (services s2) ''svc'' = Some r'
    \<and> sv_actual_state r' = SV_FAILED"
proof -
  let ?s = "idle_os\<lparr>processes := [(''svc'', \<lparr>po_pid = 7, po_returncode = None\<rparr>)]\<rparr>"
  obtain r s1 where s1: "stop ''svc'' ?s = (Inr r, s1)" "map fst (services s1) = [''svc'']"
    by (simp add: stop_def get_service_def put_service_def py_simps idle_os_def poll_service_def poll_def
        put_process_def signal_def wait_process_def)
  from stopped_service_reported_failed[OF _ s1(1), of 1] s1 show ?thesis by auto
qed

end
