(* ===== verification/Bridge.thy ===== *)
theory Bridge
  imports Py_Json
begin

text \<open>
  The client of the desktop bridge, \<^verbatim>\<open>src/liandanlu_native/desktop_bridge.py\<close>: frames of
  JSON with a four-byte length, the uid of the peer, the handshake, requests and their
  responses, the client as a context manager, and the removal of a stale socket. JSON text and
  UTF-8 are those of \<open>Py_Json\<close>. A socket is the sequence of what its receive calls will meet:
  chunks of bytes of any size, timeouts and errors, then the end of the stream; which
  connection a connect call gets, what the platform tells of its peer and whether a send
  succeeds are supplies of the state, of which nothing is assumed.

  Shown here: a message is received as it was sent however the stream is cut into chunks, an
  oversized or empty frame is refused before its payload is read, a response is accepted only
  for the request it answers, a failed handshake leaves no connection behind, and where the
  code falls short: exceptions that get past the codec and uids above 2^31.
\<close>

section \<open>Frames\<close>

text \<open>\<^verbatim>\<open>struct.pack("!I", n)\<close> and \<^verbatim>\<open>struct.unpack("!I", b)\<close>\<close>

definition pack_u32 :: "nat \<Rightarrow> byte list" where
  "pack_u32 n = [of_nat (n div 2 ^ 24), of_nat (n div 2 ^ 16), of_nat (n div 2 ^ 8), of_nat n]"

definition unpack_u32 :: "byte list \<Rightarrow> nat" where
  "unpack_u32 bs = fold (\<lambda>b acc. acc * 256 + unat b) bs 0"

definition encode :: "(pyfloat \<Rightarrow> string) \<Rightarrow> int \<Rightarrow> dict \<Rightarrow> exc + byte list" where
  "encode float_repr max_frame_bytes message =
     (case json_dumps frame_style float_repr (JDict message) of
        Inl _ \<Rightarrow> Inl (BridgeProtocolError ''frame is not JSON serializable'')
      | Inr text \<Rightarrow>
          let payload = utf8 text in
          if payload = [] then Inl (BridgeProtocolError ''empty frame is not allowed'')
          else if int (length payload) > max_frame_bytes
          then Inl (BridgeProtocolError (''frame exceeds maximum size: '' @ nat_str (length payload)
            @ '' > '' @ int_str max_frame_bytes))
          else if length payload \<ge> 2 ^ 32
          then Inl (External ''error'' ''argument out of range'')
          else Inr (pack_u32 (length payload) @ payload))"

datatype recv_event = Chunk "byte list" | Timeout | RecvFails string

text \<open>
  One \<^verbatim>\<open>sock.recv(n)\<close>: at most \<open>n\<close> bytes of the next chunk, the rest of it stays; no
  bytes when the stream has ended.
\<close>

fun sock_recv :: "nat \<Rightarrow> recv_event list \<Rightarrow> (exc + byte list) \<times> recv_event list" where
  "sock_recv n [] = (Inr [], [])"
| "sock_recv n (Chunk bs # evs) =
     (Inr (take n bs), if length bs \<le> n then evs else Chunk (drop n bs) # evs)"
| "sock_recv n (Timeout # evs) = (Inl (BridgeTransportError ''socket receive timed out''), evs)"
| "sock_recv n (RecvFails m # evs) = (Inl (BridgeTransportError (''socket receive failed: '' @ m)), evs)"

lemma sock_recv_le: "sock_recv n evs = (Inr chunk, evs') \<Longrightarrow> length chunk \<le> n"
  by (cases "(n, evs)" rule: sock_recv.cases) auto

function recv_exact :: "nat \<Rightarrow> recv_event list \<Rightarrow> (exc + byte list) \<times> recv_event list" where
  "recv_exact remaining evs =
     (if remaining = 0 then (Inr [], evs)
      else case sock_recv remaining evs of
          (Inl e, evs') \<Rightarrow> (Inl e, evs')
        | (Inr chunk, evs') \<Rightarrow>
            if chunk = [] then (Inl (BridgeTransportError ''socket closed before frame completed''), evs')
            else (case recv_exact (remaining - length chunk) evs' of
                (Inl e, evs'') \<Rightarrow> (Inl e, evs'')
              | (Inr later, evs'') \<Rightarrow> (Inr (chunk @ later), evs'')))"
  by pat_completeness auto
termination by (relation "measure fst") (auto dest: sock_recv_le)

declare recv_exact.simps [simp del]

text \<open>
  Only \<open>UnicodeDecodeError\<close> and \<open>JSONDecodeError\<close> are caught: what else \<^verbatim>\<open>json.loads\<close>
  raises leaves the function as it is.
\<close>

fun not_json :: "exc \<Rightarrow> exc" where
  "not_json (UnicodeDecodeError m) = BridgeProtocolError ''incoming frame is not valid UTF-8 JSON''"
| "not_json (JSONDecodeError m) = BridgeProtocolError ''incoming frame is not valid UTF-8 JSON''"
| "not_json e = e"

definition frame_value :: "json_reader \<Rightarrow> byte list \<Rightarrow> exc + dict" where
  "frame_value reader payload =
     (case payload_loads reader payload of
        Inl e \<Rightarrow> Inl (not_json e)
      | Inr (JDict d) \<Rightarrow> Inr d
      | Inr _ \<Rightarrow> Inl (BridgeProtocolError ''incoming frame must contain a JSON object''))"

definition recv_frame ::
  "json_reader \<Rightarrow> int \<Rightarrow> recv_event list \<Rightarrow> (exc + dict) \<times> recv_event list" where
  "recv_frame reader max_frame_bytes evs =
     (case recv_exact 4 evs of
        (Inl e, evs1) \<Rightarrow> (Inl e, evs1)
      | (Inr header, evs1) \<Rightarrow>
         (let len = unpack_u32 header in
          if len = 0 then (Inl (BridgeProtocolError ''frame length must be positive''), evs1)
          else if int len > max_frame_bytes
          then (Inl (BridgeProtocolError (''incoming frame exceeds maximum size: '' @ nat_str len
            @ '' > '' @ int_str max_frame_bytes)), evs1)
          else case recv_exact len evs1 of
              (Inl e, evs2) \<Rightarrow> (Inl e, evs2)
            | (Inr payload, evs2) \<Rightarrow> (frame_value reader payload, evs2)))"

section \<open>Sessions and responses\<close>

record bridge_capability =
  br_method :: string
  br_state :: string
  br_details :: dict

definition available :: "bridge_capability \<Rightarrow> bool" where
  "available c \<longleftrightarrow> br_state c = ''available''"

record bridge_session =
  bs_bridge_instance_id :: string
  bs_generation :: int
  bs_capabilities :: "(string \<times> bridge_capability) list"
  bs_peer_uid :: "int option"
  bs_peer_uid_verified :: bool

definition session_capability :: "bridge_session \<Rightarrow> string \<Rightarrow> bridge_capability option" where
  "session_capability session method = map_of (bs_capabilities session) method"

definition supports :: "bridge_session \<Rightarrow> string \<Rightarrow> bool" where
  "supports session method = (case session_capability session method of
     None \<Rightarrow> False | Some c \<Rightarrow> available c)"

record bridge_response =
  re_request_id :: string
  re_operation_id :: string
  re_status :: string
  re_result :: dict
  re_evidence :: "dict list"
  re_error :: "dict option"
  re_bridge_generation :: int

text \<open>\<^verbatim>\<open>^[a-z][a-z0-9_.-]{1,127}$\<close>\<close>

definition is_lower :: "char \<Rightarrow> bool" where
  "is_lower c = (let n = (of_char c :: nat) in 97 \<le> n \<and> n \<le> 122)"

definition method_ok :: "string \<Rightarrow> bool" where
  "method_ok m \<longleftrightarrow> (case m of [] \<Rightarrow> False
     | c # cs \<Rightarrow> is_lower c \<and> 1 \<le> length cs \<and> length cs \<le> 127
         \<and> list_all (\<lambda>d. is_lower d \<or> is_digit d \<or> d \<in> set ''_.-'') cs)"

text \<open>\<^verbatim>\<open>x in {...}\<close> for a set of strings: lists and objects cannot be hashed.\<close>

fun in_texts :: "json \<Rightarrow> string list \<Rightarrow> exc + bool" where
  "in_texts (JStr s) ts = Inr (s \<in> set ts)"
| "in_texts (JList _) ts = Inl (TypeError ''unhashable type: list'')"
| "in_texts (JDict _) ts = Inl (TypeError ''unhashable type: dict'')"
| "in_texts _ ts = Inr False"

text \<open>An exception whose message quotes a value.\<close>

definition raise_quoting :: "(string \<Rightarrow> exc) \<Rightarrow> string \<Rightarrow> exc + string \<Rightarrow> exc + 'a" where
  "raise_quoting cls prefix quote = bindR quote (\<lambda>t. Inl (cls (prefix @ t)))"

definition capability_states :: "string list" where
  "capability_states = [''available'', ''permission_required'', ''unavailable'']"

definition parse_capability ::
  "(pyfloat \<Rightarrow> string) \<Rightarrow> string \<Rightarrow> json \<Rightarrow> exc + bridge_capability" where
  "parse_capability float_repr method raw =
     (if \<not> method_ok method
      then Inl (BridgeProtocolError (''invalid capability method: '' @ repr_str method))
      else bindR (case raw of
           JStr s \<Rightarrow> Inr (JStr s, [])
         | JDict d \<Rightarrow> Inr (dict_get d ''state'', filter (\<lambda>(k, v). k \<noteq> ''state'') d)
         | _ \<Rightarrow> Inl (BridgeProtocolError (''invalid capability descriptor for '' @ method)))
       (\<lambda>(state, details).
        bindR (in_texts state capability_states) (\<lambda>known.
        if \<not> known
        then raise_quoting BridgeProtocolError (''invalid capability state for '' @ method @ '': '')
          (py_repr float_repr state)
        else bindR (py_str float_repr state) (\<lambda>st.
          Inr \<lparr>br_method = method, br_state = st, br_details = details\<rparr>))))"

definition parse_capabilities ::
  "(pyfloat \<Rightarrow> string) \<Rightarrow> dict \<Rightarrow> exc + (string \<times> bridge_capability) list" where
  "parse_capabilities float_repr raw_caps =
     foldR (\<lambda>(method, raw) acc. bindR (parse_capability float_repr method raw) (\<lambda>c.
       Inr (AList.update method c acc))) raw_caps []"

definition remote_error :: "(pyfloat \<Rightarrow> string) \<Rightarrow> json \<Rightarrow> exc + 'a" where
  "remote_error float_repr err =
     (case (if truthy err then err else JDict []) of
        JDict d \<Rightarrow>
          bindR (py_str float_repr (dict_get_or d ''code'' (JStr ''bridge_error''))) (\<lambda>code.
          bindR (py_str float_repr (dict_get_or d ''message'' (JStr ''bridge rejected handshake''))) (\<lambda>msg.
            Inl (BridgeRemoteError code msg)))
      | _ \<Rightarrow> Inl (AttributeError ''object has no attribute get''))"

definition parse_hello_ack ::
  "(pyfloat \<Rightarrow> string) \<Rightarrow> dict \<Rightarrow> int option \<Rightarrow> bool \<Rightarrow> exc + bridge_session" where
  "parse_hello_ack float_repr ack peer_uid_value peer_uid_verified =
     (if eq_str (dict_get ack ''type'') ''error'' then remote_error float_repr (dict_get ack ''error'')
      else if \<not> eq_str (dict_get ack ''type'') ''hello_ack''
      then Inl (BridgeProtocolError ''expected hello_ack'')
      else if \<not> eq_int (dict_get ack ''protocol_version'') 1
      then raise_quoting BridgeProtocolError ''protocol mismatch: expected 1, got ''
        (py_str float_repr (dict_get ack ''protocol_version''))
      else case dict_get ack ''bridge_instance_id'' of
          JStr instance_id \<Rightarrow>
            if instance_id = [] then Inl (BridgeProtocolError ''hello_ack missing bridge_instance_id'')
            else (case dict_get ack ''generation'' of
               JInt generation \<Rightarrow>
                 if generation \<le> 0
                 then Inl (BridgeProtocolError ''hello_ack generation must be a positive integer'')
                 else (case dict_get_or ack ''capabilities'' (JDict []) of
                     JDict raw_caps \<Rightarrow>
                       bindR (parse_capabilities float_repr raw_caps) (\<lambda>caps.
                         Inr \<lparr>bs_bridge_instance_id = instance_id, bs_generation = generation,
                           bs_capabilities = caps, bs_peer_uid = peer_uid_value,
                           bs_peer_uid_verified = peer_uid_verified\<rparr>)
                   | _ \<Rightarrow> Inl (BridgeProtocolError ''hello_ack capabilities must be an object''))
             | _ \<Rightarrow> Inl (BridgeProtocolError ''hello_ack generation must be a positive integer''))
        | _ \<Rightarrow> Inl (BridgeProtocolError ''hello_ack missing bridge_instance_id''))"

definition allowed_statuses :: "string list" where
  "allowed_statuses = [''succeeded'', ''blocked'', ''failed'', ''unknown'', ''cancelled'']"

fun as_dict :: "json \<Rightarrow> dict option" where
  "as_dict (JDict d) = Some d"
| "as_dict _ = None"

text \<open>\<^verbatim>\<open>x or default\<close>\<close>

definition or_else :: "json \<Rightarrow> json \<Rightarrow> json" where
  "or_else x y = (if truthy x then x else y)"

definition parse_response ::
  "(pyfloat \<Rightarrow> string) \<Rightarrow> bridge_session \<Rightarrow> dict \<Rightarrow> string \<Rightarrow> string \<Rightarrow> exc + bridge_response" where
  "parse_response float_repr session raw request_id operation_id =
     (if \<not> eq_str (dict_get raw ''type'') ''response''
      then Inl (BridgeProtocolError ''expected response frame'')
      else if \<not> eq_str (dict_get raw ''request_id'') request_id
      then Inl (BridgeProtocolError ''response request_id mismatch'')
      else if \<not> eq_str (dict_get raw ''operation_id'') operation_id
      then Inl (BridgeProtocolError ''response operation_id mismatch'')
      else if \<not> eq_int (dict_get raw ''bridge_generation'') (bs_generation session)
      then raise_quoting StaleBridgeGeneration
        (''expected bridge generation '' @ int_str (bs_generation session) @ '', got '')
        (py_str float_repr (dict_get raw ''bridge_generation''))
      else bindR (in_texts (dict_get raw ''status'') allowed_statuses) (\<lambda>known.
        if \<not> known
        then raise_quoting BridgeProtocolError ''invalid bridge response status: ''
          (py_repr float_repr (dict_get raw ''status''))
        else case or_else (dict_get raw ''result'') (JDict []) of
            JDict result \<Rightarrow>
             (case or_else (dict_get raw ''evidence'') (JList []) of
                JList evidence \<Rightarrow>
                  if list_ex (\<lambda>x. as_dict x = None) evidence
                  then Inl (BridgeProtocolError ''response evidence must be a list of objects'')
                  else if dict_get raw ''error'' \<noteq> JNull \<and> as_dict (dict_get raw ''error'') = None
                  then Inl (BridgeProtocolError ''response error must be an object or null'')
                  else bindR (py_str float_repr (dict_get raw ''status'')) (\<lambda>status.
                    bindR (py_int (dict_get raw ''bridge_generation'')) (\<lambda>generation.
                    Inr \<lparr>re_request_id = request_id, re_operation_id = operation_id,
                      re_status = status, re_result = result,
                      re_evidence = map (the \<circ> as_dict) evidence,
                      re_error = as_dict (dict_get raw ''error''),
                      re_bridge_generation = generation\<rparr>))
              | _ \<Rightarrow> Inl (BridgeProtocolError ''response evidence must be a list of objects''))
          | _ \<Rightarrow> Inl (BridgeProtocolError ''response result must be an object'')))"

section \<open>The peer\<close>

text \<open>
  What the platform tells about the other end of a Unix socket: \<^verbatim>\<open>sock.getpeereid()\<close> where
  the runtime has it, the \<^verbatim>\<open>getpeereid\<close> of the C library on macOS (its return code and the
  \<^verbatim>\<open>c_uint\<close> it fills in, or the exception of \<open>ctypes\<close>) and the bytes of
  \<^verbatim>\<open>SO_PEERCRED\<close> where the constant exists, in the byte order of the machine.
\<close>

record peer_creds =
  pc_getpeereid :: "(exc + int \<times> int) option"
  pc_darwin :: bool
  pc_libc :: "exc + int \<times> 32 word"
  pc_peercred :: "(exc + byte list) option"
  pc_little_endian :: bool

definition bytes_int :: "bool \<Rightarrow> byte list \<Rightarrow> int" where
  "bytes_int little bs =
     sint (word_of_nat (unpack_u32 (if little then List.rev bs else bs)) :: 32 word)"

text \<open>\<^verbatim>\<open>struct.unpack("3i", raw)\<close>: three signed integers, \<open>None\<close> for \<^verbatim>\<open>struct.error\<close>\<close>

definition unpack_3i :: "bool \<Rightarrow> byte list \<Rightarrow> (int \<times> int \<times> int) option" where
  "unpack_3i little raw =
     (if length raw = 12
      then Some (bytes_int little (take 4 raw), bytes_int little (take 4 (drop 4 raw)),
        bytes_int little (drop 8 raw))
      else None)"

definition so_peercred_uid :: "peer_creds \<Rightarrow> exc + int option" where
  "so_peercred_uid p =
     (case pc_peercred p of
        None \<Rightarrow> Inr None
      | Some (Inl (OSError m)) \<Rightarrow> Inr None
      | Some (Inl e) \<Rightarrow> Inl e
      | Some (Inr raw) \<Rightarrow>
          Inr (case unpack_3i (pc_little_endian p) raw of None \<Rightarrow> None | Some (_, uid, _) \<Rightarrow> Some uid))"

definition peer_uid :: "peer_creds \<Rightarrow> exc + int option" where
  "peer_uid p =
     (case pc_getpeereid p of
        Some (Inr (uid, _)) \<Rightarrow> Inr (Some uid)
      | Some (Inl (OSError m)) \<Rightarrow> Inr None
      | Some (Inl e) \<Rightarrow> Inl e
      | None \<Rightarrow>
          if pc_darwin p then
            (case pc_libc p of
               Inr (code, uid) \<Rightarrow> if code = 0 then Inr (Some (uint uid)) else so_peercred_uid p
             | Inl (AttributeError m) \<Rightarrow> so_peercred_uid p
             | Inl (OSError m) \<Rightarrow> so_peercred_uid p
             | Inl (ValueError m) \<Rightarrow> so_peercred_uid p
             | Inl e \<Rightarrow> Inl e)
          else so_peercred_uid p)"

section \<open>The client\<close>

text \<open>A connection: whether connecting succeeds, the peer's uid, what it sends, which sends it takes.\<close>

record link =
  ln_accepts :: bool
  ln_creds :: peer_creds
  ln_incoming :: "recv_event list"
  ln_takes :: "nat \<Rightarrow> bool"

record sock =
  so_incoming :: "recv_event list"
  so_takes :: "nat \<Rightarrow> bool"
  so_sent :: "byte list list"

record bridge_st = host_st +
  bc_socket_path :: string
  bc_session_token :: string
  bc_engine_instance_id :: string
  bc_max_frame_bytes :: int
  bc_require_same_uid :: bool
  own_uid :: "int option"
  links :: "nat \<Rightarrow> link"
  connects :: nat
  bc_socket :: "sock option"
  bc_session :: "bridge_session option"

text \<open>The constructor: a token is required, and an instance id is drawn when none is given.\<close>

definition client_init :: "string \<Rightarrow> string \<Rightarrow> string option \<Rightarrow> int \<Rightarrow> bool \<Rightarrow> ('z bridge_st_scheme, unit) py" where
  "client_init path token instance_id max_frame_bytes same_uid =
     thenE (raise_if (token = []) (ValueError ''session_token is required''))
     (bindE (case instance_id of
          None \<Rightarrow> new_id ''engine''
        | Some i \<Rightarrow> if i = [] then new_id ''engine'' else ret i) (\<lambda>iid.
     modify (\<lambda>s. s\<lparr>bc_socket_path := path, bc_session_token := token, bc_engine_instance_id := iid,
       bc_max_frame_bytes := max_frame_bytes, bc_require_same_uid := same_uid,
       bc_socket := None, bc_session := None\<rparr>)))"

definition connected :: "'z bridge_st_scheme \<Rightarrow> bool" where
  "connected s \<longleftrightarrow> bc_socket s \<noteq> None \<and> bc_session s \<noteq> None"

definition close :: "('z bridge_st_scheme, unit) py" where
  "close = modify (\<lambda>s. s\<lparr>bc_socket := None, bc_session := None\<rparr>)"

definition get_socket :: "('z bridge_st_scheme, sock) py" where
  "get_socket = bindE (gets bc_socket) (of_option (BridgeUnavailable ''desktop bridge is not connected''))"

definition put_socket :: "sock \<Rightarrow> ('z bridge_st_scheme, unit) py" where
  "put_socket k = modify (\<lambda>s. s\<lparr>bc_socket := Some k\<rparr>)"

definition send_message :: "(pyfloat \<Rightarrow> string) \<Rightarrow> dict \<Rightarrow> ('z bridge_st_scheme, unit) py" where
  "send_message float_repr message =
     bindE get_socket (\<lambda>k.
     bindE (gets bc_max_frame_bytes) (\<lambda>limit.
     bindE (of_result (encode float_repr limit message)) (\<lambda>frame.
     thenE (raise_if (\<not> so_takes k (length (so_sent k))) (BridgeTransportError ''socket send failed''))
     (put_socket (k\<lparr>so_sent := so_sent k @ [frame]\<rparr>)))))"

definition recv_message :: "json_reader \<Rightarrow> ('z bridge_st_scheme, dict) py" where
  "recv_message reader =
     bindE get_socket (\<lambda>k.
     bindE (gets bc_max_frame_bytes) (\<lambda>limit.
     bindE (ret (recv_frame reader limit (so_incoming k))) (\<lambda>(outcome, evs).
     thenE (put_socket (k\<lparr>so_incoming := evs\<rparr>)) (of_result outcome))))"

definition hello :: "'z bridge_st_scheme \<Rightarrow> dict" where
  "hello s = [(''type'', JStr ''hello''), (''protocol_version'', JInt 1),
     (''engine_instance_id'', JStr (bc_engine_instance_id s)),
     (''session_token'', JStr (bc_session_token s))]"

definition handshake ::
  "(pyfloat \<Rightarrow> string) \<Rightarrow> json_reader \<Rightarrow> int option \<Rightarrow> bool
   \<Rightarrow> ('z bridge_st_scheme, bridge_session) py" where
  "handshake float_repr reader uid uid_verified =
     bindE (gets hello) (\<lambda>m.
     thenE (send_message float_repr m)
     (bindE (recv_message reader) (\<lambda>ack.
     bindE (of_result (parse_hello_ack float_repr ack uid uid_verified)) (\<lambda>session.
     thenE (modify (\<lambda>s. s\<lparr>bc_session := Some session\<rparr>)) (ret session)))))"

definition uid_text :: "int option \<Rightarrow> string" where
  "uid_text u = (case u of None \<Rightarrow> ''None'' | Some n \<Rightarrow> int_str n)"

definition connect ::
  "(pyfloat \<Rightarrow> string) \<Rightarrow> json_reader \<Rightarrow> ('z bridge_st_scheme, bridge_session) py" where
  "connect float_repr reader =
     bindE (gets connected) (\<lambda>already.
     thenE (raise_if already (BridgeProtocolError ''bridge client is already connected''))
     (bindE (\<lambda>s. (Inr (links s (connects s)), s\<lparr>connects := Suc (connects s)\<rparr>)) (\<lambda>l.
     bindE (gets (\<lambda>s. (bc_socket_path s, own_uid s, bc_require_same_uid s))) (\<lambda>(path, expected_uid, same).
     thenE (raise_if (\<not> ln_accepts l)
       (BridgeUnavailable (''cannot connect to desktop bridge: '' @ path)))
     (bindE (of_result (peer_uid (ln_creds l))) (\<lambda>uid.
     bindE (ret (uid \<noteq> None \<and> expected_uid \<noteq> None \<and> uid = expected_uid)) (\<lambda>uid_verified.
     thenE (raise_if (same \<and> \<not> uid_verified)
       (if uid = None then BridgeProtocolError ''peer UID could not be verified''
        else BridgeProtocolError (''desktop bridge peer UID mismatch: expected '' @ uid_text expected_uid
          @ '', got '' @ uid_text uid)))
     (thenE (put_socket \<lparr>so_incoming = ln_incoming l, so_takes = ln_takes l, so_sent = []\<rparr>)
     (tryE (handshake float_repr reader uid uid_verified)
       (\<lambda>e. thenE close (raise e)))))))))))"

text \<open>\<^verbatim>\<open>with client: body\<close>: \<^verbatim>\<open>__enter__\<close> connects, \<^verbatim>\<open>__exit__\<close> closes and lets exceptions pass.\<close>

definition enter_client :: "(pyfloat \<Rightarrow> string) \<Rightarrow> json_reader \<Rightarrow> ('z bridge_st_scheme, unit) py" where
  "enter_client float_repr reader = thenE (connect float_repr reader) (ret ())"

definition exit_client :: "('z bridge_st_scheme, unit) py" where
  "exit_client = close"

definition with_client ::
  "(pyfloat \<Rightarrow> string) \<Rightarrow> json_reader \<Rightarrow> ('z bridge_st_scheme, 'a) py \<Rightarrow> ('z bridge_st_scheme, 'a) py" where
  "with_client float_repr reader body =
     thenE (enter_client float_repr reader) (finallyE body exit_client)"

definition request_message :: "string \<Rightarrow> string \<Rightarrow> string \<Rightarrow> int \<Rightarrow> int \<Rightarrow> pyfloat \<Rightarrow> string option \<Rightarrow> dict \<Rightarrow> dict" where
  "request_message request_id operation_id method generation deadline ts locator arguments =
     [(''type'', JStr ''request''), (''protocol_version'', JInt 1), (''request_id'', JStr request_id),
      (''operation_id'', JStr operation_id), (''method'', JStr method),
      (''expected_bridge_generation'', JInt generation), (''deadline_after_ms'', JInt deadline),
      (''sent_at_unix_ms'', JInt (if ts < 0 then \<lceil>ts * 1000\<rceil> else \<lfloor>ts * 1000\<rfloor>)),
      (''locator_token'', case locator of None \<Rightarrow> JNull | Some t \<Rightarrow> JStr t),
      (''arguments'', JDict arguments)]"

definition check_capability :: "bridge_session \<Rightarrow> string \<Rightarrow> exc + unit" where
  "check_capability session method =
     (case session_capability session method of
        None \<Rightarrow> Inl (BridgeProtocolError (''bridge did not advertise capability: '' @ method))
      | Some c \<Rightarrow>
          if br_state c = ''permission_required''
          then Inl (BridgeRemoteError ''permission_required'' (method @ '' requires a macOS permission''))
          else if \<not> available c
          then Inl (BridgeRemoteError ''capability_unavailable'' (method @ '' is unavailable''))
          else Inr ())"

definition request ::
  "(pyfloat \<Rightarrow> string) \<Rightarrow> json_reader \<Rightarrow> string \<Rightarrow> string \<Rightarrow> string option \<Rightarrow> dict \<Rightarrow> int
   \<Rightarrow> ('z bridge_st_scheme, bridge_response) py" where
  "request float_repr reader operation_id method locator_token arguments deadline_after_ms =
     bindE (gets (\<lambda>s. if connected s then bc_session s else None)) (\<lambda>found.
     bindE (of_option (BridgeUnavailable ''desktop bridge is not connected'') found) (\<lambda>session.
     thenE (raise_if (operation_id = []) (ValueError ''operation_id is required''))
     (thenE (raise_if (\<not> method_ok method) (ValueError (''invalid bridge method: '' @ repr_str method)))
     (thenE (raise_if (deadline_after_ms \<le> 0) (ValueError ''deadline_after_ms must be positive''))
     (thenE (of_result (check_capability session method))
     (bindE (new_id ''req'') (\<lambda>request_id.
     bindE now (\<lambda>ts.
     thenE (send_message float_repr (request_message request_id operation_id method
        (bs_generation session) deadline_after_ms ts locator_token arguments))
     (bindE (recv_message reader) (\<lambda>raw.
      of_result (parse_response float_repr session raw request_id operation_id)))))))))))"

section \<open>Stale sockets\<close>

datatype node = SocketNode bool | OtherNode

text \<open>
  The path as the file system has it: a socket with or without a listener, another file, or
  nothing. The result is what the function returns and the path afterwards.
\<close>

definition probe_socket :: "node option \<Rightarrow> bool" where
  "probe_socket n = (case n of Some (SocketNode listening) \<Rightarrow> listening | _ \<Rightarrow> False)"

definition cleanup_stale_socket :: "node option \<Rightarrow> (exc + bool) \<times> node option" where
  "cleanup_stale_socket n =
     (case n of
        None \<Rightarrow> (Inr False, n)
      | Some OtherNode \<Rightarrow> (Inl (BridgeProtocolError ''refusing to unlink non-socket path''), n)
      | Some (SocketNode _) \<Rightarrow> if probe_socket n then (Inr False, n) else (Inr True, None))"

section \<open>Streams\<close>

lemma length_pack [simp]: "length (pack_u32 n) = 4"
  by (simp add: pack_u32_def)

lemma unat_byte: "unat (of_nat n :: byte) = n mod 256"
  by (simp add: unat_of_nat)

lemma unpack_pack:
  assumes "n < 2 ^ 32"
  shows "unpack_u32 (pack_u32 n) = n"
proof -
  define a where "a = n div 256"
  define b where "b = a div 256"
  define c where "c = b div 256"
  have d: "n div 2 ^ 8 = a" "n div 2 ^ 16 = b" "n div 2 ^ 24 = c"
    by (simp_all add: a_def b_def c_def flip: div_mult2_eq)
  have "c < 256" using assms unfolding a_def b_def c_def by (simp add: less_mult_imp_div_less)
  moreover have "c * 256 + b mod 256 = b" "b * 256 + a mod 256 = a" "a * 256 + n mod 256 = n"
    by (simp_all add: a_def b_def c_def)
  ultimately show ?thesis
    by (simp only: unpack_u32_def pack_u32_def d fold.simps unat_byte id_apply comp_apply mod_less mult_zero_left add_0)
qed

text \<open>A stream of non-empty chunks, cut anywhere, followed by whatever comes later.\<close>

definition stream :: "byte list list \<Rightarrow> recv_event list \<Rightarrow> recv_event list" where
  "stream cs later = map Chunk cs @ later"

lemma recv_exact_stream:
  assumes "[] \<notin> set cs" and "n \<le> length (concat cs)"
  shows "\<exists>cs'. recv_exact n (stream cs later) = (Inr (take n (concat cs)), stream cs' later)
    \<and> concat cs' = drop n (concat cs) \<and> [] \<notin> set cs'"
  using assms
proof (induction n arbitrary: cs rule: less_induct)
  case (less n)
  show ?case
  proof (cases "n = 0")
    case True
    with less.prems(1) show ?thesis by (auto simp: recv_exact.simps)
  next
    case False
    with less.prems(2) obtain c cs1 where cs: "cs = c # cs1" by (cases cs) auto
    with less.prems(1) have c: "c \<noteq> []" "[] \<notin> set cs1" by auto
    show ?thesis
    proof (cases "length c \<le> n")
      case True
      have "n - length c < n" using c(1) False by (cases c) auto
      moreover have "n - length c \<le> length (concat cs1)" using less.prems(2) cs by simp
      ultimately obtain cs' where
        "recv_exact (n - length c) (stream cs1 later) = (Inr (take (n - length c) (concat cs1)), stream cs' later)"
        "concat cs' = drop (n - length c) (concat cs1)" "[] \<notin> set cs'"
        using less.IH[OF _ c(2)] by blast
      with True False c(1) cs show ?thesis
        by (subst recv_exact.simps) (auto simp: stream_def)
    next
      case no: False
      then have "recv_exact n (stream cs later) = (Inr (take n c), stream (drop n c # cs1) later)"
        using False cs c(1) by (subst recv_exact.simps) (simp add: stream_def recv_exact.simps[of 0])
      with no cs c(2) show ?thesis by auto
    qed
  qed
qed

lemma encode_shape:
  assumes "encode fr limit m = Inr frame"
  obtains tx where "json_dumps frame_style fr (JDict m) = Inr tx" "frame = pack_u32 (length (utf8 tx)) @ utf8 tx"
    "utf8 tx \<noteq> []" "int (length (utf8 tx)) \<le> limit" "length (utf8 tx) < 2 ^ 32"
  using assms by (auto simp: encode_def Let_def split: sum.splits if_splits)

lemma recv_header:
  assumes "[] \<notin> set cs" and "concat cs = header @ body" and "length header = 4"
  obtains cs' where "recv_exact 4 (stream cs later) = (Inr header, stream cs' later)" "concat cs' = body"
    "[] \<notin> set cs'"
  using recv_exact_stream[OF assms(1), of 4 later] assms(2,3) by auto

text \<open>A frame on the stream is read as a whole, and what stands behind it stays.\<close>

lemma recv_frame_stream:
  assumes "[] \<notin> set cs" and "concat cs = pack_u32 (length p) @ p @ after"
    and "p \<noteq> []" and "int (length p) \<le> limit" and "length p < 2 ^ 32"
  shows "\<exists>cs'. recv_frame reader limit (stream cs later) = (frame_value reader p, stream cs' later)
    \<and> concat cs' = after \<and> [] \<notin> set cs'"
proof -
  obtain cs1 where 1: "recv_exact 4 (stream cs later) = (Inr (pack_u32 (length p)), stream cs1 later)"
    "concat cs1 = p @ after" "[] \<notin> set cs1"
    using recv_header[OF assms(1), of "pack_u32 (length p)" "p @ after"] assms(2) by auto
  obtain cs2 where 2: "recv_exact (length p) (stream cs1 later) = (Inr p, stream cs2 later)"
    "concat cs2 = after" "[] \<notin> set cs2"
    using recv_exact_stream[OF 1(3), of "length p" later] 1(2) by auto
  have "recv_frame reader limit (stream cs later) = (frame_value reader p, stream cs2 later)"
    using 1 2 assms(3-5) by (simp add: recv_frame_def Let_def unpack_pack)
  with 2 show ?thesis by blast
qed

lemma frame_stream_received:
  assumes "encode fr limit m = Inr frame" and "readable reader fr 0 (JDict m)"
    and "[] \<notin> set cs" and "concat cs = frame @ after"
  shows "\<exists>cs'. recv_frame reader limit (stream cs later)
      = (Inr (sort_key fst (map (\<lambda>(k, x). (k, canon frame_style x)) m)), stream cs' later)
    \<and> concat cs' = after \<and> [] \<notin> set cs'"
proof -
  obtain tx where tx: "json_dumps frame_style fr (JDict m) = Inr tx"
    "frame = pack_u32 (length (utf8 tx)) @ utf8 tx" "utf8 tx \<noteq> []"
    "int (length (utf8 tx)) \<le> limit" "length (utf8 tx) < 2 ^ 32"
    by (rule encode_shape[OF assms(1)])
  have "frame_value reader (utf8 tx) = Inr (sort_key fst (map (\<lambda>(k, x). (k, canon frame_style x)) m))"
    using payload_roundtrip[OF styles_ok(1) tx(1) assms(2)]
    by (simp add: frame_value_def key_order_def frame_style_def[THEN arg_cong[of _ _ js_sort]])
  with recv_frame_stream[OF assms(3), of "utf8 tx" after limit reader later] tx assms(4)
  show ?thesis by simp
qed

section \<open>Sessions\<close>

lemma in_texts_True: "in_texts x ts = Inr True \<longleftrightarrow> (\<exists>s \<in> set ts. x = JStr s)"
  by (cases x) auto

lemma raise_quoting_not_Inr [simp]: "raise_quoting cls prefix quote \<noteq> Inr x"
  by (cases quote) (simp_all add: raise_quoting_def)

lemma as_dict_Some: "as_dict x = Some d \<longleftrightarrow> x = JDict d"
  by (cases x) auto

lemma all_dicts: "\<not> list_ex (\<lambda>x. as_dict x = None) xs \<Longrightarrow> map JDict (map (the \<circ> as_dict) xs) = xs"
  by (induction xs) (auto simp: as_dict_Some)

text \<open>
  What the accepted frame says, and what the response takes from it: the ids and the generation
  are those of the frame, so are the status, the result, the evidence and the error.
\<close>

lemma parse_response_checks:
  assumes "parse_response fr session raw rid oid = Inr resp"
  shows "dict_get raw ''type'' = JStr ''response''" "dict_get raw ''request_id'' = JStr rid"
    "dict_get raw ''operation_id'' = JStr oid"
    "eq_int (dict_get raw ''bridge_generation'') (bs_generation session)"
  using assms by (auto simp: parse_response_def eq_str_iff split: if_splits)

lemma parse_response_status:
  assumes "parse_response fr session raw rid oid = Inr resp"
  obtains status where "dict_get raw ''status'' = JStr status" "status \<in> set allowed_statuses"
proof -
  obtain known where k: "in_texts (dict_get raw ''status'') allowed_statuses = Inr known"
    using assms by (auto simp: parse_response_def bindR_def split: if_splits sum.splits)
  have "known"
    using assms k by (auto simp: parse_response_def bindR_def split: if_splits sum.splits)
  with k that show thesis by (auto simp: in_texts_True)
qed

lemma parse_response_Inr:
  assumes "parse_response fr session raw rid oid = Inr resp"
  shows "re_request_id resp = rid" "re_operation_id resp = oid"
    "re_bridge_generation resp = bs_generation session" "re_status resp \<in> set allowed_statuses"
    "dict_get raw ''status'' = JStr (re_status resp)"
    "or_else (dict_get raw ''result'') (JDict []) = JDict (re_result resp)"
    "or_else (dict_get raw ''evidence'') (JList []) = JList (map JDict (re_evidence resp))"
    "dict_get raw ''error'' = (case re_error resp of None \<Rightarrow> JNull | Some d \<Rightarrow> JDict d)"
proof -
  note checks = parse_response_checks[OF assms]
  note gen = eq_int_py_int[OF checks(4)]
  obtain st where st: "dict_get raw ''status'' = JStr st" "st \<in> set allowed_statuses"
    by (rule parse_response_status[OF assms])
  obtain result where result: "or_else (dict_get raw ''result'') (JDict []) = JDict result"
    using assms st by (auto simp: parse_response_def bindR_def split: if_splits sum.splits json.splits)
  obtain evidence where evidence: "or_else (dict_get raw ''evidence'') (JList []) = JList evidence"
    using assms st result by (auto simp: parse_response_def bindR_def split: if_splits sum.splits json.splits)
  have dicts: "\<not> list_ex (\<lambda>x. as_dict x = None) evidence"
    and err: "dict_get raw ''error'' = JNull \<or> as_dict (dict_get raw ''error'') \<noteq> None"
    using assms st result evidence by (auto simp: parse_response_def bindR_def split: if_splits)
  have resp: "resp = \<lparr>re_request_id = rid, re_operation_id = oid, re_status = st, re_result = result,
      re_evidence = map (the \<circ> as_dict) evidence, re_error = as_dict (dict_get raw ''error''),
      re_bridge_generation = bs_generation session\<rparr>"
    using assms checks gen st result evidence dicts err
    by (auto simp: parse_response_def bindR_def split: if_splits)
  show "re_request_id resp = rid" "re_operation_id resp = oid"
    "re_bridge_generation resp = bs_generation session" "re_status resp \<in> set allowed_statuses"
    "dict_get raw ''status'' = JStr (re_status resp)"
    "or_else (dict_get raw ''result'') (JDict []) = JDict (re_result resp)"
    using st result by (simp_all add: resp)
  show "or_else (dict_get raw ''evidence'') (JList []) = JList (map JDict (re_evidence resp))"
    using evidence all_dicts[OF dicts] by (simp add: resp)
  show "dict_get raw ''error'' = (case re_error resp of None \<Rightarrow> JNull | Some d \<Rightarrow> JDict d)"
    using err by (auto simp: resp as_dict_Some)
qed

text \<open>What a session read from an acknowledgement is sure to have.\<close>

definition session_ok :: "bridge_session \<Rightarrow> bool" where
  "session_ok session \<longleftrightarrow> bs_bridge_instance_id session \<noteq> [] \<and> bs_generation session > 0
     \<and> (\<forall>m c. map_of (bs_capabilities session) m = Some c \<longrightarrow>
          method_ok m \<and> br_method c = m \<and> br_state c \<in> set capability_states)"

lemma parse_capability_Inr:
  assumes "parse_capability fr m raw = Inr c"
  shows "method_ok m" "br_method c = m" "br_state c \<in> set capability_states"
proof -
  show m: "method_ok m" using assms by (auto simp: parse_capability_def split: if_splits)
  obtain state details where sd: "(case raw of JStr s \<Rightarrow> Inr (JStr s, [])
         | JDict d \<Rightarrow> Inr (dict_get d ''state'', filter (\<lambda>(k, v). k \<noteq> ''state'') d)
         | _ \<Rightarrow> Inl (BridgeProtocolError (''invalid capability descriptor for '' @ m))) = Inr (state, details)"
    using assms m by (auto simp: parse_capability_def bindR_Inr_iff simp del: not_None_eq)
  then obtain known where k: "in_texts state capability_states = Inr known"
    using assms m by (auto simp: parse_capability_def bindR_Inr_iff)
  then have "known"
    using assms m sd by (auto simp: parse_capability_def bindR_def split: sum.splits if_splits)
  with k obtain st where st: "state = JStr st" "st \<in> set capability_states" by (auto simp: in_texts_True)
  have "c = \<lparr>br_method = m, br_state = st, br_details = details\<rparr>"
    using assms m sd k \<open>known\<close> st by (auto simp: parse_capability_def)
  with st show "br_method c = m" "br_state c \<in> set capability_states" by simp_all
qed

lemma parse_capabilities_ok:
  assumes "parse_capabilities fr raw = Inr caps" and "map_of caps m = Some c"
  shows "method_ok m \<and> br_method c = m \<and> br_state c \<in> set capability_states"
proof -
  let ?ok = "\<lambda>caps :: (string \<times> bridge_capability) list. \<forall>m c. map_of caps m = Some c \<longrightarrow>
    method_ok m \<and> br_method c = m \<and> br_state c \<in> set capability_states"
  have "?ok caps" if "foldR (\<lambda>(method, raw) acc. bindR (parse_capability fr method raw) (\<lambda>c.
       Inr (AList.update method c acc))) raw acc = Inr caps" and "?ok acc" for acc
    using that
  proof (induction raw arbitrary: acc)
    case (Cons p raw)
    obtain m0 v where p: "p = (m0, v)" by (cases p)
    with Cons.prems(1) obtain c where c: "parse_capability fr m0 v = Inr c"
      "foldR (\<lambda>(method, raw) acc. bindR (parse_capability fr method raw) (\<lambda>c.
       Inr (AList.update method c acc))) raw (AList.update m0 c acc) = Inr caps"
      by (auto simp: bindR_Inr_iff)
    have "?ok (AList.update m0 c acc)"
      using Cons.prems(2) parse_capability_Inr[OF c(1)] by auto
    with Cons.IH c(2) show ?case by blast
  qed simp
  from this[of "[]"] assms show ?thesis by (simp add: parse_capabilities_def)
qed

lemma parse_hello_ack_Inr:
  assumes "parse_hello_ack fr ack uid verified = Inr session"
  shows "session_ok session" "bs_peer_uid_verified session = verified"
proof -
  have "\<exists>iid g raw caps. iid \<noteq> [] \<and> g > 0 \<and> parse_capabilities fr raw = Inr caps
    \<and> session = \<lparr>bs_bridge_instance_id = iid, bs_generation = g, bs_capabilities = caps,
        bs_peer_uid = uid, bs_peer_uid_verified = verified\<rparr>"
    using assms by (auto simp: parse_hello_ack_def remote_error_def bindR_Inr_iff
        split: if_splits json.splits)
  then show "session_ok session" "bs_peer_uid_verified session = verified"
    using parse_capabilities_ok by (auto simp: session_ok_def)
qed

lemma close_closes: "close s = (Inr (), s\<lparr>bc_socket := None, bc_session := None\<rparr>)"
  by (simp add: close_def py_simps)

section \<open>Credentials\<close>

definition word_bytes :: "bool \<Rightarrow> 32 word \<Rightarrow> byte list" where
  "word_bytes little w = (if little then List.rev (pack_u32 (unat w)) else pack_u32 (unat w))"

text \<open>\<^verbatim>\<open>struct ucred\<close> as the kernel fills it in\<close>

definition ucred_bytes :: "bool \<Rightarrow> 32 word \<Rightarrow> 32 word \<Rightarrow> 32 word \<Rightarrow> byte list" where
  "ucred_bytes little pid uid gid = word_bytes little pid @ word_bytes little uid @ word_bytes little gid"

lemma length_word_bytes [simp]: "length (word_bytes little w) = 4"
  by (simp add: word_bytes_def)

lemma bytes_int_word [simp]: "bytes_int little (word_bytes little w) = sint w"
proof -
  have "unpack_u32 (pack_u32 (unat w)) = unat w"
    using unsigned_less[of w] by (intro unpack_pack) simp
  then show ?thesis by (simp add: bytes_int_def word_bytes_def)
qed

lemma unpack_ucred [simp]:
  "unpack_3i little (ucred_bytes little pid uid gid) = Some (sint pid, sint uid, sint gid)"
  by (simp add: unpack_3i_def ucred_bytes_def)

text \<open>
  What \<open>connect\<close> learns of the peer before the handshake: its uid and whether it is verified,
  \<open>None\<close> when the connection is given up; and the state in which the handshake starts.
\<close>

definition connects_to :: "'z bridge_st_scheme \<Rightarrow> (int option \<times> bool) option" where
  "connects_to s =
     (if ln_accepts (links s (connects s))
      then (case peer_uid (ln_creds (links s (connects s))) of
           Inl e \<Rightarrow> None
         | Inr uid \<Rightarrow>
             let verified = (uid \<noteq> None \<and> own_uid s \<noteq> None \<and> uid = own_uid s) in
             if bc_require_same_uid s \<and> \<not> verified then None else Some (uid, verified))
      else None)"

definition link_socket :: "'z bridge_st_scheme \<Rightarrow> 'z bridge_st_scheme" where
  "link_socket s = s\<lparr>connects := Suc (connects s),
     bc_socket := Some \<lparr>so_incoming = ln_incoming (links s (connects s)),
       so_takes = ln_takes (links s (connects s)), so_sent = []\<rparr>\<rparr>"

lemma connect_handshakes:
  assumes "bc_socket s = None" and "connects_to s = Some (uid, v)"
  shows "connect fr reader s = tryE (handshake fr reader uid v) (\<lambda>e. thenE close (raise e)) (link_socket s)"
proof -
  have "ln_accepts (links s (connects s))" "peer_uid (ln_creds (links s (connects s))) = Inr uid"
    "v = (uid \<noteq> None \<and> own_uid s \<noteq> None \<and> uid = own_uid s)" "\<not> (bc_require_same_uid s \<and> \<not> v)"
    using assms(2) by (auto simp: connects_to_def Let_def split: if_splits sum.splits)
  with assms(1) show ?thesis
    by (cases v) (auto simp: connect_def py_simps connected_def put_socket_def link_socket_def)
qed

lemma connect_refused:
  assumes "bc_socket s = None" and "connects_to s = None"
  shows "\<exists>e. connect fr reader s = (Inl e, s\<lparr>connects := Suc (connects s)\<rparr>)"
  using assms by (auto simp: connects_to_def connect_def py_simps connected_def Let_def split: if_splits sum.splits)

lemma connects_to_Some:
  assumes "connects_to s = Some (uid, v)" and "bc_require_same_uid s"
  shows "v" "peer_uid (ln_creds (links s (connects s))) = Inr (own_uid s)" "own_uid s \<noteq> None"
  using assms by (auto simp: connects_to_def Let_def split: if_splits sum.splits)

lemma connect_error_closed:
  assumes "bc_socket s = None" and "bc_session s = None" and "connect fr reader s = (Inl e, s')"
  shows "bc_socket s' = None \<and> bc_session s' = None"
proof (cases "connects_to s")
  case None
  with connect_refused[OF assms(1) None, of fr reader] assms show ?thesis by auto
next
  case (Some p)
  then show ?thesis
    using assms connect_handshakes[of s "fst p" "snd p" fr reader]
    by (auto simp: py_simps close_closes split: prod.splits sum.splits)
qed

lemma signed_uid: "sint (w :: 32 word) = uint w \<longleftrightarrow> unat w < 2 ^ 31"
  unfolding sint_uint signed_take_bit_int_eq_self_iff
  using nat_less_iff[OF uint_ge_0[of w], of "2 ^ 31"] by (simp add: order_trans[OF _ uint_ge_0])

text \<open>On Linux the uid of the peer is read correctly below 2^31 and as another number above.\<close>

lemma peer_uid_linux:
  assumes "pc_getpeereid p = None" and "\<not> pc_darwin p"
    and "pc_peercred p = Some (Inr (ucred_bytes (pc_little_endian p) pid uid gid))"
  shows "peer_uid p = Inr (Some (sint uid))" "peer_uid p = Inr (Some (uint uid)) \<longleftrightarrow> unat uid < 2 ^ 31"
  using assms by (simp_all add: peer_uid_def so_peercred_uid_def signed_uid)

text \<open>
  Inside a frame: an integer of more than 4300 digits and brackets beyond the recursion limit
  make the JSON reader raise exceptions that the codec does not expect.
\<close>

lemma parse_brackets:
  assumes "depth \<le> jr_depth rd" and "jr_depth rd < depth + n"
  shows "parse_value rd depth (replicate n (CHR ''['') @ t) = Inl too_deep"
  using assms
proof (induction n arbitrary: depth)
  case (Suc n)
  show ?case
  proof (cases "jr_depth rd \<le> depth")
    case False
    with Suc.prems have n: "n > 0" by simp
    then have "parse_value rd (Suc depth) (replicate n (CHR ''['') @ t) = Inl too_deep"
      using Suc.IH[of "Suc depth"] Suc.prems False by simp
    moreover obtain m where "n = Suc m" using n by (cases n) auto
    ultimately show ?thesis using False
      by (simp add: parse_value.simps(2) parse_elements.simps skip_space_def is_json_space_def drop_prefix_def)
  qed (simp add: parse_value.simps)
qed simp

definition member_payload :: "string \<Rightarrow> string \<Rightarrow> byte list" where
  "member_payload k v = utf8 (''{'' @ member_text frame_style k v @ ''}'')"

lemma payload_member:
  assumes "jr_depth rd > 0" and "starts v" and "parse_value rd 1 (v @ ''}'') = Inl e"
  shows "payload_loads rd (member_payload k v) = Inl e"
  using assms parse_members_error[OF styles_ok(1) assms(2,3), of k "[]"]
  by (simp add: payload_loads_def member_payload_def utf8_decode_utf8 json_loads_def parse_value.simps
      starts_no_end skip_space_def[of "CHR ''{'' # w" for w] is_json_space_def)

section \<open>Properties\<close>

text \<open>
  C24: a frame arrives as it was sent. When a message was encoded within the frame limit, its
  dictionaries have distinct keys and nest within the recursion limit and its floats have
  decimal texts that denote them, then receiving returns the message with the keys of its
  dictionaries in sorted order, however the bytes on the stream are cut into chunks, consumes
  exactly the frame and leaves the bytes after it on the stream.
\<close>

theorem frame_roundtrip:
  assumes "encode fr limit m = Inr frame" and "readable reader fr 0 (JDict m)"
    and "[] \<notin> set cs" and "concat cs = frame @ after"
  shows "\<exists>cs'. recv_frame reader limit (stream cs later)
      = (Inr (sort_key fst (map (\<lambda>(k, x). (k, canon frame_style x)) m)), stream cs' later)
    \<and> concat cs' = after \<and> [] \<notin> set cs'"
  by (rule frame_stream_received[OF assms])

definition sample_message :: dict where
  "sample_message = [(''ok'', JBool True), (''by'', JList [JNull, JFloat 0])]"

definition sample_text :: string where
  "sample_text = ''{'' @ json_string False ''by'' @ '':[null,0.0],'' @ json_string False ''ok'' @ '':true}''"

definition plain_repr :: "pyfloat \<Rightarrow> string" where
  "plain_repr q = ''0.0''"

definition plain_reader :: json_reader where
  "plain_reader = \<lparr>jr_float = (\<lambda>t. 0), jr_depth = 1000\<rparr>"

lemma sample_dumps: "json_dumps frame_style plain_repr (JDict sample_message) = Inr sample_text"
  by (simp add: sample_message_def sample_text_def plain_repr_def frame_style_def key_order_def)

lemma sample_text_length: "length (utf8 sample_text) = 27"
  by (simp add: sample_text_def json_string_def json_escape_def utf8_def utf8_char_def Let_def)

theorem frame_roundtrip_witness:
  "\<exists>frame cs'. encode plain_repr 100 sample_message = Inr frame
    \<and> recv_frame plain_reader 100 (stream [take 3 frame, drop 3 frame] [Timeout])
      = (Inr [(''by'', JList [JNull, JFloat 0]), (''ok'', JBool True)], stream cs' [Timeout])
    \<and> concat cs' = []"
proof -
  let ?f = "pack_u32 27 @ utf8 sample_text"
  have ne: "utf8 sample_text \<noteq> []" using sample_text_length by auto
  have e: "encode plain_repr 100 sample_message = Inr ?f"
    using sample_dumps sample_text_length ne by (simp add: encode_def Let_def del: json_dumps.simps)
  have "float_text ''0.0''"
    by (simp add: float_text_def scan_number_def scan_int_def scan_frac_def scan_exp_def is_digit_def)
  then have r: "readable plain_reader plain_repr 0 (JDict sample_message)"
    by (simp add: sample_message_def plain_reader_def plain_repr_def)
  have cs: "[] \<notin> set [take 3 ?f, drop 3 ?f]" by (simp add: pack_u32_def)
  have cc: "concat [take 3 ?f, drop 3 ?f] = ?f @ []" by simp
  have "sort_key fst (map (\<lambda>(k, x). (k, canon frame_style x)) sample_message)
      = [(''by'', JList [JNull, JFloat 0]), (''ok'', JBool True)]"
    by (simp add: sample_message_def)
  with frame_roundtrip[OF e r cs cc, of "[Timeout]"] e show ?thesis by auto
qed

text \<open>
  Frames that cannot be right are refused unread. When the four header bytes announce an
  empty frame or one beyond the limit, receiving raises \<open>BridgeProtocolError\<close> having read
  the header only, whatever follows.
\<close>

theorem bad_length_refused:
  assumes "[] \<notin> set cs" and "concat cs = header @ body" and "length header = 4"
    and "unpack_u32 header = 0 \<or> int (unpack_u32 header) > limit"
  shows "\<exists>msg cs'. recv_frame reader limit (stream cs later) = (Inl (BridgeProtocolError msg), stream cs' later)
    \<and> concat cs' = body"
proof -
  obtain cs' where "recv_exact 4 (stream cs later) = (Inr header, stream cs' later)" "concat cs' = body"
    using recv_header[OF assms(1-3)] by blast
  with assms(4) show ?thesis by (auto simp: recv_frame_def Let_def)
qed

theorem bad_length_refused_witness:
  "\<exists>msg cs'. recv_frame plain_reader 100 (stream [[0, 0], [1, 0, 65]] []) =
      (Inl (BridgeProtocolError msg), stream cs' []) \<and> concat cs' = [65]"
  using bad_length_refused[of "[[0, 0], [1, 0, 65]]" "[0, 0, 1, 0]" "[65]" 100 plain_reader "[]"]
  by (simp add: unpack_u32_def)

text \<open>One exchange: the guards, the frame that goes out, and the frame that came in.\<close>

lemma request_exchange:
  assumes "request fr reader oid method loc args deadline s = (Inr resp, s')"
  obtains session k frame raw evs where "bc_session s = Some session" "bc_socket s = Some k"
    "supports session method" "oid \<noteq> []" "method_ok method" "deadline > 0"
    "encode fr (bc_max_frame_bytes s) (request_message (''req_'' @ hex_supply s (ids_drawn s)) oid method
        (bs_generation session) deadline (clock_supply s (clock_reads s)) loc args) = Inr frame"
    "recv_frame reader (bc_max_frame_bytes s) (so_incoming k) = (Inr raw, evs)"
    "parse_response fr session raw (''req_'' @ hex_supply s (ids_drawn s)) oid = Inr resp"
    "bc_socket s' = Some (k\<lparr>so_sent := so_sent k @ [frame], so_incoming := evs\<rparr>)"
proof -
  let ?rid = "''req_'' @ hex_supply s (ids_drawn s)"
  have guards: "connected s" "oid \<noteq> []" "method_ok method" "deadline > 0"
    using assms by (auto simp: request_def py_simps split: if_splits option.splits)
  then obtain session k where sk: "bc_session s = Some session" "bc_socket s = Some k"
    by (auto simp: connected_def)
  have cap: "check_capability session method = Inr ()"
    using assms guards sk by (auto simp: request_def py_simps split: sum.splits)
  then have supp: "supports session method"
    by (auto simp: check_capability_def supports_def split: option.splits if_splits)
  let ?m = "request_message ?rid oid method (bs_generation session) deadline
      (clock_supply s (clock_reads s)) loc args"
  obtain frame where frame: "encode fr (bc_max_frame_bytes s) ?m = Inr frame"
    using assms guards sk cap
    by (cases "encode fr (bc_max_frame_bytes s) ?m")
      (auto simp: request_def py_simps send_message_def get_socket_def)
  obtain outcome evs where rf: "recv_frame reader (bc_max_frame_bytes s) (so_incoming k) = (outcome, evs)"
    by fastforce
  have takes: "so_takes k (length (so_sent k))"
    using assms guards sk cap frame
    by (auto simp: request_def py_simps send_message_def get_socket_def split: if_splits)
  let ?k = "k\<lparr>so_sent := so_sent k @ [frame], so_incoming := evs\<rparr>"
  have run: "request fr reader oid method loc args deadline s =
      (bindR outcome (\<lambda>raw. parse_response fr session raw ?rid oid),
       s\<lparr>ids_drawn := Suc (ids_drawn s), clock_reads := Suc (clock_reads s), bc_socket := Some ?k\<rparr>)"
    using guards sk cap frame rf takes
    by (cases outcome) (simp_all add: request_def py_simps send_message_def recv_message_def get_socket_def put_socket_def)
  then have "bindR outcome (\<lambda>raw. parse_response fr session raw ?rid oid) = Inr resp"
    using assms by simp
  then obtain raw where "outcome = Inr raw" "parse_response fr session raw ?rid oid = Inr resp"
    unfolding bindR_Inr_iff by blast
  moreover have "bc_socket s' = Some ?k" using run assms by auto
  ultimately show thesis using that sk supp guards frame rf by blast
qed

text \<open>
  C25: a response is accepted only for its request. When \<open>request\<close> returns, the client was
  connected, the method was advertised as available and exactly one frame has been sent. The
  frame received in answer says of itself that it is a response, and it carries the request id
  drawn for this call, the operation id and the generation of the session: a frame that does
  not is never returned. The status, one of the five, the result, the evidence and the error
  of the response are those of that frame.
\<close>

theorem response_belongs_to_request:
  assumes "request fr reader oid method loc args deadline s = (Inr resp, s')"
  shows "\<exists>session k k' frame raw evs. bc_session s = Some session \<and> bc_socket s = Some k
    \<and> supports session method \<and> oid \<noteq> [] \<and> method_ok method \<and> deadline > 0
    \<and> encode fr (bc_max_frame_bytes s) (request_message (''req_'' @ hex_supply s (ids_drawn s)) oid method
        (bs_generation session) deadline (clock_supply s (clock_reads s)) loc args) = Inr frame
    \<and> recv_frame reader (bc_max_frame_bytes s) (so_incoming k) = (Inr raw, evs)
    \<and> bc_socket s' = Some k' \<and> so_sent k' = so_sent k @ [frame] \<and> so_incoming k' = evs
    \<and> dict_get raw ''type'' = JStr ''response''
    \<and> dict_get raw ''request_id'' = JStr (''req_'' @ hex_supply s (ids_drawn s))
    \<and> dict_get raw ''operation_id'' = JStr oid
    \<and> eq_int (dict_get raw ''bridge_generation'') (bs_generation session)
    \<and> re_request_id resp = ''req_'' @ hex_supply s (ids_drawn s) \<and> re_operation_id resp = oid
    \<and> re_bridge_generation resp = bs_generation session
    \<and> dict_get raw ''status'' = JStr (re_status resp)
    \<and> re_status resp \<in> {''succeeded'', ''blocked'', ''failed'', ''unknown'', ''cancelled''}
    \<and> or_else (dict_get raw ''result'') (JDict []) = JDict (re_result resp)
    \<and> or_else (dict_get raw ''evidence'') (JList []) = JList (map JDict (re_evidence resp))
    \<and> dict_get raw ''error'' = (case re_error resp of None \<Rightarrow> JNull | Some d \<Rightarrow> JDict d)"
proof -
  obtain session k frame raw evs where x: "bc_session s = Some session" "bc_socket s = Some k"
    "supports session method" "oid \<noteq> []" "method_ok method" "deadline > 0"
    "encode fr (bc_max_frame_bytes s) (request_message (''req_'' @ hex_supply s (ids_drawn s)) oid method
        (bs_generation session) deadline (clock_supply s (clock_reads s)) loc args) = Inr frame"
    "recv_frame reader (bc_max_frame_bytes s) (so_incoming k) = (Inr raw, evs)"
    "parse_response fr session raw (''req_'' @ hex_supply s (ids_drawn s)) oid = Inr resp"
    "bc_socket s' = Some (k\<lparr>so_sent := so_sent k @ [frame], so_incoming := evs\<rparr>)"
    by (rule request_exchange[OF assms])
  show ?thesis
    using x parse_response_checks[OF x(9)] parse_response_Inr[OF x(9)]
    by (intro exI[of _ session] exI[of _ k] exI[of _ "k\<lparr>so_sent := so_sent k @ [frame], so_incoming := evs\<rparr>"]
        exI[of _ frame] exI[of _ raw] exI[of _ evs]) (simp add: allowed_statuses_def)
qed

definition sample_session :: bridge_session where
  "sample_session = \<lparr>bs_bridge_instance_id = ''b1'', bs_generation = 2,
     bs_capabilities = [(''ui.click'', \<lparr>br_method = ''ui.click'', br_state = ''available'', br_details = []\<rparr>)],
     bs_peer_uid = Some 501, bs_peer_uid_verified = True\<rparr>"

definition sample_ack :: dict where
  "sample_ack = [(''type'', JStr ''hello_ack''), (''protocol_version'', JInt 1),
     (''bridge_instance_id'', JStr ''b1''), (''generation'', JInt 2),
     (''capabilities'', JDict [(''ui.click'', JStr ''available'')])]"

definition sample_response :: dict where
  "sample_response = [(''type'', JStr ''response''), (''request_id'', JStr ''req_r''),
     (''operation_id'', JStr ''op_1''), (''bridge_generation'', JInt 2), (''status'', JStr ''succeeded'')]"

text \<open>A message as a peer sends it, and a Linux socket whose peer is user 501.\<close>

definition sample_frame :: "dict \<Rightarrow> byte list" where
  "sample_frame m = (case encode plain_repr 1048576 m of Inl e \<Rightarrow> [] | Inr frame \<Rightarrow> frame)"

definition sample_creds :: peer_creds where
  "sample_creds = \<lparr>pc_getpeereid = None, pc_darwin = False, pc_libc = Inl (OSError ''no libc''),
     pc_peercred = Some (Inr (ucred_bytes True 4242 501 20)), pc_little_endian = True\<rparr>"

text \<open>A client with a session, whose peer has sent a response.\<close>

definition sample_client :: bridge_st where
  "sample_client = \<lparr>hex_supply = (\<lambda>n. ''r''), clock_supply = (\<lambda>n. 0), ids_drawn = 0, clock_reads = 0,
     bc_socket_path = ''/tmp/b'', bc_session_token = ''t'', bc_engine_instance_id = ''e'',
     bc_max_frame_bytes = 1048576, bc_require_same_uid = True, own_uid = Some 501,
     links = (\<lambda>n. \<lparr>ln_accepts = True, ln_creds = sample_creds,
        ln_incoming = [Chunk (sample_frame sample_ack)], ln_takes = (\<lambda>n. True)\<rparr>),
     connects = 0,
     bc_socket = Some \<lparr>so_incoming = [Chunk (sample_frame sample_response)], so_takes = (\<lambda>n. True), so_sent = []\<rparr>,
     bc_session = Some sample_session\<rparr>"

lemma sample_client_sel:
  "hex_supply sample_client = (\<lambda>n. ''r'')" "clock_supply sample_client = (\<lambda>n. 0)"
  "ids_drawn sample_client = 0" "clock_reads sample_client = 0"
  "bc_max_frame_bytes sample_client = 1048576" "bc_require_same_uid sample_client"
  "own_uid sample_client = Some 501" "connects sample_client = 0"
  "links sample_client n = \<lparr>ln_accepts = True, ln_creds = sample_creds,
     ln_incoming = [Chunk (sample_frame sample_ack)], ln_takes = (\<lambda>n. True)\<rparr>"
  "bc_socket sample_client = Some \<lparr>so_incoming = [Chunk (sample_frame sample_response)],
     so_takes = (\<lambda>n. True), so_sent = []\<rparr>"
  "bc_session sample_client = Some sample_session"
  by (simp_all add: sample_client_def)

lemmas sample_eval = repr_int_small int_str_def nat_str.simps digit_char_def json_string_def
  json_escape_def utf8_def utf8_char_def Let_def frame_style_def key_order_def

lemma encodes_small:
  assumes "json_dumps frame_style fr (JDict m) = Inr tx" and "utf8 tx \<noteq> []" and "length (utf8 tx) < 1000"
  shows "encode fr 1048576 m = Inr (pack_u32 (length (utf8 tx)) @ utf8 tx)"
  using assms by (simp add: encode_def Let_def del: json_dumps.simps)

lemma sample_request_encodes:
  "\<exists>frame. encode plain_repr 1048576 (request_message ''req_r'' ''op_1'' ''ui.click'' 2 5000 0 None []) = Inr frame"
proof -
  obtain tx where tx: "json_dumps frame_style plain_repr (JDict (request_message ''req_r'' ''op_1'' ''ui.click'' 2 5000 0 None [])) = Inr tx"
    "length (utf8 tx) < 1000" "utf8 tx \<noteq> []"
    by (simp add: request_message_def sample_eval)
  then show ?thesis using encodes_small by blast
qed

lemma sample_response_encodes: "\<exists>frame. encode plain_repr 1048576 sample_response = Inr frame"
proof -
  obtain tx where tx: "json_dumps frame_style plain_repr (JDict sample_response) = Inr tx"
    "length (utf8 tx) < 1000" "utf8 tx \<noteq> []"
    by (simp add: sample_response_def sample_eval)
  then show ?thesis using encodes_small by blast
qed

lemma sample_ack_encodes: "\<exists>frame. encode plain_repr 1048576 sample_ack = Inr frame"
proof -
  obtain tx where tx: "json_dumps frame_style plain_repr (JDict sample_ack) = Inr tx"
    "length (utf8 tx) < 1000" "utf8 tx \<noteq> []"
    by (simp add: sample_ack_def sample_eval)
  then show ?thesis using encodes_small by blast
qed

lemma sample_hello_encodes: "\<exists>frame. encode plain_repr 1048576 (hello sample_client) = Inr frame"
proof -
  obtain tx where tx: "json_dumps frame_style plain_repr (JDict (hello sample_client)) = Inr tx"
    "length (utf8 tx) < 1000" "utf8 tx \<noteq> []"
    by (simp add: hello_def sample_client_def sample_eval)
  then show ?thesis using encodes_small by blast
qed

lemma sample_frame_received:
  assumes "\<exists>frame. encode plain_repr 1048576 m = Inr frame" and "readable plain_reader plain_repr 0 (JDict m)"
  obtains evs where "recv_frame plain_reader 1048576 [Chunk (sample_frame m)]
    = (Inr (sort_key fst (map (\<lambda>(k, x). (k, canon frame_style x)) m)), evs)"
proof -
  obtain frame where frame: "encode plain_repr 1048576 m = Inr frame" using assms(1) by blast
  then have "frame \<noteq> []" by (rule encode_shape) (auto simp: pack_u32_def)
  with frame_stream_received[OF frame assms(2), of "[frame]" "[]" "[]"] that frame show ?thesis
    by (auto simp: sample_frame_def stream_def)
qed

theorem response_belongs_to_request_witness:
  "\<exists>resp s'. request plain_repr plain_reader ''op_1'' ''ui.click'' None [] 5000 sample_client
      = (Inr resp, s') \<and> re_request_id resp = ''req_r'' \<and> re_bridge_generation resp = 2
      \<and> re_status resp = ''succeeded''"
proof -
  obtain frame where frame: "encode plain_repr 1048576 (request_message ''req_r'' ''op_1'' ''ui.click'' 2 5000 0 None []) = Inr frame"
    using sample_request_encodes by blast
  have ok: "method_ok ''ui.click''" by (simp add: method_ok_def is_lower_def is_digit_def Let_def)
  obtain evs where rf: "recv_frame plain_reader 1048576 [Chunk (sample_frame sample_response)]
      = (Inr (sort_key fst (map (\<lambda>(k, x). (k, canon frame_style x)) sample_response)), evs)"
    by (rule sample_frame_received[OF sample_response_encodes])
      (simp add: sample_response_def plain_reader_def)
  obtain resp s' where run: "request plain_repr plain_reader ''op_1'' ''ui.click'' None [] 5000
      sample_client = (Inr resp, s')" and status: "re_status resp = ''succeeded''"
    using frame rf ok
    by (simp add: request_def py_simps sample_client_def connected_def sample_session_def check_capability_def
        session_capability_def available_def send_message_def recv_message_def get_socket_def put_socket_def
        parse_response_def sample_response_def dict_get_def allowed_statuses_def or_else_def)
  from response_belongs_to_request[OF run] have "re_request_id resp = ''req_r''" "re_bridge_generation resp = 2"
    by (auto simp: sample_client_def sample_session_def)
  with run status show ?thesis by auto
qed

text \<open>
  C39: the handshake succeeds as a whole or leaves nothing. From a closed client \<open>connect\<close>
  returns a session of a positive generation, with a bridge instance id and capabilities with
  valid method names and states only, verified to belong to the same user when that is
  required; or it raises, and the client is closed again.
\<close>

theorem connect_all_or_nothing:
  assumes "bc_socket s = None" and "bc_session s = None" and "connect fr reader s = (outcome, s')"
  shows "case outcome of
      Inl e \<Rightarrow> bc_socket s' = None \<and> bc_session s' = None
    | Inr session \<Rightarrow> connected s' \<and> bc_session s' = Some session \<and> session_ok session
        \<and> (bc_require_same_uid s \<longrightarrow> bs_peer_uid_verified session
             \<and> peer_uid (ln_creds (links s (connects s))) = Inr (own_uid s) \<and> own_uid s \<noteq> None)"
proof (cases outcome)
  case (Inl e)
  with connect_error_closed assms show ?thesis by simp
next
  case (Inr session)
  with assms connect_refused[OF assms(1), of fr reader] obtain uid v where c: "connects_to s = Some (uid, v)"
    by (cases "connects_to s") auto
  obtain r s2 where hs: "handshake fr reader uid v (link_socket s) = (r, s2)" by fastforce
  with assms(3) connect_handshakes[OF assms(1) c, of fr reader] Inr
  have r: "r = Inr session" "s' = s2" by (auto simp: py_simps close_closes split: sum.splits)
  obtain ack where ack: "parse_hello_ack fr ack uid v = Inr session"
    using hs r by (auto simp: handshake_def py_simps split: sum.splits prod.splits)
  have "bc_session s2 = Some session \<and> bc_socket s2 \<noteq> None"
    using hs r by (auto simp: handshake_def py_simps send_message_def recv_message_def get_socket_def
        put_socket_def split: sum.splits prod.splits option.splits if_splits)
  then show ?thesis
    using Inr r parse_hello_ack_Inr[OF ack] connects_to_Some[OF c] by (auto simp: connected_def)
qed

theorem connect_all_or_nothing_witness:
  "\<exists>session s'. connect plain_repr plain_reader (sample_client\<lparr>bc_socket := None, bc_session := None\<rparr>)
      = (Inr session, s') \<and> connected s' \<and> bs_generation session = 2 \<and> bs_peer_uid_verified session"
proof -
  let ?s = "sample_client\<lparr>bc_socket := None, bc_session := None\<rparr>"
  obtain frame where frame: "encode plain_repr 1048576 (hello sample_client) = Inr frame"
    using sample_hello_encodes by blast
  have ok: "method_ok ''ui.click''" by (simp add: method_ok_def is_lower_def is_digit_def Let_def)
  obtain evs where rf: "recv_frame plain_reader 1048576 [Chunk (sample_frame sample_ack)]
      = (Inr (sort_key fst (map (\<lambda>(k, x). (k, canon frame_style x)) sample_ack)), evs)"
    by (rule sample_frame_received[OF sample_ack_encodes]) (simp add: sample_ack_def plain_reader_def)
  have uid: "peer_uid sample_creds = Inr (Some 501)"
    by (simp add: peer_uid_def sample_creds_def so_peercred_uid_def)
  have h: "hello (link_socket ?s) = hello sample_client" by (simp add: hello_def link_socket_def)
  have c: "connects_to ?s = Some (Some 501, True)"
    using uid by (simp add: connects_to_def sample_client_sel)
  have ack: "sort_key fst (map (\<lambda>(k, x). (k, canon frame_style x)) sample_ack) =
      [(''bridge_instance_id'', JStr ''b1''), (''capabilities'', JDict [(''ui.click'', JStr ''available'')]),
       (''generation'', JInt 2), (''protocol_version'', JInt 1), (''type'', JStr ''hello_ack'')]"
    by (simp add: sample_ack_def frame_style_def key_order_def)
  obtain session s' where run: "connect plain_repr plain_reader ?s = (Inr session, s')" "bs_generation session = 2"
    using frame rf[unfolded ack] ok h
    by (simp add: connect_handshakes[OF _ c] handshake_def py_simps send_message_def recv_message_def get_socket_def
        put_socket_def link_socket_def sample_client_sel parse_hello_ack_def dict_get_def dict_get_or_def
        parse_capabilities_def parse_capability_def capability_states_def)
  from connect_all_or_nothing[OF _ _ run(1)] run show ?thesis by (auto simp: sample_client_sel)
qed

text \<open>
  A \<^verbatim>\<open>with\<close> block over a closed client leaves it closed, whatever the body does and however it
  ends.
\<close>

theorem with_block_closes:
  assumes "bc_socket s = None" and "bc_session s = None" and "with_client fr reader body s = (outcome, s')"
  shows "bc_socket s' = None \<and> bc_session s' = None"
proof -
  obtain r s1 where r: "connect fr reader s = (r, s1)" by fastforce
  show ?thesis
  proof (cases r)
    case (Inl e)
    with connect_error_closed[OF assms(1,2)] r assms(3) show ?thesis
      by (auto simp: with_client_def enter_client_def py_simps)
  next
    case (Inr session)
    with r assms(3) show ?thesis
      by (auto simp: with_client_def enter_client_def exit_client_def py_simps close_closes split: prod.splits)
  qed
qed

text \<open>
  Only dead sockets are removed. The path is removed exactly when it is a socket nobody
  listens on, and then the function says so; a file that is no socket is refused with
  \<open>BridgeProtocolError\<close> and stays.
\<close>

theorem cleanup_removes_dead_sockets_only:
  "snd (cleanup_stale_socket n) = (if n = Some (SocketNode False) then None else n)
   \<and> (fst (cleanup_stale_socket n) = Inr True \<longleftrightarrow> n = Some (SocketNode False))
   \<and> (n = Some OtherNode \<longleftrightarrow> fst (cleanup_stale_socket n) = Inl (BridgeProtocolError ''refusing to unlink non-socket path''))"
  by (auto simp: cleanup_stale_socket_def probe_socket_def split: option.splits node.splits)

text \<open>
  C20: \<^verbatim>\<open>SO_PEERCRED\<close> is read as three signed integers, although a uid is unsigned. On Linux
  \<open>peer_uid\<close> is the uid of the peer exactly below 2^31; a peer that runs as the same user with
  a larger uid is refused by a client that requires the same user.
\<close>

theorem high_uid_refused:
  assumes "ln_accepts (links s (connects s))" and "ln_creds (links s (connects s)) = p"
    and "pc_getpeereid p = None" and "\<not> pc_darwin p"
    and "pc_peercred p = Some (Inr (ucred_bytes (pc_little_endian p) pid uid gid))"
    and "bc_require_same_uid s" and "bc_socket s = None" and "own_uid s = Some (uint uid)"
    and "2 ^ 31 \<le> unat uid"
  shows "peer_uid p \<noteq> Inr (Some (uint uid)) \<and>
      (\<exists>msg. connect fr reader s = (Inl (BridgeProtocolError msg), s\<lparr>connects := Suc (connects s)\<rparr>))"
proof -
  have "peer_uid p = Inr (Some (sint uid))" "sint uid \<noteq> uint uid"
    using peer_uid_linux[OF assms(3-5)] assms(9) by (simp_all add: signed_uid)
  with assms show ?thesis by (simp add: connect_def py_simps connected_def)
qed

definition nobody_client :: bridge_st where
  "nobody_client = sample_client\<lparr>bc_socket := None, bc_session := None, own_uid := Some 4294967294,
     links := (\<lambda>n. \<lparr>ln_accepts = True,
        ln_creds = sample_creds\<lparr>pc_peercred := Some (Inr (ucred_bytes True 4242 4294967294 20))\<rparr>,
        ln_incoming = [], ln_takes = (\<lambda>n. True)\<rparr>)\<rparr>"

theorem high_uid_refused_witness:
  "\<exists>msg. connect plain_repr plain_reader nobody_client =
     (Inl (BridgeProtocolError msg), nobody_client\<lparr>connects := Suc (connects nobody_client)\<rparr>)"
  using high_uid_refused[of nobody_client "ln_creds (links nobody_client (connects nobody_client))"
      4242 4294967294 20 plain_repr plain_reader]
  by (simp add: nobody_client_def sample_creds_def sample_client_sel)

text \<open>
  Two kinds of well-formed JSON get past the error handling of the codec. A frame whose
  payload is an object with an integer of more than 4300 digits raises \<open>ValueError\<close>, and one
  whose brackets nest beyond the recursion limit raises \<open>RecursionError\<close>: neither is a
  \<open>BridgeError\<close>, which is what every other bad frame raises.
\<close>

theorem hostile_frame_escapes:
  assumes "v = ds \<and> length ds > 4300 \<and> list_all is_digit ds \<and> hd ds \<noteq> CHR ''0'' \<and> e = ValueError int_limit_message
      \<or> v = replicate n (CHR ''['') @ t \<and> n \<ge> jr_depth reader \<and> e = too_deep"
    and "jr_depth reader > 0" and "length (member_payload k v) < 2 ^ 32"
    and "int (length (member_payload k v)) \<le> limit" and "[] \<notin> set cs"
    and "concat cs = pack_u32 (length (member_payload k v)) @ member_payload k v @ after"
  shows "\<exists>cs'. recv_frame reader limit (stream cs later) = (Inl e, stream cs' later) \<and> concat cs' = after"
proof -
  have v: "starts v \<and> parse_value reader 1 (v @ ''}'') = Inl e"
    using assms(1)
  proof
    assume d: "v = ds \<and> length ds > 4300 \<and> list_all is_digit ds \<and> hd ds \<noteq> CHR ''0'' \<and> e = ValueError int_limit_message"
    then show ?thesis using parse_huge_int[of ds "''}''" reader 1] by (auto simp: number_end_delimiter intro!: starts_digits)
  next
    assume b: "v = replicate n (CHR ''['') @ t \<and> n \<ge> jr_depth reader \<and> e = too_deep"
    moreover have "n > 0" using assms(2) b by simp
    then obtain m where "n = Suc m" by (cases n) auto
    ultimately show ?thesis
      using parse_brackets[of 1 reader n "t @ ''}''"] assms(2) by (auto simp: starts_def is_json_space_def)
  qed
  have "not_json e = e" using assms(1) by (auto simp: too_deep_def)
  then have "frame_value reader (member_payload k v) = Inl e"
    using payload_member[OF assms(2)] v by (simp add: frame_value_def)
  moreover have "member_payload k v \<noteq> []" by (simp add: member_payload_def utf8_def utf8_char_def)
  ultimately show ?thesis
    using recv_frame_stream[OF assms(5,6) _ assms(4,3), of reader later] by auto
qed

theorem hostile_frame_escapes_witness:
  "\<exists>cs'. recv_frame plain_reader 1048576
      (stream [pack_u32 (length (member_payload ''k'' (replicate 1000 (CHR ''['')))) @ member_payload ''k'' (replicate 1000 (CHR ''[''))] [])
    = (Inl too_deep, stream cs' []) \<and> concat cs' = []"
proof -
  let ?v = "replicate 1000 (CHR ''['')"
  have len: "length (member_payload k (replicate n (CHR ''['') @ t)) = n + length (member_payload k t)" for k n t
    by (induction n) (simp_all add: member_payload_def member_text_def utf8_def utf8_char_def)
  have "length (member_payload ''k'' []) = 6"
    by (simp add: member_payload_def member_text_def json_string_def json_escape_def utf8_def utf8_char_def
        frame_style_def)
  with len[of "''k''" 1000 "[]"] have l: "length (member_payload ''k'' ?v) = 1006" by simp
  show ?thesis
    using hostile_frame_escapes[of ?v "[]" too_deep 1000 "[]" plain_reader "''k''" 1048576
        "[pack_u32 (length (member_payload ''k'' ?v)) @ member_payload ''k'' ?v]" "[]" "[]"]
    by (simp add: l plain_reader_def pack_u32_def)
qed

end
