(* ===== verification/Spec2Isabelle.thy ===== *)
theory Spec2Isabelle
  imports Row_Text Outdated Supervisor Bridge
begin

text \<open>
  A model of the native agent runtime under \<^verbatim>\<open>src/liandanlu_native/\<close>, and the theorems that
  make it correct.

  \<^bold>\<open>The program.\<close> A process keeps tasks, operations on the user's objects, a model of the
  world, leases, an event log and memories, most of it both in Python objects and in one
  SQLite file. An agent step asks a language model for an action, checks it against the action
  registry and the workspace policy, takes resources, prepares an operation and executes it
  through a capability; every change is saved together with an outbox row that becomes an event
  of the log. Several workers may share the file, so that tasks and resources are leased with
  generations. After a crash a new process is built from the tables and interrupted operations
  are reconciled. Services and the desktop bridge are separate processes, supervised and spoken
  to over a socket.

  \<^bold>\<open>How code becomes definitions.\<close> A class is a record, an enumeration a datatype, a
  dictionary or a table with a text key an association list in insertion order, a method a
  function of the state and exception monad of \<^verbatim>\<open>Prelude\<close>: state survives an exception, as
  objects do. The states of the classes are layers of one extensible record: supplies
  (\<open>host_st\<close>), tables (\<open>store_st\<close>), world, event facade, tasks, operations,
  scheduler, broker, agent; memory extends the event facade, and the supervisor and the bridge
  have states of their own. A \<open>*_durable\<close> field says that the part has a store behind it;
  both modes are modelled. Object references are identifiers, so an assignment to a field is an
  update of the dictionary. Every loop of the code ends, so that every definition is a total
  function and no fuel is needed; the loops that are not structural (the JSON reader, nested
  arguments, reading an exact number of bytes) have termination proofs.

  \<^bold>\<open>The theories\<close>, in the order of their imports:

  \<^item> \<^verbatim>\<open>Prelude\<close>: exceptions, JSON values, dictionaries, the monad, its Hoare rules
    (\<open>wp\<close>), identifiers and the clock. \<^verbatim>\<open>Py_Text\<close>: \<open>str\<close>, \<open>repr\<close>, \<open>float\<close>
    and slices of Python. \<^verbatim>\<open>Py_Json\<close>: \<open>json.dumps\<close> in the two styles of the program, the
    recursive reader behind \<open>json.loads\<close> with its errors, UTF-8; shown: what is written is
    read back, and the reader ends on every text.
  \<^item> \<^verbatim>\<open>Models\<close> (\<^verbatim>\<open>models.py\<close>): the data classes.
  \<^item> \<^verbatim>\<open>Store_Tables\<close>, \<^verbatim>\<open>Store_Events\<close>, \<^verbatim>\<open>Store_Leases\<close> (\<^verbatim>\<open>storage.py\<close>): rows and
    tables, saving and loading (locale \<open>row_store\<close>), outbox, log and cursors, leases.
    \<^verbatim>\<open>Lease_Protocol\<close> is the contract of all four lease tables of the program (locales
    \<open>fencing\<close>, \<open>lease_store\<close>, \<open>exclusive_lease_store\<close>), interpreted here, in
    \<^verbatim>\<open>Scheduler\<close> and in \<^verbatim>\<open>Resources\<close>. Shown: loading gives back what was saved; the log is the
    dispatched prefix of the outbox; a superseded lease never validates again; capacity and
    exclusive labels are respected; a claim takes the first eligible task.
  \<^item> \<^verbatim>\<open>Sql_Tables\<close>, \<^verbatim>\<open>Migration\<close>, \<^verbatim>\<open>Row_Text\<close> (\<^verbatim>\<open>storage.py\<close>): the same store one level
    lower. \<^verbatim>\<open>Sql_Tables\<close> has the statements of SQLite the schema needs, on tables with declared
    columns, keys and checks; \<^verbatim>\<open>Migration\<close> the thirteen tables, the added columns, the move of
    old memories and the seeding of revisions, step by step, so that a crash may fall between
    any two; \<^verbatim>\<open>Row_Text\<close> what is bound to an insert and read from a result row, JSON columns as
    text (locale \<open>row_codec\<close>, interpreted for tasks, operations, entities, the outbox and
    memories). Shown: opening succeeds on the known versions (when the old memories can be
    moved and the tables of the world have the columns it names), is idempotent, keeps types and
    rows, and resumes after a crash, except that a crash during the move loses the old memories;
    the rows of text are the rows of values the other theories work on; tasks of an older
    version are loaded with the defaults.
  \<^item> \<^verbatim>\<open>Policy\<close> (\<^verbatim>\<open>policy.py\<close>, \<^verbatim>\<open>capabilities.py\<close>): what the policy allows, what a resolved
    proposal is free of at any depth.
  \<^item> \<^verbatim>\<open>World\<close> (\<^verbatim>\<open>world.py\<close>): entities, relations, revisions; the tables mirror the world.
  \<^item> \<^verbatim>\<open>Events\<close> (\<^verbatim>\<open>events.py\<close>): the facade satisfies the consumers' contract (locale
    \<open>event_log\<close>) in both modes, which gives exactly-once delivery.
  \<^item> \<^verbatim>\<open>Memory\<close> (\<^verbatim>\<open>memory.py\<close> and the memory methods of \<^verbatim>\<open>storage.py\<close>): one record per
    event however often it is delivered, chains of revisions as long as no record committed
    without an event is given support, restarts, what a round of the pipeline commits.
  \<^item> \<^verbatim>\<open>Task_Runtime\<close>, \<^verbatim>\<open>Operation_Runtime\<close>, \<^verbatim>\<open>Scheduler\<close> (\<^verbatim>\<open>runtime.py\<close>): the control
    state machine, preparing, executing, verifying and recovering operations, the heaps.
    Execution is compared with a reference (\<open>executed\<close>) and refused without authority
    (\<open>may_execute\<close>); what \<open>execute\<close> returns as verified has evidence, what \<open>prepare\<close>
    returns is within the budget; the task a rebuilt heap picks is the one the query claims.
  \<^item> \<^verbatim>\<open>Resources\<close> (\<^verbatim>\<open>resources.py\<close>): the broker in memory answers as the store does; what
    the two store differs for the renewal of a lease that was changed since it was granted.
  \<^item> \<^verbatim>\<open>Context\<close> (\<^verbatim>\<open>context.py\<close>, \<^verbatim>\<open>brain.py\<close>): referents, manifests, the predictor.
  \<^item> \<^verbatim>\<open>Agent\<close> (\<^verbatim>\<open>agent.py\<close>, \<^verbatim>\<open>control.py\<close>): a step acts only as far as the policy allows and
    gives its resources back; control intents.
  \<^item> \<^verbatim>\<open>Recovery\<close> (\<^verbatim>\<open>recovery.py\<close>): a restart resumes the process, recovery brings
    operations to rest and executes nothing.
  \<^item> \<^verbatim>\<open>Outdated\<close>: revisions only grow, so that an operation whose expected revisions have
    passed stays outdated through every method of the process.
  \<^item> \<^verbatim>\<open>Supervisor\<close> (\<^verbatim>\<open>supervisor.py\<close>) and \<^verbatim>\<open>Bridge\<close> (\<^verbatim>\<open>desktop_bridge.py\<close>): service
    generations, frames, the handshake, the credentials of the peer, requests.
  \<^item> This theory: the runs of the whole engine and what they keep, the fencing of workers
    across the lease table and the operation runtime, and the operations that can never execute
    because preparing them moves a revision they expect.

  The invariant that ties the parts together is \<open>engine_ok\<close>: the log invariant of the store
  (\<open>store_ok\<close>), the world in its tables (\<open>world_saved\<close>), the tasks and the operations
  in theirs. Every method keeps it, whatever exception it raises.

  \<^bold>\<open>What is assumed.\<close> Code outside the repository is a parameter: the capabilities and the
  language model are functions that may raise and act on an abstract world outside, the
  text of a float and its reading are functions (\<open>float_repr\<close>, \<open>jr_float\<close>), the depth of
  the Python stack is a number (\<open>jr_depth\<close>), the operating system's answers about processes,
  sockets and the credentials of a peer are supplies. Nothing is assumed of them, except where a theorem says so. The draws
  of \<open>uuid4\<close> are distinct where an invariant needs it (\<open>inj (hex_supply s)\<close>), the clock
  is arbitrary. A method of the store is one transaction on one connection; SQLite returns
  rows without ORDER BY in rowid order. Where Python leaves the order of a set open, the model
  takes the sorted one.

  \<^bold>\<open>Bounds of the model.\<close> Floats are rationals, so rounding, infinities and NaN are left out;
  text is over single-byte characters; integers are unbounded, as in Python, with the two
  limits the code can meet (the conversion of huge integers to text and to floats); the
  \<open>OverflowError\<close> for an integer bound to a column beyond the signed 64 bits of SQLite is left out.
  The length of a frame is four bytes of eight bits. What a capability returns is a JSON
  value, so that \<^verbatim>\<open>json.dumps\<close> of its result cannot raise \<open>TypeError\<close> when the operation is
  saved; a domain of revisions is a field of \<^verbatim>\<open>WorldRevisions\<close>, a name such as \<^verbatim>\<open>bump\<close> that
  Python would resolve to a method counts as absent.

  \<^bold>\<open>Not modelled.\<close> The PRAGMAs, opening and closing of the SQLite connection (\<^verbatim>\<open>__init__\<close> up to
  the migration, \<open>close\<close>), type affinity of columns, and statements that fail for lack of disk or
  locks; timeouts as durations; the re-exports of \<^verbatim>\<open>__init__.py\<close>; protocols and annotations
  that have no behaviour. The statements of the methods after the migration are functions on the
  tables of \<^verbatim>\<open>Store_Tables\<close>, not statements of \<^verbatim>\<open>Sql_Tables\<close>: SQL queries have no reader here.
\<close>

section \<open>Runs of the engine\<close>

text \<open>
  Everything a process does with its tasks and operations, one method at a time, whatever the
  outcome; \<open>outside\<close> is a change of the world outside that the process does not cause.
\<close>

inductive engine_run :: "('w, 'z) agent_st_scheme \<Rightarrow> ('w, 'z) agent_st_scheme \<Rightarrow> bool" where
  create: "engine_run s (snd (create goal sc ws cs lane prio budget s))"
| queue: "engine_run s (snd (queue tid s))"
| wait: "engine_run s (snd (wait tid reason et s))"
| update: "engine_run s (snd (update_runtime_state tid st ph et actor s))"
| control: "engine_run s (snd (control tid desired s))"
| settle: "engine_run s (snd (settle_control tid sb ec s))"
| goal: "engine_run s (snd (evaluate_goal tid claims s))"
| prepare: "engine_run s (snd (prepare tid proposal er tlease rlease s))"
| execute: "engine_run s (snd (execute oid s))"
| recover: "engine_run s (snd (recover_operation oid s))"
| agent: "engine_run s (snd (step tid manifest tlease s))"
| flush: "engine_run s (snd (flush_outbox s))"
| register: "engine_run s (snd (register_entity e s))"
| observe: "engine_run s (snd (observe src typ v domain ws s))"
| relate: "engine_run s (snd (relate src rel tgt s))"
| recovery: "engine_run s (snd (Recovery.recover s))"
| outside: "engine_run s (s\<lparr>ext := w\<rparr>)"

lemma engine_ok_outside: "engine_ok s \<Longrightarrow> engine_ok (s\<lparr>ext := w\<rparr>)"
  using keepsD[OF keeps_engine_call[of "\<lambda>_. (Inr (), w)"], of s] by (simp add: py_simps)

text \<open>What the methods of the world model leave alone.\<close>

definition beside_world :: "('w, 'z) op_st_scheme \<Rightarrow> ('w, 'z) op_st_scheme \<Rightarrow> bool" where
  "beside_world s0 s \<longleftrightarrow> tasks s = tasks s0 \<and> operations s = operations s0
     \<and> tasks_durable s = tasks_durable s0 \<and> ops_durable s = ops_durable s0
     \<and> tasks_tbl (db s) = tasks_tbl (db s0) \<and> operations_tbl (db s) = operations_tbl (db s0)
     \<and> hex_supply s = hex_supply s0 \<and> ids_drawn s = ids_drawn s0"

lemma keeps_engine_beside:
  fixes m :: "(('w, 'z) op_st_scheme, 'a) py"
  assumes "\<And>s0. keeps (beside_world s0) m" and "keeps store_ok m" and "keeps world_saved m"
  shows "keeps engine_ok m"
proof (rule keepsI)
  fix s :: "('w, 'z) op_st_scheme"
  assume ok: "engine_ok s"
  have "beside_world s (snd (m s))" using keepsD[OF assms(1)] by (simp add: beside_world_def)
  moreover have "store_ok (snd (m s))" "world_saved (snd (m s))"
    using keepsD[OF assms(2)] keepsD[OF assms(3)] ok by (auto simp: engine_ok_def runtime_ok_def)
  ultimately show "engine_ok (snd (m s))"
    using ok by (auto simp: engine_ok_def runtime_ok_def tasks_synced_def ops_ok_def beside_world_def
        tasks_saved_def operations_saved_def op_drawn_def)
qed

lemma keeps_beside:
  "keeps (beside_world s0) (modify_world f)" "keeps (beside_world s0) (bump_workspace ws)"
  "keeps (beside_world s0) (bump_revision d)" "keeps (beside_world s0) persist_revisions"
  "keeps (beside_world s0) (save_world_entity e)" "keeps (beside_world s0) (save_world_relation a r b)"
  by (rule keepsI, simp add: py_simps beside_world_def save_world_tbls_def save_world_entity_def
      save_world_relation_def split: option.splits sum.splits)+

lemma keeps_engine_world:
  "keeps engine_ok (register_entity e)" "keeps engine_ok (observe src typ v domain ws)"
  "keeps engine_ok (relate src rel tgt)"
proof -
  have "keeps (beside_world s0) (register_entity e)" "keeps (beside_world s0) (observe src typ v domain ws)"
    "keeps (beside_world s0) (relate src rel tgt)" for s0 :: "('w, 'z) op_st_scheme"
    unfolding register_entity_def observe_def relate_def Let_def by (intro wp keeps_beside)+
  moreover have "keeps store_ok (register_entity e)" "keeps store_ok (observe src typ v domain ws)"
    "keeps store_ok (relate src rel tgt)"
    unfolding register_entity_def observe_def relate_def Let_def save_world_entity_def save_world_relation_def
    by (intro wp; simp add: same_log_def)+
  ultimately show "keeps engine_ok (register_entity e)" "keeps engine_ok (observe src typ v domain ws)"
    "keeps engine_ok (relate src rel tgt)"
    by (auto intro!: keeps_engine_beside keeps_world_register keeps_world_observe keeps_world_relate)
qed

lemma engine_run_ok: "engine_run s s' \<Longrightarrow> engine_ok s \<Longrightarrow> engine_ok s'"
  by (induction rule: engine_run.induct)
    (auto intro: keepsD keeps_engine_task_methods keeps_engine_prepare keeps_engine_execute
      keeps_engine_recover keeps_engine_step keeps_engine_flush keeps_engine_world
      keeps_engine_recover_all engine_ok_outside)

lemma engine_runs_ok: "engine_run\<^sup>*\<^sup>* s s' \<Longrightarrow> engine_ok s \<Longrightarrow> engine_ok s'"
  by (induction rule: rtranclp_induct) (auto intro: engine_run_ok)

text \<open>
  C1: the tables are the process. Whatever sequence of task methods, operations, agent steps,
  changes of the world and recoveries has run, with every exception they may raise on the way, the tables at that
  moment load to exactly the tasks and operations the process holds, the durable world is the
  world of the process, and the event log is the dispatched prefix of the outbox: a process
  that dies between two methods loses nothing.
\<close>

theorem tables_are_the_process:
  assumes "engine_run\<^sup>*\<^sup>* s s'" and "engine_ok s"
  shows "(tasks_durable s' \<longrightarrow> load_tasks (db s') = Inr (tasks s') \<and> load_operations (db s') = Inr (operations s'))
    \<and> (world_durable s' \<longrightarrow> load_world_model (db s') = (world s')\<lparr>observations := []\<rparr>)
    \<and> (\<exists>dn. outbox_tbl (db s') = dn @ pending_rows (db s') \<and> list_all2 logged_as dn (events_tbl (db s')))"
proof -
  have ok: "engine_ok s'" using engine_runs_ok[OF assms] .
  then have "store_ok s'" "world_saved s'" "ops_durable s' = tasks_durable s'"
    by (simp_all add: engine_ok_def runtime_ok_def ops_ok_def)
  then show ?thesis
    using engine_ok_load[OF ok] engine_ok_load_tasks[OF ok] log_prefix[of s']
    by (auto simp: world_saved_def mirrors_load)
qed

definition durable_agent :: "nat agent_st" where
  "durable_agent = (sample_agent [] [] (\<lambda>m w. (Inr sample_proposal, w)))\<lparr>tasks_durable := True,
     ops_durable := True, events_durable := True, world_durable := True\<rparr>"

theorem tables_are_the_process_witness:
  "load_tasks (db (snd (create ''goal'' [''done''] ''ws'' [] ''background'' 50 None durable_agent))) =
     Inr (tasks (snd (create ''goal'' [''done''] ''ws'' [] ''background'' 50 None durable_agent)))"
proof -
  let ?s = "snd (create ''goal'' [''done''] ''ws'' [] ''background'' 50 None durable_agent)"
  have fresh: "hex_supply durable_agent = sample_hex" "db durable_agent = empty_db"
    "world durable_agent = empty_world" "tasks durable_agent = []" "operations durable_agent = []"
    by (simp_all add: durable_agent_def sample_agent_def sample_engine_def sample_tasks_def task_st.defs
        op_st.defs sched_st.defs broker_st.defs agent_st.defs events_st.defs fresh_events_def world_st.defs
        fresh_world_def)
  have "store_ok durable_agent"
    by (simp add: store_ok_def fresh log_inv_def log_split_def empty_db_def cursors_ok_def inj_sample_hex)
  moreover have "tasks_durable durable_agent" "ops_durable durable_agent" by (simp_all add: durable_agent_def)
  ultimately have ok: "engine_ok durable_agent"
    by (simp add: engine_ok_def runtime_ok_def ops_ok_def world_saved_def tasks_synced_def tasks_saved_def
        operations_saved_def fresh mirrors_def empty_world_def empty_db_def)
  have "tasks_durable ?s"
    by (simp add: create_def py_simps Let_def record_task_def save_task_with_outbox_event_def insert_outbox_def
        durable_agent_def)
  moreover have "engine_run\<^sup>*\<^sup>* durable_agent ?s" by (rule r_into_rtranclp, rule engine_run.create)
  ultimately show ?thesis using tables_are_the_process[of durable_agent ?s] ok by blast
qed

text \<open>
  C2: a superseded worker cannot act. Suppose an operation was prepared under a task lease and
  the task has since been claimed under a newer generation, or the same generation by another
  owner. Then, however many further lease transactions of any owners lie between, executing the
  operation raises \<open>LeaseLost\<close> before any capability is called, and nothing changes but
  the clock.
\<close>

theorem superseded_worker_cannot_execute:
  assumes "map_of (operations s) oid = Some p" and "ops_durable s"
    and "op_task_lease_owner_id p = Some own0" and "op_task_lease_generation p = Some g0"
    and "task_holder d (op_task_id p) = Some (own, g, u)" and "g0 < g \<or> g0 = g \<and> own0 \<noteq> own"
    and "store_step\<^sup>*\<^sup>* d (db s)"
  shows "\<exists>s'. execute oid s = (Inl (LeaseLost ''task lease was lost before side effect execution''), s')
    \<and> ext s' = ext s \<and> operations s' = operations s \<and> db s' = db s"
proof -
  have "\<not> task_identity_valid (db s) (op_task_id p) own0 g0 ts" for ts
    unfolding task_identity_valid_holds by (rule task_runs.superseded_forever[OF assms(7,5,6)])
  then have "\<not> task_lease_held p s" using assms(2-4) by (simp add: task_lease_held_def)
  then have "check_outcome p s = Inl (LeaseLost ''task lease was lost before side effect execution'')"
    using assms(4) by (simp add: check_outcome_def)
  from execute_denied[OF assms(1) this] show ?thesis by (metis read_clock_sel(2,5,6))
qed

definition fenced_operation :: operation where
  "fenced_operation = (sample_operation OS_PREPARED)\<lparr>op_task_id := ''t2'',
     op_task_lease_owner_id := Some ''a'', op_task_lease_generation := Some 1\<rparr>"

theorem superseded_worker_cannot_execute_witness:
  "\<exists>s'. execute ''op_1'' ((sample_engine [] [fenced_operation] [(''files'', counting)] 0)\<lparr>ops_durable := True,
       db := leased_db ''b'' 2 99\<rparr>) =
     (Inl (LeaseLost ''task lease was lost before side effect execution''), s') \<and> ext s' = 0"
proof -
  let ?s = "(sample_engine [] [fenced_operation] [(''files'', counting)] 0)\<lparr>ops_durable := True,
       db := leased_db ''b'' 2 99\<rparr>"
  have "map_of (operations ?s) ''op_1'' = Some fenced_operation"
    by (simp add: fenced_operation_def sample_operation_def)
  moreover have "task_holder (leased_db ''b'' 2 99) (op_task_id fenced_operation) = Some (''b'', 2, 99)"
    by (simp add: task_holder_def leased_db_def fenced_operation_def)
  ultimately show ?thesis
    using superseded_worker_cannot_execute[of ?s "''op_1''" fenced_operation "''a''" 1 "leased_db ''b'' 2 99" "''b''" 2 99]
    by (auto simp: fenced_operation_def)
qed

lemma engine_run_outdated: "engine_run s s' \<Longrightarrow> outdated oid v s \<Longrightarrow> outdated oid v s'"
  by (induction rule: engine_run.induct) (auto intro: keepsD old outdated_frame)

lemma engine_runs_outdated: "engine_run\<^sup>*\<^sup>* s s' \<Longrightarrow> outdated oid v s \<Longrightarrow> outdated oid v s'"
  by (induction rule: rtranclp_induct) (auto intro: engine_run_outdated)

text \<open>
  C33: preparing moves the \<open>tasks\<close> revision after it has checked it, so an operation that
  expects that revision, which every manifest offers, is never executed: it has been prepared
  and charged to the budget, but whatever the process does afterwards, \<open>execute\<close> raises,
  calls no capability and leaves the operations and the tables as they were.
\<close>

theorem tasks_revision_never_executes:
  assumes "engine_ok s" and "prepare tid proposal er tlease rlease s = (Inr p, s1)" and "(''tasks'', v) \<in> set er"
    and "engine_run\<^sup>*\<^sup>* s1 s2"
  shows "\<exists>e s3. execute (op_operation_id p) s2 = (Inl e, s3) \<and> ext s3 = ext s2
    \<and> operations s3 = operations s2 \<and> db s3 = db s2"
proof -
  have old: "outdated (op_operation_id p) v s2"
    by (rule engine_runs_outdated[OF assms(4) prepare_outdated[OF assms(2,3,1)]])
  show ?thesis
  proof (rule outdated_refused[of s2 "op_operation_id p" v])
    show "(''tasks'', v) \<in> set (op_expected_revisions q)" if "map_of (operations s2) (op_operation_id p) = Some q" for q
      using old that keyed_lookup[OF _ that, of op_operation_id] by (auto simp: outdated_def expects_def)
    show "rev_tasks (revisions (world s2)) \<noteq> v" using old by (simp add: outdated_def)
  qed blast
qed

definition busy_agent :: "nat agent_st" where
  "busy_agent = sample_agent [] [sample_task ''t'' TS_RUNNING TS_RUNNING] (\<lambda>m w. (Inr sample_proposal, w))"

theorem tasks_revision_never_executes_witness:
  "\<exists>p s1 s2 e s3. prepare ''t'' plain_proposal [(''tasks'', 0)] None None busy_agent = (Inr p, s1)
     \<and> snd (flush_outbox s1) = s2 \<and> execute (op_operation_id p) s2 = (Inl e, s3) \<and> ext s3 = ext s2"
proof -
  have fresh: "hex_supply busy_agent = sample_hex" "db busy_agent = empty_db" "world busy_agent = empty_world"
    "tasks busy_agent = [(''t'', sample_task ''t'' TS_RUNNING TS_RUNNING)]" "operations busy_agent = []"
    "\<not> ops_durable busy_agent" "\<not> tasks_durable busy_agent" "\<not> events_durable busy_agent" "\<not> world_durable busy_agent"
    "registry busy_agent = [((''files'', ''read''), sample_spec)]"
    by (simp_all add: busy_agent_def sample_agent_def sample_engine_def sample_tasks_def task_st.defs
        op_st.defs sched_st.defs broker_st.defs agent_st.defs events_st.defs fresh_events_def world_st.defs
        fresh_world_def sample_task_def)
  then have ok: "engine_ok busy_agent"
    by (simp add: engine_ok_def runtime_ok_def ops_ok_def world_saved_def tasks_synced_def keyed_def sample_task_def
        store_ok_def log_inv_def log_split_def empty_db_def cursors_ok_def inj_sample_hex)
  obtain p s1 where run: "prepare ''t'' plain_proposal [(''tasks'', 0)] None None busy_agent = (Inr p, s1)"
    using sample_prepare_runs[of "[(''tasks'', 0)]" busy_agent] fresh by auto
  have "engine_run\<^sup>*\<^sup>* s1 (snd (flush_outbox s1))" by (rule r_into_rtranclp, rule engine_run.flush)
  from tasks_revision_never_executes[OF ok run _ this, of 0] run show ?thesis by auto
qed

end
